(* ===== verification/Xv6_Prelude.thy ===== *)
theory Xv6_Prelude
  imports Main "HOL-Library.Word"
begin

unbundle bit_operations_syntax

text \<open>
  Shared vocabulary of the development: the C integer types, the constants of
  \<^verbatim>\<open>src/param.h\<close>, the names of the kernel's locks and sleep channels, the outcome type of
  a kernel operation with its sequencing and loop combinators, and the list facts that
  the components use.

  C's \<^verbatim>\<open>uint\<close> is \<open>u32\<close> and wraps; \<^verbatim>\<open>uchar\<close> and \<^verbatim>\<open>char\<close> cells of memory are \<open>u8\<close>;
  C's \<^verbatim>\<open>int\<close> is \<open>int\<close>, because signed overflow is undefined in C and no theorem here
  reasons about a run that overflows one. A conversion from \<^verbatim>\<open>uint\<close> to \<^verbatim>\<open>int\<close> is
  \<open>sint\<close>, as the compiler the Makefile names does it.
\<close>

section \<open>Machine integers and constants\<close>

type_synonym u8 = "8 word"
type_synonym u32 = "32 word"

definition NPROC :: nat where "NPROC = 64"
definition KSTACKSIZE :: u32 where "KSTACKSIZE = 4096"
definition NOFILE :: nat where "NOFILE = 16"
definition NFILE :: nat where "NFILE = 100"

lemma NPROC_pos [simp]: "0 < NPROC"
  by (simp add: NPROC_def)

section \<open>Locks and sleep channels\<close>

text \<open>
  A spinlock is named by the kernel object that holds it; a sleep channel by the object
  whose address the code passes to \<^verbatim>\<open>sleep\<close> and \<^verbatim>\<open>wakeup\<close>. Distinct objects have
  distinct addresses, so distinct values here.
\<close>

datatype sleeplockid = BufLock nat | InodeLock nat

datatype lockid =
    PtableLock | TicksLock | KmemLock | ConsLock | BcacheLock | IcacheLock
  | LogLock | FtableLock | IdeLock | PipeLock nat | SleepLk sleeplockid

datatype chan =
    ChProc nat | ChTicks | ChInput | ChLog | ChBuf nat
  | ChPipeRead nat | ChPipeWrite nat | ChSleepLock sleeplockid

section \<open>Outcomes of kernel code\<close>

text \<open>
  Running kernel code on one CPU ends in one of four ways.
  \<open>Ok v s\<close>: it returned \<open>v\<close> and left the kernel in state \<open>s\<close>.
  \<open>Panic m\<close>: it called \<^verbatim>\<open>panic(m)\<close>, which never returns.
  \<open>Spin l s\<close>: it is in the \<^verbatim>\<open>xchg\<close> loop of \<^verbatim>\<open>acquire\<close> on a lock that another CPU
  holds; it does not get further until that CPU releases it.
  \<open>Off s\<close>: the process it ran for has switched off this CPU (\<^verbatim>\<open>swtch\<close> to the
  scheduler); the code after the switch is a definition of its own.
\<close>

datatype ('a, 's) res = Ok 'a 's | Panic string | Spin lockid 's | Off 's

fun bnd :: "('a, 's) res \<Rightarrow> ('a \<Rightarrow> 's \<Rightarrow> ('b, 's) res) \<Rightarrow> ('b, 's) res" where
  "bnd (Ok x s) f = f x s"
| "bnd (Panic m) f = Panic m"
| "bnd (Spin l s) f = Spin l s"
| "bnd (Off s) f = Off s"

text \<open>A \<^verbatim>\<open>for\<close> loop over a list of indices, and one whose body may return early.\<close>

fun forR :: "'i list \<Rightarrow> ('i \<Rightarrow> 's \<Rightarrow> (unit, 's) res) \<Rightarrow> 's \<Rightarrow> (unit, 's) res" where
  "forR [] f s = Ok () s"
| "forR (i # is) f s = bnd (f i s) (\<lambda>_ s. forR is f s)"

fun findR :: "'i list \<Rightarrow> ('i \<Rightarrow> 's \<Rightarrow> ('r option, 's) res) \<Rightarrow> 's \<Rightarrow> ('r option, 's) res" where
  "findR [] f s = Ok None s"
| "findR (i # is) f s =
     bnd (f i s) (\<lambda>r s. case r of None \<Rightarrow> findR is f s | Some v \<Rightarrow> Ok (Some v) s)"

lemma bnd_eq_Ok:
  "bnd m f = Ok y t \<longleftrightarrow> (\<exists>x s. m = Ok x s \<and> f x s = Ok y t)"
  by (cases m) auto

lemma bnd_cong [fundef_cong]:
  "m = m' \<Longrightarrow> (\<And>x s. m' = Ok x s \<Longrightarrow> f x s = g x s) \<Longrightarrow> bnd m f = bnd m' g"
  by (cases m') auto

lemma bnd_assoc: "bnd (bnd m f) g = bnd m (\<lambda>x s. bnd (f x s) g)"
  by (cases m) auto

lemma forR_append: "forR (xs @ ys) f s = bnd (forR xs f s) (\<lambda>_ s. forR ys f s)"
  by (induction xs arbitrary: s) (auto simp: bnd_assoc intro: bnd_cong)

text \<open>A loop whose body never fails is a fold of the body's effect.\<close>

lemma forR_fold:
  assumes "\<And>i s. P s \<Longrightarrow> i \<in> set is \<Longrightarrow> f i s = Ok () (g i s)"
    and "\<And>i s. P s \<Longrightarrow> i \<in> set is \<Longrightarrow> P (g i s)"
    and "P s"
  shows "forR is f s = Ok () (fold g is s) \<and> P (fold g is s)"
  using assms by (induction "is" arbitrary: s) auto

section \<open>Lists\<close>

text \<open>The number of elements that satisfy a predicate, as C's \<^verbatim>\<open>int\<close> counters have it.\<close>

definition cnt :: "('a \<Rightarrow> bool) \<Rightarrow> 'a list \<Rightarrow> int" where
  "cnt P xs = int (length (filter P xs))"

lemma cnt_Nil [simp]: "cnt P [] = 0"
  by (simp add: cnt_def)

lemma cnt_Cons [simp]: "cnt P (x # xs) = of_bool (P x) + cnt P xs"
  by (simp add: cnt_def)

lemma cnt_nonneg [simp]: "0 \<le> cnt P xs"
  by (simp add: cnt_def)

lemma cnt_update:
  "i < length xs \<Longrightarrow> cnt P (xs[i := x]) = cnt P xs - of_bool (P (xs ! i)) + of_bool (P x)"
proof (induction xs arbitrary: i)
  case (Cons a xs)
  then show ?case by (cases i) auto
qed simp

lemma cnt_pos_iff: "0 < cnt P xs \<longleftrightarrow> (\<exists>i < length xs. P (xs ! i))"
proof -
  have "0 < cnt P xs \<longleftrightarrow> filter P xs \<noteq> []"
    by (simp add: cnt_def)
  also have "\<dots> \<longleftrightarrow> (\<exists>x \<in> set xs. P x)"
    by (auto simp: filter_empty_conv)
  finally show ?thesis by (metis in_set_conv_nth)
qed

lemma cnt_zero_iff: "cnt P xs = 0 \<longleftrightarrow> (\<forall>i < length xs. \<not> P (xs ! i))"
proof -
  have "cnt P xs = 0 \<longleftrightarrow> \<not> 0 < cnt P xs"
    using cnt_nonneg [of P xs] by linarith
  then show ?thesis by (simp add: cnt_pos_iff)
qed

lemma cnt_update_same:
  "i < length xs \<Longrightarrow> P x = P (xs ! i) \<Longrightarrow> cnt P (xs[i := x]) = cnt P xs"
  by (simp add: cnt_update)

lemma nth_upd: "j < length xs \<Longrightarrow> xs[i := x] ! j = (if i = j then x else xs ! j)"
  by simp

section \<open>Words\<close>

lemma sint_u32: "sint x = (if uint x < 2 ^ 31 then uint x else uint x - 2 ^ 32)" for x :: u32
proof -
  have b: "0 \<le> uint x" "uint x < 2 ^ 32" using uint_bounded [of x] by simp_all
  show ?thesis
  proof (cases "uint x < 2 ^ 31")
    case True
    have "signed_take_bit 31 (uint x) = uint x"
      by (rule signed_take_bit_int_eq_self) (use b True in linarith)+
    then show ?thesis using True by (simp add: sint_uint)
  next
    case False
    have "signed_take_bit 31 (uint x) = signed_take_bit 31 (uint x - 2 ^ 32)"
      by (rule signed_take_bit_eq_iff_take_bit_eq [THEN iffD2]) (simp add: take_bit_eq_mod)
    also have "\<dots> = uint x - 2 ^ 32"
      by (rule signed_take_bit_int_eq_self) (use b False in simp_all)
    finally show ?thesis using False by (simp add: sint_uint)
  qed
qed

lemma uint_minus_u32: "x \<noteq> 0 \<Longrightarrow> uint (- x) = 2 ^ 32 - uint x" for x :: u32
proof -
  assume "x \<noteq> 0"
  then have "uint x \<noteq> 0" by (simp add: uint_0_iff)
  moreover have "0 \<le> uint x" "uint x < 2 ^ 32" using uint_bounded [of x] by simp_all
  ultimately have "(- uint x) mod 2 ^ 32 = 2 ^ 32 - uint x" by (simp add: zmod_zminus1_eq_if)
  then show ?thesis by (simp add: uint_word_arith_bintrs take_bit_eq_mod)
qed

section \<open>Searching\<close>

lemma find_SomeD: "find P xs = Some x \<Longrightarrow> x \<in> set xs \<and> P x"
  by (induction xs) (auto split: if_splits)

lemma find_unique:
  assumes "i \<in> set xs" "P i" "\<And>j. j \<in> set xs \<Longrightarrow> P j \<Longrightarrow> j = i"
  shows "find P xs = Some i"
proof -
  have "find P xs \<noteq> None" using assms(1,2) by (auto simp: find_None_iff)
  then obtain j where j: "find P xs = Some j" by blast
  then have "j \<in> set xs" "P j" using find_SomeD [of P xs j] by blast+
  then show ?thesis using j assms(3) by blast
qed

section \<open>Invariants of step relations\<close>

text \<open>
  The contract under which an invariant holds in every reachable state. Each component
  with a step relation interprets it with its own initial states, steps and invariant.
\<close>

locale invariant_system =
  fixes init :: "'s \<Rightarrow> bool"
    and step :: "'s \<Rightarrow> 's \<Rightarrow> bool"
    and inv :: "'s \<Rightarrow> bool"
  assumes inv_init: "init s \<Longrightarrow> inv s"
    and inv_step: "inv s \<Longrightarrow> step s t \<Longrightarrow> inv t"
begin

lemma steps_inv: "step\<^sup>*\<^sup>* s t \<Longrightarrow> inv s \<Longrightarrow> inv t"
  by (induction rule: rtranclp_induct) (auto intro: inv_step)

lemma reachable_inv: "init s \<Longrightarrow> step\<^sup>*\<^sup>* s t \<Longrightarrow> inv t"
  using steps_inv inv_init by blast

end

end
