(* ===== verification/Spinlock.thy ===== *)
theory Spinlock
  imports Xv6_Prelude
begin

text \<open>
  Spinlocks, interrupt masking and the per-CPU state: \<^verbatim>\<open>src/spinlock.c\<close>,
  \<^verbatim>\<open>src/spinlock.h\<close>, \<^verbatim>\<open>struct cpu\<close> of \<^verbatim>\<open>src/proc.h\<close> and \<^verbatim>\<open>mycpu\<close>, \<^verbatim>\<open>cpuid\<close> and
  \<^verbatim>\<open>myproc\<close> of \<^verbatim>\<open>src/proc.c\<close>.

  Every operation takes the local APIC id \<open>a\<close> of the CPU that executes it (what
  \<^verbatim>\<open>lapicid()\<close> returns there). The interrupt flag of \<^verbatim>\<open>%eflags\<close> and the \<^verbatim>\<open>%cr3\<close>
  register are hardware state of that CPU. The call stack that \<^verbatim>\<open>acquire\<close> saves in
  \<^verbatim>\<open>lk->pcs\<close> for debugging is not part of the state.
\<close>

named_theorems lock_simps \<open>rewriting with the effects of the lock operations\<close>

section \<open>State\<close>

record cpu =
  cpu_apicid :: nat
  cpu_ncli :: int
  cpu_intena :: bool
  cpu_proc :: "nat option"
  cpu_esp0 :: u32

record spinlock =
  lk_locked :: bool
  lk_name :: string
  lk_cpu :: "nat option"

record mach =
  cpus :: "cpu list"
  eif :: "nat \<Rightarrow> bool"
  cr3 :: "nat \<Rightarrow> u32"
  locks :: "lockid \<Rightarrow> spinlock"

definition upd_cpu :: "nat \<Rightarrow> (cpu \<Rightarrow> cpu) \<Rightarrow> mach \<Rightarrow> mach" where
  "upd_cpu i f m = m\<lparr>cpus := (cpus m)[i := f (cpus m ! i)]\<rparr>"

definition set_if :: "nat \<Rightarrow> bool \<Rightarrow> mach \<Rightarrow> mach" where
  "set_if a b m = m\<lparr>eif := (eif m)(a := b)\<rparr>"

definition set_lock :: "lockid \<Rightarrow> bool \<Rightarrow> nat option \<Rightarrow> mach \<Rightarrow> mach" where
  "set_lock l b c m = m\<lparr>locks := (locks m)(l := (locks m l)\<lparr>lk_locked := b, lk_cpu := c\<rparr>)\<rparr>"

section \<open>Operations\<close>

fun scan_apicid :: "nat \<Rightarrow> cpu list \<Rightarrow> nat \<Rightarrow> nat option" where
  "scan_apicid a [] i = None"
| "scan_apicid a (c # cs) i = (if cpu_apicid c = a then Some i else scan_apicid a cs (Suc i))"

definition mycpu :: "nat \<Rightarrow> mach \<Rightarrow> (nat, mach) res" where
  "mycpu a m =
     (if eif m a then Panic (''mycpu called with interrupts enabled'' @ [CHR 0x0A])
      else case scan_apicid a (cpus m) 0 of
          Some i \<Rightarrow> Ok i m
        | None \<Rightarrow> Panic (''unknown apicid'' @ [CHR 0x0A]))"

definition cpuid :: "nat \<Rightarrow> mach \<Rightarrow> (nat, mach) res" where
  "cpuid a m = mycpu a m"

definition initlock :: "lockid \<Rightarrow> string \<Rightarrow> mach \<Rightarrow> mach" where
  "initlock l nm m = m\<lparr>locks := (locks m)(l := \<lparr>lk_locked = False, lk_name = nm, lk_cpu = None\<rparr>)\<rparr>"

definition pushcli :: "nat \<Rightarrow> mach \<Rightarrow> (unit, mach) res" where
  "pushcli a m =
     (let eflags = eif m a in
      bnd (mycpu a (set_if a False m)) (\<lambda>i m.
        let m = (if cpu_ncli (cpus m ! i) = 0 then upd_cpu i (\<lambda>c. c\<lparr>cpu_intena := eflags\<rparr>) m else m)
        in Ok () (upd_cpu i (\<lambda>c. c\<lparr>cpu_ncli := cpu_ncli c + 1\<rparr>) m)))"

definition popcli :: "nat \<Rightarrow> mach \<Rightarrow> (unit, mach) res" where
  "popcli a m =
     (if eif m a then Panic ''popcli - interruptible''
      else bnd (mycpu a m) (\<lambda>i m.
        let m = upd_cpu i (\<lambda>c. c\<lparr>cpu_ncli := cpu_ncli c - 1\<rparr>) m in
        if cpu_ncli (cpus m ! i) < 0 then Panic ''popcli''
        else if cpu_ncli (cpus m ! i) = 0 \<and> cpu_intena (cpus m ! i) then Ok () (set_if a True m)
        else Ok () m))"

definition holding :: "nat \<Rightarrow> lockid \<Rightarrow> mach \<Rightarrow> (bool, mach) res" where
  "holding a l m =
     bnd (pushcli a m) (\<lambda>_ m.
     bnd (if lk_locked (locks m l)
          then bnd (mycpu a m) (\<lambda>i m. Ok (lk_cpu (locks m l) = Some i) m)
          else Ok False m) (\<lambda>r m.
     bnd (popcli a m) (\<lambda>_ m. Ok r m)))"

text \<open>The \<^verbatim>\<open>xchg\<close> of the spin loop, and what follows once it returned 0.\<close>

definition acquire_spin :: "nat \<Rightarrow> lockid \<Rightarrow> mach \<Rightarrow> (unit, mach) res" where
  "acquire_spin a l m =
     (if lk_locked (locks m l) then Spin l m
      else bnd (mycpu a (set_lock l True (lk_cpu (locks m l)) m)) (\<lambda>i m.
         Ok () (set_lock l True (Some i) m)))"

definition acquire_m :: "nat \<Rightarrow> lockid \<Rightarrow> mach \<Rightarrow> (unit, mach) res" where
  "acquire_m a l m =
     bnd (pushcli a m) (\<lambda>_ m.
     bnd (holding a l m) (\<lambda>h m.
       if h then Panic ''acquire'' else acquire_spin a l m))"

definition release_m :: "nat \<Rightarrow> lockid \<Rightarrow> mach \<Rightarrow> (unit, mach) res" where
  "release_m a l m =
     bnd (holding a l m) (\<lambda>h m.
       if \<not> h then Panic ''release''
       else popcli a (set_lock l False None m))"

definition myproc_m :: "nat \<Rightarrow> mach \<Rightarrow> (nat option, mach) res" where
  "myproc_m a m =
     bnd (pushcli a m) (\<lambda>_ m.
     bnd (mycpu a m) (\<lambda>i m.
     let p = cpu_proc (cpus m ! i) in
     bnd (popcli a m) (\<lambda>_ m. Ok p m)))"

section \<open>The effect of each operation\<close>

abbreviation cpu_ix :: "nat \<Rightarrow> mach \<Rightarrow> nat option" where
  "cpu_ix a m \<equiv> scan_apicid a (cpus m) 0"

definition ncli_of :: "nat \<Rightarrow> mach \<Rightarrow> int" where
  "ncli_of a m = (case cpu_ix a m of Some i \<Rightarrow> cpu_ncli (cpus m ! i) | None \<Rightarrow> -1)"

text \<open>The CPU is in the table, and its interrupts are off while its nesting depth is positive.\<close>

definition cpu_ready :: "nat \<Rightarrow> mach \<Rightarrow> bool" where
  "cpu_ready a m \<longleftrightarrow> 0 \<le> ncli_of a m \<and> (0 < ncli_of a m \<longrightarrow> \<not> eif m a)"

definition lk_free :: "lockid \<Rightarrow> mach \<Rightarrow> bool" where
  "lk_free l m \<longleftrightarrow> \<not> lk_locked (locks m l) \<and> lk_cpu (locks m l) = None"

definition held :: "nat \<Rightarrow> lockid \<Rightarrow> mach \<Rightarrow> bool" where
  "held a l m \<longleftrightarrow> lk_locked (locks m l) \<and> lk_cpu (locks m l) = cpu_ix a m"

definition push :: "nat \<Rightarrow> mach \<Rightarrow> mach" where
  "push a m =
     (case cpu_ix a m of
        None \<Rightarrow> m
      | Some i \<Rightarrow> set_if a False (upd_cpu i (\<lambda>c. c\<lparr>cpu_ncli := cpu_ncli c + 1,
          cpu_intena := (if cpu_ncli c = 0 then eif m a else cpu_intena c)\<rparr>) m))"

definition pop :: "nat \<Rightarrow> mach \<Rightarrow> mach" where
  "pop a m =
     (case cpu_ix a m of
        None \<Rightarrow> m
      | Some i \<Rightarrow> (let m' = upd_cpu i (\<lambda>c. c\<lparr>cpu_ncli := cpu_ncli c - 1\<rparr>) m in
          if cpu_ncli (cpus m ! i) = 1 \<and> cpu_intena (cpus m ! i) then set_if a True m' else m'))"

text \<open>\<open>settle\<close>: at depth 0 the field \<^verbatim>\<open>intena\<close> is dead; a balanced pair leaves the flag in it.\<close>

definition settle :: "nat \<Rightarrow> mach \<Rightarrow> mach" where
  "settle a m =
     (case cpu_ix a m of
        None \<Rightarrow> m
      | Some i \<Rightarrow> upd_cpu i (\<lambda>c. c\<lparr>cpu_intena :=
          (if cpu_ncli c = 0 then eif m a else cpu_intena c)\<rparr>) m)"

definition acq :: "nat \<Rightarrow> lockid \<Rightarrow> mach \<Rightarrow> mach" where
  "acq a l m = set_lock l True (cpu_ix a m) (push a m)"

definition rel :: "nat \<Rightarrow> lockid \<Rightarrow> mach \<Rightarrow> mach" where
  "rel a l m = pop a (set_lock l False None m)"

lemma scan_apicid_SomeD:
  "scan_apicid a cs k = Some i \<Longrightarrow> k \<le> i \<and> i - k < length cs \<and> cpu_apicid (cs ! (i - k)) = a"
proof (induction cs arbitrary: k)
  case (Cons c cs)
  show ?case
  proof (cases "cpu_apicid c = a")
    case False
    with Cons.prems have "scan_apicid a cs (Suc k) = Some i" by simp
    from Cons.IH [OF this] show ?thesis by (auto simp: nth_Cons')
  qed (use Cons.prems in auto)
qed simp

lemma scan_apicid_update [simp]:
  "cpu_apicid c = cpu_apicid (cs ! i) \<Longrightarrow> scan_apicid a (cs[i := c]) k = scan_apicid a cs k"
proof (induction cs arbitrary: i k)
  case (Cons x cs)
  then show ?case by (cases i) auto
qed simp

lemma cpu_ix_SomeD: "cpu_ix a m = Some i \<Longrightarrow> i < length (cpus m) \<and> cpu_apicid (cpus m ! i) = a"
  using scan_apicid_SomeD [of a "cpus m" 0 i] by simp

lemma mach_fields [simp]:
  "cpus (set_if a b m) = cpus m" "locks (set_if a b m) = locks m" "cr3 (set_if a b m) = cr3 m"
  "eif (set_if a b m) = (eif m)(a := b)"
  "cpus (set_lock l b c m) = cpus m" "eif (set_lock l b c m) = eif m" "cr3 (set_lock l b c m) = cr3 m"
  "locks (set_lock l b c m) = (locks m)(l := (locks m l)\<lparr>lk_locked := b, lk_cpu := c\<rparr>)"
  "eif (upd_cpu i f m) = eif m" "locks (upd_cpu i f m) = locks m" "cr3 (upd_cpu i f m) = cr3 m"
  "cpus (upd_cpu i f m) = (cpus m)[i := f (cpus m ! i)]"
  by (simp_all add: set_if_def set_lock_def upd_cpu_def)

lemma cpu_upd_order [simp]:
  "c\<lparr>cpu_intena := x, cpu_ncli := y\<rparr> = c\<lparr>cpu_ncli := y, cpu_intena := x\<rparr>"
  by (cases c) simp

lemma cpu_ncli_same: "n = cpu_ncli c \<Longrightarrow> c\<lparr>cpu_ncli := n\<rparr> = c"
  by (cases c) simp

lemma mach_eqI:
  "cpus m = cpus m' \<Longrightarrow> eif m = eif m' \<Longrightarrow> cr3 m = cr3 m' \<Longrightarrow> locks m = locks m' \<Longrightarrow> m = (m' :: mach)"
  by (cases m, cases m') simp

lemma cpu_ix_push [simp]: "cpu_ix a (push b m) = cpu_ix a m"
  by (auto simp: push_def split: option.splits)

lemma cpu_ix_pop [simp]: "cpu_ix a (pop b m) = cpu_ix a m"
  by (auto simp: pop_def Let_def split: option.splits)

lemma cpu_ix_settle [simp]: "cpu_ix a (settle b m) = cpu_ix a m"
  by (auto simp: settle_def split: option.splits)

lemma cpu_readyD: "cpu_ready a m \<Longrightarrow> \<exists>i. cpu_ix a m = Some i \<and> i < length (cpus m) \<and>
    cpu_ncli (cpus m ! i) = ncli_of a m"
  using cpu_ix_SomeD by (fastforce simp: cpu_ready_def ncli_of_def split: option.splits)

lemma pushcli_ok: "cpu_ready a m \<Longrightarrow> pushcli a m = Ok () (push a m)"
  by (drule cpu_readyD)
     (auto simp: pushcli_def mycpu_def push_def Let_def intro!: mach_eqI)

lemma popcli_ok: "\<not> eif m a \<Longrightarrow> 0 < ncli_of a m \<Longrightarrow> popcli a m = Ok () (pop a m)"
  by (auto simp: popcli_def mycpu_def pop_def Let_def ncli_of_def split: option.splits
      dest!: cpu_ix_SomeD intro!: mach_eqI)

lemma pop_push: "cpu_ready a m \<Longrightarrow> pop a (push a m) = settle a m"
  by (frule cpu_readyD)
     (auto simp: pop_def push_def settle_def Let_def cpu_ready_def fun_upd_idem_iff cpu_ncli_same
      intro!: mach_eqI)

lemma ncli_push [simp]: "cpu_ready a m \<Longrightarrow> ncli_of a (push a m) = ncli_of a m + 1"
  by (frule cpu_readyD) (auto simp: push_def ncli_of_def)

lemma eif_push [simp]: "cpu_ready a m \<Longrightarrow> \<not> eif (push a m) a"
  by (drule cpu_readyD) (auto simp: push_def)

lemma ready_push [simp]: "cpu_ready a m \<Longrightarrow> cpu_ready a (push a m)"
  by (simp add: cpu_ready_def [of a "push a m"]) (simp add: cpu_ready_def)

lemma ready_settle [simp]: "cpu_ready a (settle a m) = cpu_ready a m"
  by (auto simp: cpu_ready_def ncli_of_def settle_def split: option.splits dest!: cpu_ix_SomeD)

lemma settle_nested: "0 < ncli_of a m \<Longrightarrow> settle a m = m"
  by (auto simp: settle_def ncli_of_def split: option.splits dest!: cpu_ix_SomeD intro!: mach_eqI)

lemma settle_idem [simp]: "settle a (settle a m) = settle a m"
  by (auto simp: settle_def split: option.splits dest!: cpu_ix_SomeD intro!: mach_eqI)

lemma locks_settle [simp]: "locks (settle a m) = locks m"
  by (auto simp: settle_def split: option.splits)

lemma locks_push [simp]: "locks (push a m) = locks m"
  by (auto simp: push_def split: option.splits)

lemma mycpu_ok: "\<not> eif m a \<Longrightarrow> cpu_ready a m \<Longrightarrow> mycpu a m = Ok (the (cpu_ix a m)) m"
  by (drule cpu_readyD) (auto simp: mycpu_def)

lemma holding_ok:
  assumes "cpu_ready a m"
  shows "holding a l m = Ok (held a l m) (settle a m)"
proof -
  from cpu_readyD [OF assms] obtain i where i: "cpu_ix a m = Some i" by blast
  have my: "mycpu a (push a m) = Ok i (push a m)"
    using mycpu_ok [of "push a m" a] assms i by simp
  have pc: "popcli a (push a m) = Ok () (settle a m)"
    using popcli_ok [of "push a m" a] assms pop_push [OF assms] by (simp add: cpu_ready_def [of a m])
  show ?thesis
    by (auto simp: holding_def pushcli_ok [OF assms] my pc held_def i)
qed

lemma held_settle [simp]: "held a l (settle b m) = held a l m"
  by (simp add: held_def)

lemma held_push [simp]: "held a l (push b m) = held a l m"
  by (simp add: held_def)

lemma settle_push [simp]: "cpu_ready a m \<Longrightarrow> settle a (push a m) = push a m"
  by (rule settle_nested) (simp add: cpu_ready_def [of a m])

lemma acquire_outcome:
  assumes "cpu_ready a m"
  shows "acquire_m a l m =
     (if held a l m then Panic ''acquire''
      else if lk_locked (locks m l) then Spin l (push a m)
      else Ok () (acq a l m))"
proof -
  from cpu_readyD [OF assms] obtain i where i: "cpu_ix a m = Some i" by blast
  have my: "mycpu a (set_lock l b c (push a m)) = Ok i (set_lock l b c (push a m))" for b c
    using assms i by (simp add: mycpu_def)
  have "set_lock l True (Some i) (set_lock l True c (push a m)) = acq a l m" for c
    by (simp add: acq_def i set_lock_def)
  then show ?thesis
    by (simp add: acquire_m_def acquire_spin_def pushcli_ok [OF assms] holding_ok [OF ready_push [OF assms]] my assms)
qed

lemma acquire_ok: "cpu_ready a m \<Longrightarrow> lk_free l m \<Longrightarrow> acquire_m a l m = Ok () (acq a l m)"
  by (simp add: acquire_outcome lk_free_def held_def)

lemma release_outcome:
  assumes "cpu_ready a m"
  shows "release_m a l m = (if \<not> held a l m then Panic ''release''
     else popcli a (set_lock l False None (settle a m)))"
  by (simp add: release_m_def holding_ok [OF assms])

lemma ncli_set_lock [simp]: "ncli_of a (set_lock l b c m) = ncli_of a m"
  by (simp add: ncli_of_def split: option.split)

lemma ready_set_lock [simp]: "cpu_ready a (set_lock l b c m) = cpu_ready a m"
  by (simp add: cpu_ready_def)

lemma release_ok:
  "cpu_ready a m \<Longrightarrow> 0 < ncli_of a m \<Longrightarrow> held a l m \<Longrightarrow> release_m a l m = Ok () (rel a l m)"
  by (simp add: release_outcome settle_nested rel_def popcli_ok cpu_ready_def)

lemma ready_ncli [simp]: "cpu_ready a m \<Longrightarrow> 0 \<le> ncli_of a m"
  by (simp only: cpu_ready_def)

lemma ready_acq [simp]: "cpu_ready a m \<Longrightarrow> cpu_ready a (acq a l m)"
  by (simp add: acq_def)

lemma ncli_acq [simp]: "cpu_ready a m \<Longrightarrow> ncli_of a (acq a l m) = ncli_of a m + 1"
  by (simp add: acq_def)

lemma ncli_acq_pos [simp]: "cpu_ready a m \<Longrightarrow> 0 < ncli_of a (acq a l m)"
  using ready_ncli [of a m] by simp

lemma eif_acq [simp]: "cpu_ready a m \<Longrightarrow> \<not> eif (acq a l m) a"
  by (simp add: acq_def)

lemma cpu_ix_acq [simp]: "cpu_ix b (acq a l m) = cpu_ix b m"
  by (simp add: acq_def)

lemma cpu_ix_rel [simp]: "cpu_ix b (rel a l m) = cpu_ix b m"
  by (simp add: rel_def)

lemma held_acq [simp]: "held a l (acq a l m)"
  by (simp add: held_def acq_def)

lemma held_acq_other [simp]: "l' \<noteq> l \<Longrightarrow> held b l' (acq a l m) = held b l' m"
  by (simp add: held_def) (simp add: acq_def)

lemma free_acq_other [simp]: "l' \<noteq> l \<Longrightarrow> lk_free l' (acq a l m) = lk_free l' m"
  by (simp add: lk_free_def acq_def)

lemma free_settle [simp]: "lk_free l (settle a m) = lk_free l m"
  by (simp add: lk_free_def)

lemma settle_acq [simp]: "cpu_ready a m \<Longrightarrow> settle a (acq a l m) = acq a l m"
  by (rule settle_nested) (use ncli_acq_pos in blast)

lemma set_lock_free: "lk_free l m \<Longrightarrow> set_lock l False None m = m"
  by (intro mach_eqI) (auto simp: lk_free_def fun_eq_iff)

lemma set_lock_twice [simp]: "set_lock l b c (set_lock l b' c' m) = set_lock l b c m"
  by (intro mach_eqI) auto

lemma set_lock_comm: "l \<noteq> l' \<Longrightarrow> set_lock l b c (set_lock l' b' c' m) = set_lock l' b' c' (set_lock l b c m)"
  by (intro mach_eqI) auto

lemma push_set_lock: "push a (set_lock l b c m) = set_lock l b c (push a m)"
  by (intro mach_eqI) (auto simp: push_def split: option.splits)

lemma pop_set_lock: "pop a (set_lock l b c m) = set_lock l b c (pop a m)"
  by (intro mach_eqI) (auto simp: pop_def Let_def split: option.splits)

lemma rel_acq: "cpu_ready a m \<Longrightarrow> lk_free l m \<Longrightarrow> rel a l (acq a l m) = settle a m"
  by (simp add: rel_def acq_def pop_set_lock pop_push set_lock_free)

text \<open>The hand-over of \<^verbatim>\<open>sleep\<close>: taking a second lock and dropping the first.\<close>

lemma rel_acq_other:
  assumes "cpu_ready a m" "lk_free l m" "l \<noteq> l'"
  shows "rel a l (acq a l' (acq a l m)) = acq a l' m"
proof -
  have "rel a l (acq a l' (acq a l m)) =
      set_lock l False None (set_lock l' True (cpu_ix a m) (set_lock l True (cpu_ix a m) (push a m)))"
    using assms(1) by (simp add: rel_def acq_def pop_set_lock push_set_lock pop_push)
  also have "\<dots> = set_lock l' True (cpu_ix a m) (set_lock l False None (push a m))"
    using assms(3) by (subst set_lock_comm) simp_all
  also have "\<dots> = acq a l' m"
    using assms(2) by (simp add: acq_def set_lock_free lk_free_def)
  finally show ?thesis .
qed

section \<open>The interface the kernel relies on\<close>

text \<open>
  What code that brackets its work with \<^verbatim>\<open>acquire\<close> and \<^verbatim>\<open>release\<close> needs of the lock
  implementation. \<open>settle\<close> is the identity inside another critical section.
\<close>

locale lock_service =
  fixes acquire :: "nat \<Rightarrow> lockid \<Rightarrow> 'm \<Rightarrow> (unit, 'm) res"
    and release :: "nat \<Rightarrow> lockid \<Rightarrow> 'm \<Rightarrow> (unit, 'm) res"
    and taken :: "nat \<Rightarrow> lockid \<Rightarrow> 'm \<Rightarrow> 'm"
    and settled :: "nat \<Rightarrow> 'm \<Rightarrow> 'm"
    and ready :: "nat \<Rightarrow> 'm \<Rightarrow> bool"
    and free :: "lockid \<Rightarrow> 'm \<Rightarrow> bool"
  assumes acquire_free: "ready a m \<Longrightarrow> free l m \<Longrightarrow> acquire a l m = Ok () (taken a l m)"
    and release_taken: "ready a m \<Longrightarrow> free l m \<Longrightarrow> release a l (taken a l m) = Ok () (settled a m)"
    and ready_taken: "ready a m \<Longrightarrow> ready a (taken a l m)"
    and ready_settled: "ready a m \<Longrightarrow> ready a (settled a m)"
    and free_settled: "free l (settled a m) = free l m"
    and free_taken: "l' \<noteq> l \<Longrightarrow> free l' (taken a l m) = free l' m"
    and settled_taken: "ready a m \<Longrightarrow> settled a (taken a l m) = taken a l m"
    and acquire_again: "ready a m \<Longrightarrow> free l m \<Longrightarrow> acquire a l (taken a l m) = Panic ''acquire''"
begin

lemma balanced_section:
  assumes "ready a m" "free l m" "body (taken a l m) = Ok v (taken a l m)"
  shows "bnd (acquire a l m) (\<lambda>_ m. bnd (body m) (\<lambda>v m. bnd (release a l m) (\<lambda>_ m. Ok v m)))
       = Ok v (settled a m)"
  using assms by (simp add: acquire_free release_taken)

lemma nested_section:
  assumes "ready a m" "free l m" "free l' m" "l' \<noteq> l"
  shows "bnd (acquire a l' (taken a l m)) (\<lambda>_ m. release a l' m) = Ok () (taken a l m)"
  using assms by (simp add: acquire_free release_taken ready_taken free_taken settled_taken)

lemma self_deadlock:
  assumes "ready a m" "free l m"
  shows "bnd (acquire a l m) (\<lambda>_ m. acquire a l m) = Panic ''acquire''"
  using assms by (simp add: acquire_free acquire_again)

end

interpretation spin: lock_service acquire_m release_m acq settle cpu_ready lk_free
proof
  fix a l m
  assume "cpu_ready a m" "lk_free l m"
  then show "release_m a l (acq a l m) = Ok () (settle a m)"
    by (subst release_ok) (auto intro: ready_acq simp: rel_acq ncli_acq_pos)
next
  fix a l m
  assume "cpu_ready a m" "lk_free l m"
  then show "acquire_m a l (acq a l m) = Panic ''acquire''"
    by (simp add: acquire_outcome)
qed (simp_all add: acquire_ok)

section \<open>Locks of the kernel state\<close>

text \<open>The kernel state starts with the machine; each component extends the record.\<close>

record kst =
  mach :: mach

definition onM :: "(mach \<Rightarrow> ('a, mach) res) \<Rightarrow> 'e kst_scheme \<Rightarrow> ('a, 'e kst_scheme) res" where
  "onM f s = (case f (mach s) of
       Ok x m \<Rightarrow> Ok x (s\<lparr>mach := m\<rparr>)
     | Panic e \<Rightarrow> Panic e
     | Spin l m \<Rightarrow> Spin l (s\<lparr>mach := m\<rparr>)
     | Off m \<Rightarrow> Off (s\<lparr>mach := m\<rparr>))"

definition acquire :: "nat \<Rightarrow> lockid \<Rightarrow> 'e kst_scheme \<Rightarrow> (unit, 'e kst_scheme) res" where
  "acquire a l = onM (acquire_m a l)"

definition release :: "nat \<Rightarrow> lockid \<Rightarrow> 'e kst_scheme \<Rightarrow> (unit, 'e kst_scheme) res" where
  "release a l = onM (release_m a l)"

definition myproc :: "nat \<Rightarrow> 'e kst_scheme \<Rightarrow> (nat option, 'e kst_scheme) res" where
  "myproc a = onM (myproc_m a)"

abbreviation ready :: "nat \<Rightarrow> 'e kst_scheme \<Rightarrow> bool" where
  "ready a s \<equiv> cpu_ready a (mach s)"

abbreviation free :: "lockid \<Rightarrow> 'e kst_scheme \<Rightarrow> bool" where
  "free l s \<equiv> lk_free l (mach s)"

definition cur :: "nat \<Rightarrow> mach \<Rightarrow> nat option" where
  "cur a m = (case cpu_ix a m of Some i \<Rightarrow> cpu_proc (cpus m ! i) | None \<Rightarrow> None)"

lemma onM_Ok [lock_simps]: "f (mach s) = Ok x m \<Longrightarrow> onM f s = Ok x (s\<lparr>mach := m\<rparr>)"
  by (simp add: onM_def)

lemma acquire_kst [lock_simps]:
  "ready a s \<Longrightarrow> free l s \<Longrightarrow> acquire a l s = Ok () (s\<lparr>mach := acq a l (mach s)\<rparr>)"
  by (simp add: acquire_def onM_Ok acquire_ok)

lemma release_kst [lock_simps]:
  "mach s = acq a l m \<Longrightarrow> cpu_ready a m \<Longrightarrow> lk_free l m \<Longrightarrow> release a l s = Ok () (s\<lparr>mach := settle a m\<rparr>)"
  by (simp add: release_def onM_Ok spin.release_taken)

lemma acquire_held: "ready a s \<Longrightarrow> held a l (mach s) \<Longrightarrow> acquire a l s = Panic ''acquire''"
  by (simp add: acquire_def onM_def acquire_outcome)

lemma acquire_other:
  "ready a s \<Longrightarrow> lk_locked (locks (mach s) l) \<Longrightarrow> \<not> held a l (mach s) \<Longrightarrow>
   acquire a l s = Spin l (s\<lparr>mach := push a (mach s)\<rparr>)"
  by (simp add: acquire_def onM_def acquire_outcome)

lemma myproc_ok [lock_simps]: "ready a s \<Longrightarrow> myproc a s = Ok (cur a (mach s)) (s\<lparr>mach := settle a (mach s)\<rparr>)"
proof -
  assume r: "ready a s"
  from cpu_readyD [OF r] obtain i where i: "cpu_ix a (mach s) = Some i" "i < length (cpus (mach s))" by blast
  have "popcli a (push a (mach s)) = Ok () (settle a (mach s))"
    using popcli_ok [of "push a (mach s)" a] r pop_push [OF r] by (simp add: ready_ncli)
  moreover have "cpu_proc (cpus (push a (mach s)) ! i) = cpu_proc (cpus (mach s) ! i)"
    using i by (simp add: push_def)
  ultimately show ?thesis
    using r i by (simp add: myproc_def onM_Ok myproc_m_def pushcli_ok mycpu_ok cur_def)
qed

section \<open>A machine with one CPU\<close>

text \<open>Interrupts on, no lock held; the CPU runs the process \<open>p\<close>. Used to apply the theorems.\<close>

definition one_cpu :: "nat option \<Rightarrow> mach" where
  "one_cpu p = \<lparr>cpus = [\<lparr>cpu_apicid = 0, cpu_ncli = 0, cpu_intena = True, cpu_proc = p, cpu_esp0 = 0\<rparr>],
     eif = (\<lambda>_. True), cr3 = (\<lambda>_. 0),
     locks = (\<lambda>_. \<lparr>lk_locked = False, lk_name = '''', lk_cpu = None\<rparr>)\<rparr>"

lemma one_cpu_ready [simp]: "cpu_ready 0 (one_cpu p)"
  by (simp add: cpu_ready_def ncli_of_def one_cpu_def)

lemma one_cpu_free [simp]: "lk_free l (one_cpu p)"
  by (simp add: lk_free_def one_cpu_def)

lemma one_cpu_cur [simp]: "cur 0 (one_cpu p) = p"
  by (simp add: cur_def one_cpu_def)

lemma one_cpu_ncli [simp]: "ncli_of 0 (one_cpu p) = 0"
  by (simp add: ncli_of_def one_cpu_def)

lemma one_cpu_settle [simp]: "settle 0 (one_cpu p) = one_cpu p"
  by (simp add: settle_def one_cpu_def upd_cpu_def)

end
