(* ===== verification/Spinlock_SMP.thy ===== *)
theory Spinlock_SMP
  imports Spinlock
begin

text \<open>
  Several CPUs using the spinlocks at once. \<^verbatim>\<open>acquire\<close> and \<^verbatim>\<open>release\<close> are cut where another CPU can come in between: before and
  after the \<^verbatim>\<open>xchg\<close>, after the store to \<^verbatim>\<open>lk->cpu\<close>, and before and after the store to \<^verbatim>\<open>lk->locked\<close>. A state is the machine and, for
  every CPU, the place in the lock code where it is. A step is one CPU going on from its place to the next, in any order.
\<close>

section \<open>The pieces of the lock code\<close>

text \<open>\<^verbatim>\<open>acquire\<close> up to the loop: only the CPU itself can make \<^verbatim>\<open>holding\<close> true for it.\<close>

definition acquire_enter :: "nat \<Rightarrow> lockid \<Rightarrow> mach \<Rightarrow> (unit, mach) res" where
  "acquire_enter a l m =
     bnd (pushcli a m) (\<lambda>_ m.
     bnd (holding a l m) (\<lambda>h m. if h then Panic ''acquire'' else Ok () m))"

definition acquire_xchg :: "lockid \<Rightarrow> mach \<Rightarrow> (unit, mach) res" where
  "acquire_xchg l m = (if lk_locked (locks m l) then Spin l m else Ok () (set_lock l True (lk_cpu (locks m l)) m))"

definition acquire_mark :: "nat \<Rightarrow> lockid \<Rightarrow> mach \<Rightarrow> (unit, mach) res" where
  "acquire_mark a l m = bnd (mycpu a m) (\<lambda>i m. Ok () (set_lock l (lk_locked (locks m l)) (Some i) m))"

definition release_enter :: "nat \<Rightarrow> lockid \<Rightarrow> mach \<Rightarrow> (unit, mach) res" where
  "release_enter a l m =
     bnd (holding a l m) (\<lambda>h m.
       if \<not> h then Panic ''release'' else Ok () (set_lock l (lk_locked (locks m l)) None m))"

definition release_unlock :: "lockid \<Rightarrow> mach \<Rightarrow> mach" where
  "release_unlock l m = set_lock l False (lk_cpu (locks m l)) m"

text \<open>One after the other they are the functions of the kernel.\<close>

lemma acquire_pieces: "acquire_m a l m = bnd (acquire_enter a l m) (\<lambda>_ m. bnd (acquire_xchg l m) (\<lambda>_ m. acquire_mark a l m))"
proof -
  have s: "acquire_spin a l m = bnd (acquire_xchg l m) (\<lambda>_ m. acquire_mark a l m)" for m
    by (auto simp: acquire_spin_def acquire_xchg_def acquire_mark_def mycpu_def split: option.splits)
  show ?thesis
  proof (cases "pushcli a m")
    case (Ok x n)
    then show ?thesis by (cases "holding a l n") (simp_all add: acquire_m_def acquire_enter_def s)
  qed (simp_all add: acquire_m_def acquire_enter_def)
qed

lemma acquire_enter_ok:
  "cpu_ready a m \<Longrightarrow> acquire_enter a l m = (if held a l m then Panic ''acquire'' else Ok () (push a m))"
  by (simp add: acquire_enter_def pushcli_ok holding_ok)

lemma release_pieces: "release_m a l m = bnd (release_enter a l m) (\<lambda>_ m. popcli a (release_unlock l m))"
  by (cases "holding a l m") (simp_all add: release_m_def release_enter_def release_unlock_def)

section \<open>The step relation\<close>

datatype lock_pc = Outside | Spinning lockid | Taken lockid | Dropping lockid | Dropped

record smp =
  sm :: mach
  lpc :: "nat \<Rightarrow> lock_pc"

inductive smp_step :: "smp \<Rightarrow> smp \<Rightarrow> bool" where
  enter: "lpc s a = Outside \<Longrightarrow> acquire_enter a l (sm s) = Ok () m \<Longrightarrow> smp_step s (s\<lparr>sm := m, lpc := (lpc s)(a := Spinning l)\<rparr>)"
| xchg: "lpc s a = Spinning l \<Longrightarrow> acquire_xchg l (sm s) = Ok () m \<Longrightarrow> smp_step s (s\<lparr>sm := m, lpc := (lpc s)(a := Taken l)\<rparr>)"
| mark: "lpc s a = Taken l \<Longrightarrow> acquire_mark a l (sm s) = Ok () m \<Longrightarrow> smp_step s (s\<lparr>sm := m, lpc := (lpc s)(a := Outside)\<rparr>)"
| leave: "lpc s a = Outside \<Longrightarrow> release_enter a l (sm s) = Ok () m \<Longrightarrow> smp_step s (s\<lparr>sm := m, lpc := (lpc s)(a := Dropping l)\<rparr>)"
| unlock: "lpc s a = Dropping l \<Longrightarrow> smp_step s (s\<lparr>sm := release_unlock l (sm s), lpc := (lpc s)(a := Dropped)\<rparr>)"
| unmask: "lpc s a = Dropped \<Longrightarrow> popcli a (sm s) = Ok () m \<Longrightarrow> smp_step s (s\<lparr>sm := m, lpc := (lpc s)(a := Outside)\<rparr>)"

definition locks_of :: "nat \<Rightarrow> mach \<Rightarrow> lockid set" where
  "locks_of i m = {l. lk_locked (locks m l) \<and> lk_cpu (locks m l) = Some i}"

definition smp_init :: "smp \<Rightarrow> bool" where
  "smp_init s \<longleftrightarrow> distinct (map cpu_apicid (cpus (sm s))) \<and>
     (\<forall>l. \<not> lk_locked (locks (sm s) l) \<and> lk_cpu (locks (sm s) l) = None) \<and>
     (\<forall>c \<in> set (cpus (sm s)). cpu_ncli c = 0) \<and> (\<forall>a. lpc s a = Outside)"

text \<open>The two places where a CPU has the lock but \<^verbatim>\<open>lk->cpu\<close> does not say so.\<close>

definition has_pc :: "lock_pc \<Rightarrow> lockid \<Rightarrow> bool" where
  "has_pc p l \<longleftrightarrow> p = Taken l \<or> p = Dropping l"

lemma has_pc_simps [simp]: "\<not> has_pc Outside l" "\<not> has_pc (Spinning k) l" "\<not> has_pc Dropped l" "has_pc (Taken k) l \<longleftrightarrow> k = l" "has_pc (Dropping k) l \<longleftrightarrow> k = l"
  by (auto simp: has_pc_def)

definition inside :: "smp \<Rightarrow> nat \<Rightarrow> lockid \<Rightarrow> bool" where
  "inside s a l \<longleftrightarrow> has_pc (lpc s a) l \<or> (\<exists>i. cpu_ix a (sm s) = Some i \<and> l \<in> locks_of i (sm s))"

text \<open>
  The invariant: a lock that records a CPU is locked; a CPU in one of the two places has a lock that is locked and records no CPU,
  and is the only one there; a CPU's nesting depth is the number of locks that record it, plus one while it is in the lock
  code, and its interrupts are off while that is positive.
\<close>

definition smp_inv :: "smp \<Rightarrow> bool" where
  "smp_inv s \<longleftrightarrow> distinct (map cpu_apicid (cpus (sm s))) \<and>
     (\<forall>a. lpc s a \<noteq> Outside \<longrightarrow> cpu_ix a (sm s) \<noteq> None) \<and>
     (\<forall>l i. lk_cpu (locks (sm s) l) = Some i \<longrightarrow> i < length (cpus (sm s)) \<and> lk_locked (locks (sm s) l)) \<and>
     (\<forall>a l. has_pc (lpc s a) l \<longrightarrow> lk_locked (locks (sm s) l) \<and> lk_cpu (locks (sm s) l) = None) \<and>
     (\<forall>a b l. has_pc (lpc s a) l \<and> b \<noteq> a \<longrightarrow> \<not> has_pc (lpc s b) l) \<and>
     (\<forall>i < length (cpus (sm s)). finite (locks_of i (sm s)) \<and>
        cpu_ncli (cpus (sm s) ! i) = int (card (locks_of i (sm s)))
          + of_bool (lpc s (cpu_apicid (cpus (sm s) ! i)) \<noteq> Outside) \<and>
        (0 < cpu_ncli (cpus (sm s) ! i) \<longrightarrow> \<not> eif (sm s) (cpu_apicid (cpus (sm s) ! i))))"

section \<open>The invariant holds in every reachable state\<close>

lemma scan_distinct:
  "distinct (map cpu_apicid cs) \<Longrightarrow> i < length cs \<Longrightarrow> scan_apicid (cpu_apicid (cs ! i)) cs k = Some (k + i)"
proof (induction cs arbitrary: i k)
  case (Cons c cs)
  then show ?case
  proof (cases i)
    case (Suc j)
    with Cons.prems have "cpu_apicid c \<noteq> cpu_apicid (cs ! j)"
      by (metis imageI nth_mem distinct.simps(2) list.simps(9) list.set_map length_Cons Suc_less_eq)
    with Suc Cons show ?thesis by simp
  qed simp
qed simp

lemma smp_inv_ready:
  assumes "smp_inv s" "cpu_ix a (sm s) = Some i"
  shows "cpu_ready a (sm s)"
  using assms cpu_ix_SomeD [OF assms(2)]
  by (auto simp: smp_inv_def cpu_ready_def ncli_of_def)

lemma smp_inv_at:
  assumes "smp_inv s" "cpu_ix a (sm s) = Some i"
  shows "finite (locks_of i (sm s))"
    "cpu_ncli (cpus (sm s) ! i) = int (card (locks_of i (sm s))) + of_bool (lpc s a \<noteq> Outside)"
    "i < length (cpus (sm s))" "cpu_apicid (cpus (sm s) ! i) = a"
    "0 < cpu_ncli (cpus (sm s) ! i) \<Longrightarrow> \<not> eif (sm s) a"
  using assms(1) cpu_ix_SomeD [OF assms(2)] by (auto simp: smp_inv_def)

lemma smp_inv_lock:
  assumes "smp_inv s"
  shows "lk_cpu (locks (sm s) l) = Some i \<Longrightarrow> i < length (cpus (sm s)) \<and> lk_locked (locks (sm s) l)"
    "has_pc (lpc s a) l \<Longrightarrow> lk_locked (locks (sm s) l) \<and> lk_cpu (locks (sm s) l) = None"
    "has_pc (lpc s a) l \<Longrightarrow> b \<noteq> a \<Longrightarrow> \<not> has_pc (lpc s b) l"
    "lpc s a \<noteq> Outside \<Longrightarrow> \<exists>i. cpu_ix a (sm s) = Some i"
  using assms unfolding smp_inv_def by blast+

text \<open>A step of CPU \<open>a\<close> at index \<open>i\<close> touches nothing that the other CPUs' clauses mention.\<close>

lemma smp_inv_cpu_step:
  assumes inv: "smp_inv s" and i: "cpu_ix a (sm s) = Some i"
    and cs: "cpus m' = (cpus (sm s))[i := c']" "cpu_apicid c' = a"
    and ef: "\<And>b. b \<noteq> a \<Longrightarrow> eif m' b = eif (sm s) b" "0 < cpu_ncli c' \<Longrightarrow> \<not> eif m' a"
    and lk: "\<And>l j. lk_cpu (locks m' l) = Some j \<Longrightarrow> j < length (cpus (sm s)) \<and> lk_locked (locks m' l)"
      "\<And>l. has_pc p l \<Longrightarrow> lk_locked (locks m' l) \<and> lk_cpu (locks m' l) = None"
      "\<And>b l. b \<noteq> a \<Longrightarrow> has_pc (lpc s b) l \<Longrightarrow> lk_locked (locks m' l) \<and> lk_cpu (locks m' l) = None \<and> \<not> has_pc p l"
    and oth: "\<And>j. j \<noteq> i \<Longrightarrow> locks_of j m' = locks_of j (sm s)"
    and own: "finite (locks_of i m')" "cpu_ncli c' = int (card (locks_of i m')) + of_bool (p \<noteq> Outside)"
  shows "smp_inv (s\<lparr>sm := m', lpc := (lpc s)(a := p)\<rparr>)"
proof -
  from cpu_ix_SomeD [OF i] have il: "i < length (cpus (sm s))" and ia: "cpu_apicid (cpus (sm s) ! i) = a"
    by auto
  have d: "distinct (map cpu_apicid (cpus (sm s)))"
    using inv by (simp add: smp_inv_def)
  have ne: "cpu_apicid (cpus (sm s) ! j) \<noteq> a" if "j < length (cpus (sm s))" "j \<noteq> i" for j
    using d that il ia by (auto simp: distinct_conv_nth)
  have "map cpu_apicid (cpus m') = map cpu_apicid (cpus (sm s))"
    using il ia cs by (metis list_update_id map_update nth_map)
  moreover have ix: "cpu_ix b m' = cpu_ix b (sm s)" for b using cs ia by simp
  moreover have "finite (locks_of j m') \<and>
        cpu_ncli (cpus m' ! j) = int (card (locks_of j m')) + of_bool (((lpc s)(a := p)) (cpu_apicid (cpus m' ! j)) \<noteq> Outside) \<and>
        (0 < cpu_ncli (cpus m' ! j) \<longrightarrow> \<not> eif m' (cpu_apicid (cpus m' ! j)))"
    if "j < length (cpus m')" for j
  proof (cases "j = i")
    case True
    then show ?thesis using il cs ef own by simp
  next
    case False
    with that cs inv have "finite (locks_of j (sm s)) \<and>
        cpu_ncli (cpus (sm s) ! j) = int (card (locks_of j (sm s)))
          + of_bool (lpc s (cpu_apicid (cpus (sm s) ! j)) \<noteq> Outside) \<and>
        (0 < cpu_ncli (cpus (sm s) ! j) \<longrightarrow> \<not> eif (sm s) (cpu_apicid (cpus (sm s) ! j)))"
      by (simp add: smp_inv_def)
    with False that cs oth [OF False] show ?thesis
      by (simp add: ef(1) [OF ne] ne)
  qed
  moreover have "\<forall>b. ((lpc s)(a := p)) b \<noteq> Outside \<longrightarrow> cpu_ix b (sm s) \<noteq> None" using smp_inv_lock(4) [OF inv] i by auto
  moreover have "\<forall>b l. has_pc (((lpc s)(a := p)) b) l \<longrightarrow> lk_locked (locks m' l) \<and> lk_cpu (locks m' l) = None"
    using lk(2,3) by (metis fun_upd_apply)
  moreover have "\<forall>b c l. has_pc (((lpc s)(a := p)) b) l \<and> c \<noteq> b \<longrightarrow> \<not> has_pc (((lpc s)(a := p)) c) l"
    using lk(3) smp_inv_lock(3) [OF inv] by (metis fun_upd_apply)
  moreover have "\<forall>l j. lk_cpu (locks m' l) = Some j \<longrightarrow> j < length (cpus m') \<and> lk_locked (locks m' l)" using lk(1) cs(1) by simp
  ultimately show ?thesis
    using d unfolding smp_inv_def by (intro conjI) simp_all
qed

lemma push_at:
  "cpu_ix a m = Some i \<Longrightarrow> cpus (push a m) = (cpus m)[i := (cpus m ! i)\<lparr>cpu_ncli := cpu_ncli (cpus m ! i) + 1,
     cpu_intena := (if cpu_ncli (cpus m ! i) = 0 then eif m a else cpu_intena (cpus m ! i))\<rparr>] \<and>
   eif (push a m) = (eif m)(a := False)"
  by (simp add: push_def)

lemma pop_at:
  "cpu_ix a m = Some i \<Longrightarrow>
   cpus (pop a m) = (cpus m)[i := (cpus m ! i)\<lparr>cpu_ncli := cpu_ncli (cpus m ! i) - 1\<rparr>] \<and>
   eif (pop a m) = (if cpu_ncli (cpus m ! i) = 1 \<and> cpu_intena (cpus m ! i) then (eif m)(a := True) else eif m) \<and>
   locks (pop a m) = locks m"
  by (simp add: pop_def Let_def)

lemma locks_of_set:
  "locks_of j (set_lock l True (Some i) m) = (if j = i then insert l (locks_of j m) else locks_of j m - {l})"
  "locks_of j (set_lock l b None m) = locks_of j m - {l}" "locks_of j (set_lock l False c m) = locks_of j m - {l}"
  by (auto simp: locks_of_def)

lemma locks_of_push [simp]: "locks_of j (push a m) = locks_of j m"
  by (simp add: locks_of_def)

lemma locks_of_frame [simp]: "locks_of j (pop a m) = locks_of j m"
  by (cases "cpu_ix a m") (simp_all add: locks_of_def pop_at, simp add: pop_def)

lemma smp_enter:
  assumes inv: "smp_inv s" and pc: "lpc s a = Outside" and ok: "acquire_enter a l (sm s) = Ok () m"
  shows "smp_inv (s\<lparr>sm := m, lpc := (lpc s)(a := Spinning l)\<rparr>)"
proof -
  from ok obtain i where i: "cpu_ix a (sm s) = Some i"
    by (auto simp: acquire_enter_def pushcli_def mycpu_def bnd_eq_Ok set_if_def split: if_splits option.splits)
  note at = smp_inv_at [OF inv i] and rdy = smp_inv_ready [OF inv i]
  from ok rdy have m: "m = push a (sm s)"
    by (auto simp: acquire_enter_ok split: if_splits)
  show ?thesis
    by (rule smp_inv_cpu_step [OF inv i, where c' = "(cpus (sm s) ! i)\<lparr>cpu_ncli := cpu_ncli (cpus (sm s) ! i) + 1, cpu_intena :=
            (if cpu_ncli (cpus (sm s) ! i) = 0 then eif (sm s) a else cpu_intena (cpus (sm s) ! i))\<rparr>"])
       (use at pc smp_inv_lock [OF inv] in \<open>auto simp: m push_at [OF i]\<close>)
qed

lemma smp_xchg:
  assumes inv: "smp_inv s" and pc: "lpc s a = Spinning l" and ok: "acquire_xchg l (sm s) = Ok () m"
  shows "smp_inv (s\<lparr>sm := m, lpc := (lpc s)(a := Taken l)\<rparr>)"
proof -
  from smp_inv_lock(4) [OF inv, of a] pc obtain i where i: "cpu_ix a (sm s) = Some i" by auto
  note at = smp_inv_at [OF inv i] and lk = smp_inv_lock [OF inv]
  from ok have un: "\<not> lk_locked (locks (sm s) l)" by (auto simp: acquire_xchg_def split: if_splits)
  with lk(1) have c: "lk_cpu (locks (sm s) l) = None" by (cases "lk_cpu (locks (sm s) l)") auto
  from ok un c have m: "m = set_lock l True None (sm s)" by (simp add: acquire_xchg_def)
  have "l \<notin> locks_of j (sm s)" for j using c by (simp add: locks_of_def)
  then show ?thesis
    by (intro smp_inv_cpu_step [OF inv i, where c' = "cpus (sm s) ! i"])
       (use at pc un lk in \<open>auto simp: m locks_of_set split: if_splits\<close>)
qed

lemma smp_mark:
  assumes inv: "smp_inv s" and pc: "lpc s a = Taken l" and ok: "acquire_mark a l (sm s) = Ok () m"
  shows "smp_inv (s\<lparr>sm := m, lpc := (lpc s)(a := Outside)\<rparr>)"
proof -
  from smp_inv_lock(4) [OF inv, of a] pc obtain i where i: "cpu_ix a (sm s) = Some i" by auto
  note at = smp_inv_at [OF inv i] and lk = smp_inv_lock [OF inv]
  from lk(2) [of a l] pc have c: "lk_locked (locks (sm s) l)" "lk_cpu (locks (sm s) l) = None" by auto
  from ok i c have m: "m = set_lock l True (Some i) (sm s)"
    by (auto simp: acquire_mark_def mycpu_def split: if_splits)
  have nl: "l \<notin> locks_of j (sm s)" for j using c by (simp add: locks_of_def)
  have "\<not> has_pc (lpc s b) l" if "b \<noteq> a" for b using lk(3) [of a l b] that pc by auto
  then show ?thesis
    by (intro smp_inv_cpu_step [OF inv i, where c' = "cpus (sm s) ! i"])
       (use at pc nl lk in \<open>auto simp: m locks_of_set split: if_splits\<close>)
qed

lemma smp_leave:
  assumes inv: "smp_inv s" and pc: "lpc s a = Outside" and ok: "release_enter a l (sm s) = Ok () m"
  shows "smp_inv (s\<lparr>sm := m, lpc := (lpc s)(a := Dropping l)\<rparr>)"
proof -
  from ok obtain i where i: "cpu_ix a (sm s) = Some i"
    by (auto simp: release_enter_def holding_def pushcli_def mycpu_def bnd_eq_Ok set_if_def split: if_splits option.splits)
  note at = smp_inv_at [OF inv i] and rdy = smp_inv_ready [OF inv i] and lk = smp_inv_lock [OF inv]
  from ok rdy have h: "held a l (sm s)" by (auto simp: release_enter_def holding_ok split: if_splits)
  then have c: "lk_locked (locks (sm s) l)" "lk_cpu (locks (sm s) l) = Some i" by (simp_all add: held_def i)
  then have l: "l \<in> locks_of i (sm s)" by (simp add: locks_of_def)
  with at(1,2) pc have "0 < cpu_ncli (cpus (sm s) ! i)"
    by (metis card_gt_0_iff empty_iff of_bool_eq(1) add_0_right of_nat_0_less_iff)
  then have "settle a (sm s) = sm s" by (intro settle_nested) (simp add: ncli_of_def i)
  with ok rdy c h have m: "m = set_lock l True None (sm s)" by (simp add: release_enter_def holding_ok)
  have oth: "l \<notin> locks_of j (sm s)" if "j \<noteq> i" for j using c that by (simp add: locks_of_def)
  have np: "\<not> has_pc (lpc s b) l" for b using lk(2) [of b l] c by auto
  have "int (card (locks_of i (sm s) - {l})) + 1 = int (card (locks_of i (sm s)))"
    using card_Suc_Diff1 [OF at(1) l] by linarith
  with np show ?thesis
    by (intro smp_inv_cpu_step [OF inv i, where c' = "cpus (sm s) ! i"])
       (use at pc oth lk in \<open>auto simp: m locks_of_set split: if_splits\<close>)
qed

lemma smp_unlock:
  assumes inv: "smp_inv s" and pc: "lpc s a = Dropping l"
  shows "smp_inv (s\<lparr>sm := release_unlock l (sm s), lpc := (lpc s)(a := Dropped)\<rparr>)"
proof -
  from smp_inv_lock(4) [OF inv, of a] pc obtain i where i: "cpu_ix a (sm s) = Some i" by auto
  note at = smp_inv_at [OF inv i] and lk = smp_inv_lock [OF inv]
  from lk(2) [of a l] pc have c: "lk_cpu (locks (sm s) l) = None" by auto
  then have nl: "l \<notin> locks_of j (sm s)" for j by (simp add: locks_of_def)
  have "\<not> has_pc (lpc s b) l" if "b \<noteq> a" for b using lk(3) [of a l b] that pc by auto
  then show ?thesis
    by (intro smp_inv_cpu_step [OF inv i, where c' = "cpus (sm s) ! i"])
       (use at pc c nl lk in \<open>auto simp: release_unlock_def locks_of_set split: if_splits\<close>)
qed

lemma smp_unmask:
  assumes inv: "smp_inv s" and pc: "lpc s a = Dropped" and ok: "popcli a (sm s) = Ok () m"
  shows "smp_inv (s\<lparr>sm := m, lpc := (lpc s)(a := Outside)\<rparr>)"
proof -
  from smp_inv_lock(4) [OF inv, of a] pc obtain i where i: "cpu_ix a (sm s) = Some i" by auto
  note at = smp_inv_at [OF inv i] and lk = smp_inv_lock [OF inv]
  have n: "0 < cpu_ncli (cpus (sm s) ! i)" using at(2) pc by simp
  then have m: "m = pop a (sm s)" using ok at(5) by (simp add: popcli_ok ncli_of_def i)
  show ?thesis
    by (rule smp_inv_cpu_step [OF inv i, where c' = "(cpus (sm s) ! i)\<lparr>cpu_ncli := cpu_ncli (cpus (sm s) ! i) - 1\<rparr>"])
       (use at pc n lk in \<open>auto simp: m pop_at [OF i] split: if_splits\<close>)
qed

lemma smp_inv_start: "smp_init s \<Longrightarrow> smp_inv s"
  by (auto simp: smp_init_def smp_inv_def locks_of_def)

lemma smp_inv_preserved: "smp_inv s \<Longrightarrow> smp_step s t \<Longrightarrow> smp_inv t"
  by (erule smp_step.cases) (auto intro: smp_enter smp_xchg smp_mark smp_leave smp_unlock smp_unmask)

interpretation smp: invariant_system smp_init smp_step smp_inv
  by unfold_locales (auto intro: smp_inv_start smp_inv_preserved)

section \<open>Mutual exclusion\<close>

lemma acquire_unlocked:
  assumes inv: "smp_inv s" and ok: "acquire_m b l (sm s) = Ok () m \<or> acquire_spin b l (sm s) = Ok () m"
  shows "\<not> lk_locked (locks (sm s) l)"
proof (cases "acquire_spin b l (sm s) = Ok () m")
  case True
  then show ?thesis by (auto simp: acquire_spin_def split: if_splits)
next
  case False
  then have ok: "acquire_m b l (sm s) = Ok () m" using ok by blast
  then obtain i where i: "cpu_ix b (sm s) = Some i"
    by (auto simp: acquire_m_def pushcli_def mycpu_def bnd_eq_Ok set_if_def split: if_splits option.splits)
  then show ?thesis using ok smp_inv_ready [OF inv i] by (auto simp: acquire_outcome split: if_splits)
qed

lemma inside_locked: "smp_inv s \<Longrightarrow> inside s a l \<Longrightarrow> lk_locked (locks (sm s) l)"
  using smp_inv_lock(2) by (auto simp: inside_def locks_of_def)

lemma inside_unique:
  assumes "smp_inv s" "inside s a l" "inside s b l"
  shows "a = b"
proof (cases "has_pc (lpc s a) l \<or> has_pc (lpc s b) l")
  case True
  with assms smp_inv_lock(2) [OF assms(1)] have "has_pc (lpc s a) l" "has_pc (lpc s b) l"
    by (fastforce simp: inside_def locks_of_def)+
  with smp_inv_lock(3) [OF assms(1)] show ?thesis by blast
next
  case False
  with assms show ?thesis by (auto simp: inside_def locks_of_def dest!: cpu_ix_SomeD)
qed

text \<open>
  C4. Mutual exclusion on several CPUs: take any state that any interleaving of the steps of \<^verbatim>\<open>acquire\<close> and \<^verbatim>\<open>release\<close>
  reaches, and a CPU that has a lock there: it is past the \<^verbatim>\<open>xchg\<close> of \<^verbatim>\<open>acquire\<close> and not past the \<^verbatim>\<open>lk->locked = 0\<close> of
  \<^verbatim>\<open>release\<close>. Then no other CPU has that lock, no CPU gets past the \<^verbatim>\<open>xchg\<close> on it, this CPU has its interrupts off, and
  its nesting depth counts the locks that record it and the call of \<^verbatim>\<open>acquire\<close> or \<^verbatim>\<open>release\<close> it is in.
\<close>

theorem smp_mutual_exclusion:
  assumes "smp_init s" "smp_step\<^sup>*\<^sup>* s t" "cpu_ix a (sm t) = Some i" "inside t a l"
  shows "(\<forall>b. b \<noteq> a \<longrightarrow> \<not> inside t b l) \<and>
    (\<forall>b m. acquire_xchg l (sm t) \<noteq> Ok () m \<and> acquire_m b l (sm t) \<noteq> Ok () m \<and> acquire_spin b l (sm t) \<noteq> Ok () m) \<and>
    \<not> eif (sm t) a \<and>
    cpu_ncli (cpus (sm t) ! i) = int (card (locks_of i (sm t))) + of_bool (lpc t a \<noteq> Outside)"
proof -
  have inv: "smp_inv t" using assms(1,2) by (rule smp.reachable_inv)
  note at = smp_inv_at [OF inv assms(3)]
  have "lpc t a \<noteq> Outside \<or> 0 < card (locks_of i (sm t))"
    using assms(3,4) at(1) by (auto simp: inside_def card_gt_0_iff)
  then have "\<not> eif (sm t) a" using at(2,5) by (auto split: if_splits)
  moreover have l: "lk_locked (locks (sm t) l)" using inv assms(4) by (rule inside_locked)
  then have "acquire_xchg l (sm t) \<noteq> Ok () m" for m by (simp add: acquire_xchg_def)
  ultimately show ?thesis
    using at(2) l acquire_unlocked [OF inv] inside_unique [OF inv assms(4)] by blast
qed

text \<open>Two CPUs; the first is past the \<^verbatim>\<open>xchg\<close> on the console lock, and the second spins on it.\<close>

definition two_cpus :: smp where
  "two_cpus = \<lparr>sm = \<lparr>cpus = map (\<lambda>a. \<lparr>cpu_apicid = a, cpu_ncli = 0, cpu_intena = False, cpu_proc = None, cpu_esp0 = 0\<rparr>) [0, 1],
     eif = (\<lambda>_. True), cr3 = (\<lambda>_. 0), locks = (\<lambda>_. \<lparr>lk_locked = False, lk_name = '''', lk_cpu = None\<rparr>)\<rparr>,
     lpc = (\<lambda>_. Outside)\<rparr>"

definition two_race :: smp where
  "two_race = two_cpus\<lparr>sm := set_lock ConsLock True None (push 1 (push 0 (sm two_cpus))),
     lpc := (lpc two_cpus)(0 := Spinning ConsLock, 1 := Spinning ConsLock, 0 := Taken ConsLock)\<rparr>"

lemma two_cpus_init: "smp_init two_cpus"
  by (auto simp: smp_init_def two_cpus_def)

lemma two_cpus_ready:
  "cpu_ready 0 (sm two_cpus)" "cpu_ready 1 (push 0 (sm two_cpus))"
  "\<not> lk_locked (locks (sm two_cpus) l)" "lk_cpu (locks (sm two_cpus) l) = None" "lpc two_cpus a = Outside"
  by (simp_all add: two_cpus_def cpu_ready_def ncli_of_def push_def set_if_def upd_cpu_def)

lemma two_race_reached: "smp_step\<^sup>*\<^sup>* two_cpus two_race"
proof -
  let ?s = "two_cpus\<lparr>sm := push 0 (sm two_cpus), lpc := (lpc two_cpus)(0 := Spinning ConsLock)\<rparr>"
  let ?t = "?s\<lparr>sm := push 1 (sm ?s), lpc := (lpc ?s)(1 := Spinning ConsLock)\<rparr>"
  have s1: "smp_step two_cpus ?s"
    by (rule enter) (simp_all add: acquire_enter_ok two_cpus_ready held_def)
  have s2: "smp_step ?s ?t"
    by (rule enter) (use two_cpus_ready(2) in \<open>simp_all add: acquire_enter_ok two_cpus_ready(3-5) held_def\<close>)
  have "smp_step ?t (?t\<lparr>sm := set_lock ConsLock True None (sm ?t), lpc := (lpc ?t)(0 := Taken ConsLock)\<rparr>)"
    by (rule xchg) (simp_all add: two_cpus_ready acquire_xchg_def)
  then have s3: "smp_step ?t two_race" by (simp add: two_race_def)
  from s1 s2 s3 show ?thesis by (blast intro: converse_rtranclp_into_rtranclp)
qed

theorem smp_mutual_exclusion_witness:
  "inside two_race 0 ConsLock \<and> \<not> inside two_race 1 ConsLock \<and> \<not> eif (sm two_race) 0 \<and>
   (\<forall>m. acquire_spin 1 ConsLock (sm two_race) \<noteq> Ok () m)"
proof -
  have "cpu_ix 0 (sm two_race) = Some 0" "inside two_race 0 ConsLock"
    by (simp_all add: two_race_def two_cpus_def inside_def)
  then show ?thesis using smp_mutual_exclusion [OF two_cpus_init two_race_reached, of 0 0 ConsLock] by simp
qed

end
