(* ===== verification/Printf.thy ===== *)
theory Printf
  imports Xv6_Prelude
begin

text \<open>
  Number formatting and format strings: \<^verbatim>\<open>printint\<close> and the format loop of \<^verbatim>\<open>cprintf\<close>
  (\<^verbatim>\<open>src/console.c\<close>), \<^verbatim>\<open>printint\<close> and \<^verbatim>\<open>printf\<close> of user space (\<^verbatim>\<open>src/printf.c\<close>),
  \<^verbatim>\<open>atoi\<close> (\<^verbatim>\<open>src/ulib.c\<close>), \<^verbatim>\<open>digitcount\<close>, \<^verbatim>\<open>printspaces\<close>, \<^verbatim>\<open>srand\<close> and \<^verbatim>\<open>rand\<close>
  (\<^verbatim>\<open>src/utils.c\<close>). The functions are modelled by the characters they emit, in order.
  A C string is the list of its characters; reading stops at a NUL or at the end of the list.
\<close>

section \<open>Numbers\<close>

text \<open>
  The \<^verbatim>\<open>do ... while((x /= base) != 0)\<close> loop, least significant digit first. Every call has
  base 10 or 16; the guard on the base only makes the recursion total.
\<close>

function digs :: "nat \<Rightarrow> nat \<Rightarrow> nat list" where
  "digs b x = (x mod b) # (if x div b = 0 \<or> b < 2 then [] else digs b (x div b))"
  by pat_completeness auto
termination
proof (relation "measure snd")
  fix b x :: nat
  assume "\<not> (x div b = 0 \<or> b < 2)"
  then show "((b, x div b), b, x) \<in> measure snd"
    using div_less_dividend [of b x] by (cases "x = 0") auto
qed simp

declare digs.simps [simp del]

definition hex_lower :: string where "hex_lower = ''0123456789abcdef''"
definition hex_upper :: string where "hex_upper = ''0123456789ABCDEF''"

text \<open>The contents of \<^verbatim>\<open>buf\<close> when the digits (and the sign) are in it; it is printed backwards.\<close>

definition printint_buf :: "string \<Rightarrow> u32 \<Rightarrow> nat \<Rightarrow> bool \<Rightarrow> string" where
  "printint_buf digits xx base sg =
     (let neg = (sg \<and> sint xx < 0); x = (if neg then - xx else xx)
      in map (\<lambda>d. digits ! d) (digs base (unat x)) @ (if neg then ''-'' else ''''))"

definition printint :: "u32 \<Rightarrow> nat \<Rightarrow> bool \<Rightarrow> string" where
  "printint xx base sg = rev (printint_buf hex_lower xx base sg)"

definition user_printint :: "u32 \<Rightarrow> nat \<Rightarrow> bool \<Rightarrow> string" where
  "user_printint xx base sg = rev (printint_buf hex_upper xx base sg)"

text \<open>The sum of \<^verbatim>\<open>atoi\<close> is an \<^verbatim>\<open>int\<close>: it wraps around at 32 bits.\<close>

fun atoi_loop :: "u32 \<Rightarrow> string \<Rightarrow> u32" where
  "atoi_loop n [] = n"
| "atoi_loop n (c # cs) =
     (if 48 \<le> (of_char c :: int) \<and> (of_char c :: int) \<le> 57 then atoi_loop (n * 10 + word_of_int (of_char c) - 48) cs else n)"

definition atoi :: "string \<Rightarrow> int" where
  "atoi s = sint (atoi_loop 0 s)"

text \<open>C's \<^verbatim>\<open>num /= 10\<close> on \<^verbatim>\<open>int\<close> rounds towards zero.\<close>

definition cdiv10 :: "int \<Rightarrow> int" where
  "cdiv10 n = (if n < 0 then - ((- n) div 10) else n div 10)"

function digitcount_loop :: "int \<Rightarrow> int \<Rightarrow> int" where
  "digitcount_loop num count = (if num = 0 then count else digitcount_loop (cdiv10 num) (count + 1))"
  by pat_completeness auto
termination
  by (relation "measure (\<lambda>(num, count). nat \<bar>num\<bar>)") (auto simp: cdiv10_def)

declare digitcount_loop.simps [simp del]

definition digitcount :: "int \<Rightarrow> int" where
  "digitcount num = (if num = 0 then 1 else digitcount_loop num 0)"

definition printspaces :: "int \<Rightarrow> string" where
  "printspaces count = replicate (nat count) CHR '' ''"

text \<open>
  \<^verbatim>\<open>rand\<close>: \<^verbatim>\<open>%\<close> binds tighter than \<^verbatim>\<open>+\<close>, and \<^verbatim>\<open>12345 % (1 << 31)\<close> is 12345, so the
  new seed is \<^verbatim>\<open>seed * 1103515245 + 12345\<close> modulo \<open>2 ^ 32\<close>.
\<close>

definition srand :: "u32 \<Rightarrow> u32" where
  "srand s = s"

definition rand :: "u32 \<Rightarrow> u32" where
  "rand seed = seed * 1103515245 + 12345"

section \<open>Format strings\<close>

text \<open>
  An argument word is an integer or a string pointer (\<open>None\<close> the null pointer). Reading past
  the arguments, or a string as a number, is undefined in C: the result is then \<open>None\<close>.
\<close>

datatype parg = PInt u32 | PStr "string option"

fun cstr :: "string \<Rightarrow> string" where
  "cstr [] = []"
| "cstr (c # cs) = (if c = CHR 0x00 then [] else c # cstr cs)"

definition str_arg :: "string option \<Rightarrow> string" where
  "str_arg p = (case p of None \<Rightarrow> ''(null)'' | Some s \<Rightarrow> cstr s)"

definition int_conv :: "(u32 \<Rightarrow> nat \<Rightarrow> bool \<Rightarrow> string) \<Rightarrow> nat \<Rightarrow> bool \<Rightarrow> parg list \<Rightarrow> (string \<times> parg list) option" where
  "int_conv pr base sg args = (case args of PInt x # as \<Rightarrow> Some (pr x base sg, as) | _ \<Rightarrow> None)"

definition str_conv :: "parg list \<Rightarrow> (string \<times> parg list) option" where
  "str_conv args = (case args of PStr p # as \<Rightarrow> Some (str_arg p, as) | _ \<Rightarrow> None)"

text \<open>The \<^verbatim>\<open>switch\<close> of \<^verbatim>\<open>cprintf\<close> on the character after the percent sign.\<close>

definition cconv :: "char \<Rightarrow> parg list \<Rightarrow> (string \<times> parg list) option" where
  "cconv d args =
     (if d = CHR ''d'' then int_conv printint 10 True args
      else if d = CHR ''x'' \<or> d = CHR ''p'' then int_conv printint 16 False args
      else if d = CHR ''s'' then str_conv args
      else if d = CHR ''%'' then Some (''%'', args)
      else Some ([CHR ''%'', d], args))"

fun cformat :: "string \<Rightarrow> parg list \<Rightarrow> string option" where
  "cformat [] args = Some []"
| "cformat [c] args = Some (if c = CHR 0x00 \<or> c = CHR ''%'' then [] else [c])"
| "cformat (c # d # ds) args =
     (if c = CHR 0x00 then Some []
      else if c \<noteq> CHR ''%'' then map_option ((#) c) (cformat (d # ds) args)
      else if d = CHR 0x00 then Some []
      else case cconv d args of
          None \<Rightarrow> None
        | Some (out, as) \<Rightarrow> map_option ((@) out) (cformat ds as))"

text \<open>User space: the conversion of \<^verbatim>\<open>printf\<close> and its two-state loop.\<close>

definition uconv :: "char \<Rightarrow> parg list \<Rightarrow> (string \<times> parg list) option" where
  "uconv c args =
     (if c = CHR ''d'' then int_conv user_printint 10 True args
      else if c = CHR ''x'' \<or> c = CHR ''p'' then int_conv user_printint 16 False args
      else if c = CHR ''s'' then str_conv args
      else if c = CHR ''c'' then (case args of PInt x # as \<Rightarrow> Some ([char_of (unat x)], as) | _ \<Rightarrow> None)
      else if c = CHR ''%'' then Some (''%'', args)
      else Some ([CHR ''%'', c], args))"

fun uformat :: "bool \<Rightarrow> string \<Rightarrow> parg list \<Rightarrow> string option" where
  "uformat pct [] args = Some []"
| "uformat pct (c # cs) args =
     (if c = CHR 0x00 then Some []
      else if \<not> pct then
        (if c = CHR ''%'' then uformat True cs args else map_option ((#) c) (uformat False cs args))
      else case uconv c args of
          None \<Rightarrow> None
        | Some (out, as) \<Rightarrow> map_option ((@) out) (uformat False cs as))"

section \<open>Correctness of number formatting\<close>

lemma digs_step: "2 \<le> b \<Longrightarrow> b \<le> x \<Longrightarrow> digs b x = (x mod b) # digs b (x div b)"
  by (subst digs.simps) (simp add: div_eq_0_iff)

lemma digs_small: "x < b \<Longrightarrow> digs b x = [x]"
  by (subst digs.simps) simp

lemma digs_induct [consumes 1, case_names small step]:
  assumes "2 \<le> b"
    and "\<And>x. x < b \<Longrightarrow> P x"
    and "\<And>x. b \<le> x \<Longrightarrow> P (x div b) \<Longrightarrow> P x"
  shows "P (x :: nat)"
proof (induction x rule: less_induct)
  case (less x)
  show ?case
  proof (cases "x < b")
    case False
    with assms(1) have "x div b < x" by (intro div_less_dividend) auto
    then have "P (x div b)" by (rule less)
    with False show ?thesis by (simp add: assms(3) [of x])
  qed (rule assms(2))
qed

lemma digs_value:
  assumes "2 \<le> b"
  shows "foldr (\<lambda>d v. d + b * v) (digs b x) 0 = x"
  using assms by (induction x rule: digs_induct) (use assms in \<open>simp_all add: digs_small digs_step\<close>)

lemma digs_less:
  assumes "2 \<le> b"
  shows "\<forall>d \<in> set (digs b x). d < b"
  using assms
proof (induction x rule: digs_induct)
  case (small x)
  then show ?case by (simp add: digs_small)
next
  case (step x)
  have "x mod b < b" using assms by simp
  with step show ?case by (simp add: digs_step [OF assms, of x])
qed

lemma digs_length:
  assumes "2 \<le> b" "x < b ^ Suc n"
  shows "length (digs b x) \<le> Suc n"
  using assms(2)
proof (induction n arbitrary: x)
  case 0
  then show ?case by (simp add: digs_small)
next
  case (Suc n)
  show ?case
  proof (cases "x < b")
    case False
    have "x div b < b ^ Suc n"
      using Suc.prems by (intro less_mult_imp_div_less) (simp add: mult.commute)
    from Suc.IH [OF this] False assms(1) show ?thesis by (simp add: digs_step [of b x])
  qed (simp add: digs_small)
qed

lemma digs_nonempty [simp]: "digs b x \<noteq> []"
  by (subst digs.simps) simp

lemma less_10_cases: "(d :: nat) < 10 \<Longrightarrow>
    d = 0 \<or> d = 1 \<or> d = 2 \<or> d = 3 \<or> d = 4 \<or> d = 5 \<or> d = 6 \<or> d = 7 \<or> d = 8 \<or> d = 9"
  by arith

lemma dec_digit: "d < 10 \<Longrightarrow> of_char (hex_lower ! d) = 48 + int d"
  by (drule less_10_cases) (auto simp: hex_lower_def)

lemma dec_digit_upper: "d < 10 \<Longrightarrow> hex_upper ! d = hex_lower ! d"
  by (drule less_10_cases) (auto simp: hex_lower_def hex_upper_def)

lemma foldr_base: "foldr (\<lambda>d v. d + b * v) ds k = foldr (\<lambda>d v. d + b * v) ds 0 + b ^ length ds * (k :: nat)"
  by (induction ds) (auto simp: algebra_simps)

lemma atoi_digits:
  "\<forall>d \<in> set ds. d < 10 \<Longrightarrow>
   atoi_loop n (rev (map (\<lambda>d. hex_lower ! d) ds)) = n * 10 ^ length ds + word_of_nat (foldr (\<lambda>d v. d + 10 * v) ds 0)"
proof (induction ds arbitrary: n rule: rev_induct)
  case (snoc d ds)
  then have d: "of_char (hex_lower ! d) = 48 + int d" by (simp add: dec_digit)
  from snoc d have "atoi_loop n (rev (map (\<lambda>d. hex_lower ! d) (ds @ [d]))) =
      (n * 10 + word_of_nat d) * 10 ^ length ds + word_of_nat (foldr (\<lambda>d v. d + 10 * v) ds 0)"
    by simp
  also have "\<dots> = n * 10 ^ length (ds @ [d]) + word_of_nat (foldr (\<lambda>d v. d + 10 * v) (ds @ [d]) 0)"
    by (simp add: foldr_base [of 10 ds d] distrib_right)
  finally show ?case .
qed simp

lemma unat_abs: "unat (if sint x < 0 then - x else x) = nat \<bar>sint x\<bar>" for x :: u32
proof (cases "sint x < 0")
  case True
  have "\<not> uint x < 2 ^ 31"
  proof
    assume "uint x < 2 ^ 31"
    then have "sint x = uint x" by (simp only: sint_u32 if_True)
    with True show False using uint_bounded [of x] by simp
  qed
  then have s: "sint x = uint x - 2 ^ 32" by (simp only: sint_u32 if_False)
  from True have "x \<noteq> 0" by auto
  then have "uint (- x) = - sint x" using uint_minus_u32 [of x] s by linarith
  with True show ?thesis by (simp only: unat_eq_nat_uint if_True abs_of_neg)
next
  case False
  with uint_bounded [of x] have s: "sint x = uint x" by (simp add: sint_u32 split: if_splits)
  have "unat (if sint x < 0 then - x else x) = unat x" using False by (simp only: if_False)
  also have "\<dots> = nat \<bar>sint x\<bar>" by (simp only: s unat_eq_nat_uint abs_of_nonneg uint_ge_0)
  finally show ?thesis .
qed

lemma printint_decimal:
  "printint x 10 True = (if sint x < 0 then ''-'' else '''') @
     rev (map (\<lambda>d. hex_lower ! d) (digs 10 (nat \<bar>sint x\<bar>)))"
  using unat_abs [of x] by (simp add: printint_def printint_buf_def Let_def)

lemma atoi_decimal: "atoi (rev (map (\<lambda>d. hex_lower ! d) (digs 10 n))) = sint (word_of_nat n :: u32)"
  using atoi_digits [of "digs 10 n" 0] digs_less [of 10 n] digs_value [of 10 n]
  by (simp add: atoi_def)

lemma word_of_abs: "word_of_nat (nat \<bar>sint x\<bar>) = (if sint x < 0 then - x else x)" for x :: u32
  by (subst unat_abs [symmetric]) simp

text \<open>
  C39: \<^verbatim>\<open>atoi\<close> reads back every number that is not negative and was printed with \<^verbatim>\<open>%d\<close>. It does not know the minus sign: for a
  negative number it returns 0; the digits after the sign give the number without it, which for the most negative
  one wraps around to that number itself.
\<close>

theorem printint_atoi_roundtrip:
  "if sint x < 0
   then atoi (printint x 10 True) = 0 \<and> (\<exists>ds. printint x 10 True = ''-'' @ ds \<and> atoi ds = sint (- x))
   else atoi (printint x 10 True) = sint x"
proof -
  have "atoi (CHR ''-'' # ds) = 0" for ds by (simp add: atoi_def)
  then show ?thesis by (simp add: printint_decimal atoi_decimal word_of_abs)
qed

text \<open>
  \<^verbatim>\<open>printint\<close> never writes past \<^verbatim>\<open>char buf[16]\<close>: in any base from 10 on, digits and sign
  of a 32-bit number take at most eleven characters, in the kernel and in user space alike.
\<close>

theorem printint_fits_buffer:
  assumes "10 \<le> b"
  shows "length (printint_buf ds x b sg) \<le> 11"
proof -
  have ten: "Suc 9 = 10" by simp
  have "unat y < b ^ 10" for y :: u32
  proof -
    have "unat y < 2 ^ 32" using unsigned_less [of y] by simp
    also have "\<dots> \<le> (10 :: nat) ^ 10" by simp
    also have "\<dots> \<le> b ^ 10" using assms by (rule power_mono) simp
    finally show ?thesis .
  qed
  then have d: "length (digs b (unat y)) \<le> 10" for y :: u32
    using assms by (intro digs_length [of b "unat y" 9, unfolded ten]) simp_all
  show ?thesis
    using d [of x] d [of "- x"] by (simp add: printint_buf_def Let_def)
qed

lemma printint_fits_buffer_witness: "length (printint_buf hex_lower 2147483648 10 True) \<le> 11"
  by (rule printint_fits_buffer) simp

lemma digitcount_loop_digs: "0 < n \<Longrightarrow> digitcount_loop (int n) c = c + int (length (digs 10 n))"
proof (induction n arbitrary: c rule: less_induct)
  case (less n)
  show ?case
  proof (cases "n < 10")
    case True
    with less.prems show ?thesis
      by (simp add: digs_small digitcount_loop.simps [of "int n"] digitcount_loop.simps [of 0] cdiv10_def)
  next
    case False
    then have "n div 10 < n" "0 < n div 10" by auto
    from less.IH [OF this, of "c + 1"] False show ?thesis
      by (simp add: digs_step [of 10 n] digitcount_loop.simps [of "int n"] cdiv10_def zdiv_int)
  qed
qed

lemma digitcount_loop_neg: "digitcount_loop (- int n) c = digitcount_loop (int n) c"
proof (induction n arbitrary: c rule: less_induct)
  case (less n)
  show ?case
  proof (cases "n = 0")
    case False
    then have "n div 10 < n" by simp
    from less.IH [OF this, of "c + 1"] False show ?thesis
      by (simp add: digitcount_loop.simps [of "int n"] digitcount_loop.simps [of "- int n"] cdiv10_def zdiv_int)
  qed simp
qed

lemma digitcount_digs: "digitcount n = int (length (digs 10 (nat \<bar>n\<bar>)))"
proof (cases "n = 0")
  case False
  then have "digitcount n = digitcount_loop \<bar>n\<bar> 0"
    using digitcount_loop_neg [of "nat (- n)" 0] by (cases "n < 0") (simp_all add: digitcount_def)
  with False show ?thesis
    using digitcount_loop_digs [of "nat \<bar>n\<bar>" 0] by simp
qed (simp add: digitcount_def digs_small)

text \<open>
  A column of the scheduler's table (\<^verbatim>\<open>print_sched_info\<close>): a number padded with
  \<^verbatim>\<open>printspaces(w - digitcount(n))\<close> takes exactly \<open>w\<close> characters when its digits fit, and one
  more when it is negative, because \<^verbatim>\<open>digitcount\<close> does not count the sign.
\<close>

theorem column_width:
  assumes "digitcount (sint x) \<le> w"
  shows "int (length (printint x 10 True @ printspaces (w - digitcount (sint x)))) =
         w + of_bool (sint x < 0)"
  using assms by (simp add: printint_decimal printspaces_def digitcount_digs)

lemma column_width_witness:
  "int (length (printint 1000000000 10 True @ printspaces (12 - digitcount (sint (1000000000 :: u32))))) = 12"
  using column_width [of "1000000000" 12] by (simp add: digitcount_digs digs_step digs_small)

section \<open>The two format loops\<close>

text \<open>Whether a format has a conversion \<^verbatim>\<open>%c\<close> with a character of \<open>A\<close>.\<close>

fun converts :: "char set \<Rightarrow> string \<Rightarrow> bool" where
  "converts A [] = False"
| "converts A [c] = False"
| "converts A (c # d # ds) = (if c = CHR ''%'' then d \<in> A \<or> converts A ds else converts A (d # ds))"

text \<open>The same character, or the same hexadecimal digit as user space and as the kernel write it.\<close>

definition same_char :: "char \<Rightarrow> char \<Rightarrow> bool" where
  "same_char c d \<longleftrightarrow> c = d \<or> (\<exists>k < 16. c = hex_upper ! k \<and> d = hex_lower ! k)"

lemma same_refl [simp]: "same_char c c" "list_all2 same_char cs cs"
  by (simp_all add: same_char_def list.rel_refl)

lemma printint_user_decimal: "user_printint x 10 True = printint x 10 True"
  using digs_less [of 10]
  by (auto simp: user_printint_def printint_def printint_buf_def Let_def dec_digit_upper)

lemma printint_user_hex: "list_all2 same_char (user_printint x 16 sg) (printint x 16 sg)"
proof -
  have "list_all2 same_char (map (\<lambda>d. hex_upper ! d) (digs 16 n)) (map (\<lambda>d. hex_lower ! d) (digs 16 n))" for n
    using digs_less [of 16 n] by (auto simp: list_all2_conv_all_nth same_char_def)
  then show ?thesis
    by (auto simp: user_printint_def printint_def printint_buf_def Let_def intro!: list_all2_appendI)
qed

lemma conv_agree:
  "d \<noteq> CHR ''x'' \<Longrightarrow> d \<noteq> CHR ''p'' \<Longrightarrow> d \<noteq> CHR ''c'' \<Longrightarrow> uconv d args = cconv d args"
  by (auto simp: uconv_def cconv_def int_conv_def printint_user_decimal split: list.splits parg.splits)

lemma conv_similar:
  assumes "d \<noteq> CHR ''c''"
  shows "rel_option (rel_prod (list_all2 same_char) (=)) (uconv d args) (cconv d args)"
proof (cases "d = CHR ''x'' \<or> d = CHR ''p''")
  case True
  then show ?thesis
    by (auto simp: uconv_def cconv_def int_conv_def printint_user_hex split: list.splits parg.splits)
next
  case False
  then show ?thesis using conv_agree [of d args] assms by (cases "cconv d args") (auto simp: rel_prod_sel)
qed

lemma cformat_NUL [simp]: "cformat (CHR 0x00 # ds) args = Some []"
  by (cases ds) simp_all

lemma formats_agree: "\<not> converts {CHR ''x'', CHR ''p'', CHR ''c''} fmt \<Longrightarrow> uformat False fmt args = cformat fmt args"
proof (induction fmt args rule: cformat.induct)
  case (3 c d ds args)
  then show ?case
    by (auto simp: conv_agree split: option.splits)
qed auto

lemma rel_option_map_app:
  "list_all2 R xs ys \<Longrightarrow> rel_option (list_all2 R) a b \<Longrightarrow> rel_option (list_all2 R) (map_option ((@) xs) a) (map_option ((@) ys) b)"
  by (cases a; cases b) (auto intro: list_all2_appendI)

lemma rel_option_map_Cons:
  "R x x \<Longrightarrow> rel_option (list_all2 R) a b \<Longrightarrow> rel_option (list_all2 R) (map_option ((#) x) a) (map_option ((#) x) b)"
  by (cases a; cases b) auto

lemma formats_similar:
  "\<not> converts {CHR ''c''} fmt \<Longrightarrow> rel_option (list_all2 same_char) (uformat False fmt args) (cformat fmt args)"
proof (induction fmt args rule: cformat.induct)
  case (3 c d ds args)
  show ?case
  proof (cases "c = CHR ''%'' \<and> d \<noteq> CHR 0x00")
    case True
    then have "rel_option (rel_prod (list_all2 same_char) (=)) (uconv d args) (cconv d args)"
      using 3 by (intro conv_similar) auto
    then show ?thesis using 3 True
      by (cases "uconv d args"; cases "cconv d args") (auto intro: rel_option_map_app split: prod.splits)
  next
    case False
    then show ?thesis using 3 by (auto intro: rel_option_map_Cons)
  qed
qed auto

text \<open>
  C40: on formats without \<^verbatim>\<open>%c\<close>, which the kernel does not know, the two-state loop of the user-space \<^verbatim>\<open>printf\<close> and the look-ahead
  loop of the kernel's \<^verbatim>\<open>cprintf\<close> emit the same characters, up to the case of the digits of \<^verbatim>\<open>%x\<close> and \<^verbatim>\<open>%p\<close>; without these
  two conversions the output is the same.
\<close>

theorem printf_cprintf_agree:
  assumes "\<not> converts {CHR ''c''} fmt"
  shows "rel_option (list_all2 same_char) (uformat False fmt args) (cformat fmt args) \<and>
    (\<not> converts {CHR ''x'', CHR ''p'', CHR ''c''} fmt \<longrightarrow> uformat False fmt args = cformat fmt args)"
  using formats_similar [OF assms] formats_agree by blast

lemma printf_cprintf_agree_witness:
  "uformat False ''PID %d : %s%%'' [PInt 7, PStr (Some ''sh'')] = Some ''PID 7 : sh%'' \<and>
   rel_option (list_all2 same_char) (uformat False ''0x%x'' [PInt 0xBEEF]) (cformat ''0x%x'' [PInt 0xBEEF])"
proof
  have c: "\<not> converts {CHR ''c''} ''PID %d : %s%%''" "\<not> converts {CHR ''x'', CHR ''p'', CHR ''c''} ''PID %d : %s%%''" by simp_all
  have "cformat ''PID %d : %s%%'' [PInt 7, PStr (Some ''sh'')] = Some ''PID 7 : sh%''"
    by (simp add: cconv_def int_conv_def str_conv_def str_arg_def printint_decimal digs_small hex_lower_def)
  with printf_cprintf_agree [OF c(1)] c(2)
  show "uformat False ''PID %d : %s%%'' [PInt 7, PStr (Some ''sh'')] = Some ''PID 7 : sh%''" by simp
  have "\<not> converts {CHR ''c''} ''0x%x''" by simp
  then show "rel_option (list_all2 same_char) (uformat False ''0x%x'' [PInt 0xBEEF]) (cformat ''0x%x'' [PInt 0xBEEF])"
    using printf_cprintf_agree by blast
qed

end
