(* ===== verification/Cprintf.thy ===== *)
theory Cprintf
  imports Spinlock Printf
begin

text \<open>
  Kernel output: \<^verbatim>\<open>cprintf\<close> of \<^verbatim>\<open>src/console.c\<close> with its lock, and the column padding of
  \<^verbatim>\<open>src/utils.c\<close> as the kernel calls it. The state is what \<^verbatim>\<open>consputc\<close> has been given so far;
  the formatting itself is \<open>cformat\<close> of \<open>Printf\<close>. A call with fewer arguments than
  its format consumes is undefined in C; it prints nothing here, and no call of the kernel is one.
\<close>

record ckst = kst +
  cons_locking :: bool
  cons_out :: string

definition consputs :: "string \<Rightarrow> 'e ckst_scheme \<Rightarrow> 'e ckst_scheme" where
  "consputs t s = s\<lparr>cons_out := cons_out s @ t\<rparr>"

definition formatted :: "string \<Rightarrow> parg list \<Rightarrow> string" where
  "formatted fmt args = (case cformat fmt args of Some t \<Rightarrow> t | None \<Rightarrow> '''')"

definition cprintf :: "nat \<Rightarrow> string \<Rightarrow> parg list \<Rightarrow> 'e ckst_scheme \<Rightarrow> (unit, 'e ckst_scheme) res" where
  "cprintf a fmt args s =
     (let locking = cons_locking s in
      bnd (if locking then acquire a ConsLock s else Ok () s) (\<lambda>_ s.
      let s = consputs (formatted fmt args) s in
      if locking then release a ConsLock s else Ok () s))"

text \<open>\<^verbatim>\<open>printspaces\<close>: one \<^verbatim>\<open>cprintf(" ")\<close> per space.\<close>

definition cprintspaces :: "nat \<Rightarrow> int \<Rightarrow> 'e ckst_scheme \<Rightarrow> (unit, 'e ckst_scheme) res" where
  "cprintspaces a count s = forR [0..<nat count] (\<lambda>_ s. cprintf a '' '' [] s) s"

section \<open>Effect\<close>

text \<open>What output needs: a CPU in a consistent state, and the console lock not taken.\<close>

definition can_print :: "nat \<Rightarrow> 'e ckst_scheme \<Rightarrow> bool" where
  "can_print a s \<longleftrightarrow> ready a s \<and> (cons_locking s \<longrightarrow> free ConsLock s)"

definition printed :: "nat \<Rightarrow> string \<Rightarrow> 'e ckst_scheme \<Rightarrow> 'e ckst_scheme" where
  "printed a t s = consputs t (s\<lparr>mach := (if cons_locking s then settle a (mach s) else mach s)\<rparr>)"

lemma consputs_fields [simp]:
  "mach (consputs t s) = mach s" "cons_locking (consputs t s) = cons_locking s"
  "cons_out (consputs t s) = cons_out s @ t" "ckst.more (consputs t s) = ckst.more s"
  by (simp_all add: consputs_def)

lemma consputs_mach: "(consputs t s)\<lparr>mach := m\<rparr> = consputs t (s\<lparr>mach := m\<rparr>)"
  by (simp add: consputs_def)

lemma cprintf_ok [lock_simps]:
  assumes "can_print a s"
  shows "cprintf a fmt args s = Ok () (printed a (formatted fmt args) s)"
proof (cases "cons_locking s")
  case True
  then have "ready a s" "free ConsLock s" using assms by (simp_all add: can_print_def)
  then show ?thesis
    using True by (simp add: cprintf_def printed_def acquire_kst Let_def
        release_kst [of _ _ _ "mach s"] consputs_mach)
next
  case False
  then show ?thesis by (simp add: cprintf_def printed_def)
qed

lemma printed_fields [simp]:
  "cons_locking (printed a t s) = cons_locking s" "cons_out (printed a t s) = cons_out s @ t"
  "ckst.more (printed a t s) = ckst.more s"
  "mach (printed a t s) = (if cons_locking s then settle a (mach s) else mach s)"
  by (simp_all add: printed_def)

lemma can_print_printed [simp]: "can_print a s \<Longrightarrow> can_print a (printed a t s)"
  by (simp add: can_print_def)

lemma printed_printed [simp]: "printed a u (printed a t s) = printed a (t @ u) s"
  by (simp add: printed_def consputs_def)

text \<open>Inside a critical section printing leaves the machine alone.\<close>

lemma printed_nested: "settle a (mach s) = mach s \<Longrightarrow> printed a t s = consputs t s"
  by (simp add: printed_def)

lemma cprintspaces_ok:
  assumes "can_print a s"
  shows "cprintspaces a n s = (if nat n = 0 then Ok () s else Ok () (printed a (printspaces n) s))"
proof -
  have space: "formatted '' '' [] = '' ''" by (simp add: formatted_def)
  have "forR xs (\<lambda>_. cprintf a '' '' []) s =
      (if xs = [] then Ok () s else Ok () (printed a (replicate (length xs) CHR '' '') s))"
    if "can_print a s" for xs :: "nat list" and s :: "'a ckst_scheme"
    using that
  proof (induction xs arbitrary: s)
    case (Cons x xs)
    then show ?case by (auto simp: cprintf_ok space)
  qed simp
  from this [OF assms, of "[0..<nat n]"] show ?thesis
    by (simp add: cprintspaces_def printspaces_def)
qed

end
