(* ===== verification/Cstring.thy ===== *)
theory Cstring
  imports Xv6_Prelude
begin

text \<open>
  Memory and string functions: \<^verbatim>\<open>src/string.c\<close> (kernel), the string functions of
  \<^verbatim>\<open>src/ulib.c\<close> (user space) and the string instructions \<^verbatim>\<open>stosb\<close>, \<^verbatim>\<open>stosl\<close> of
  \<^verbatim>\<open>src/x86.h\<close>. Memory maps 32-bit addresses to bytes; pointers are 32-bit words and pointer
  arithmetic wraps as the machine's does. A function that returns its destination argument is
  modelled by the memory it leaves.
\<close>

named_theorems mem_simps \<open>what a memory operation leaves at an address\<close>

section \<open>Memory\<close>

type_synonym mem = "u32 \<Rightarrow> u8"

definition store32 :: "mem \<Rightarrow> u32 \<Rightarrow> u32 \<Rightarrow> mem" where
  "store32 m p w = m(p := ucast w, p + 1 := ucast (drop_bit 8 w),
     p + 2 := ucast (drop_bit 16 w), p + 3 := ucast (drop_bit 24 w))"

definition load32 :: "mem \<Rightarrow> u32 \<Rightarrow> u32" where
  "load32 m p = ucast (m p) OR push_bit 8 (ucast (m (p + 1)))
     OR push_bit 16 (ucast (m (p + 2))) OR push_bit 24 (ucast (m (p + 3)))"

text \<open>Bytes that come from elsewhere (a disk block, another address space), stored from \<open>p\<close> on.\<close>

fun store_list :: "mem \<Rightarrow> u32 \<Rightarrow> u8 list \<Rightarrow> mem" where
  "store_list m p [] = m"
| "store_list m p (x # xs) = store_list (m(p := x)) (p + 1) xs"

fun stosb :: "mem \<Rightarrow> u32 \<Rightarrow> u32 \<Rightarrow> nat \<Rightarrow> mem" where
  "stosb m addr data 0 = m"
| "stosb m addr data (Suc k) = stosb (m(addr := ucast data)) (addr + 1) data k"

fun stosl :: "mem \<Rightarrow> u32 \<Rightarrow> u32 \<Rightarrow> nat \<Rightarrow> mem" where
  "stosl m addr data 0 = m"
| "stosl m addr data (Suc k) = stosl (store32 m addr data) (addr + 4) data k"

definition memset :: "mem \<Rightarrow> u32 \<Rightarrow> u32 \<Rightarrow> u32 \<Rightarrow> mem" where
  "memset m dst c n =
     (if dst mod 4 = 0 \<and> n mod 4 = 0 then
        (let c = c AND 0xFF
         in stosl m dst (push_bit 24 c OR push_bit 16 c OR push_bit 8 c OR c) (unat (n div 4)))
      else stosb m dst c (unat n))"

fun memcmp_loop :: "mem \<Rightarrow> u32 \<Rightarrow> u32 \<Rightarrow> nat \<Rightarrow> int" where
  "memcmp_loop m s1 s2 0 = 0"
| "memcmp_loop m s1 s2 (Suc n) =
     (if m s1 \<noteq> m s2 then uint (m s1) - uint (m s2) else memcmp_loop m (s1 + 1) (s2 + 1) n)"

definition memcmp :: "mem \<Rightarrow> u32 \<Rightarrow> u32 \<Rightarrow> u32 \<Rightarrow> int" where
  "memcmp m v1 v2 n = memcmp_loop m v1 v2 (unat n)"

fun copy_down :: "mem \<Rightarrow> u32 \<Rightarrow> u32 \<Rightarrow> nat \<Rightarrow> mem" where
  "copy_down m d s 0 = m"
| "copy_down m d s (Suc n) = copy_down (m(d - 1 := m (s - 1))) (d - 1) (s - 1) n"

fun copy_up :: "mem \<Rightarrow> u32 \<Rightarrow> u32 \<Rightarrow> nat \<Rightarrow> mem" where
  "copy_up m d s 0 = m"
| "copy_up m d s (Suc n) = copy_up (m(d := m s)) (d + 1) (s + 1) n"

definition memmove :: "mem \<Rightarrow> u32 \<Rightarrow> u32 \<Rightarrow> u32 \<Rightarrow> mem" where
  "memmove m dst src n =
     (if src < dst \<and> src + n > dst then copy_down m (dst + n) (src + n) (unat n)
      else copy_up m dst src (unat n))"

definition memcpy :: "mem \<Rightarrow> u32 \<Rightarrow> u32 \<Rightarrow> u32 \<Rightarrow> mem" where
  "memcpy m dst src n = memmove m dst src n"

section \<open>Strings\<close>

fun strncmp_loop :: "mem \<Rightarrow> u32 \<Rightarrow> u32 \<Rightarrow> nat \<Rightarrow> int" where
  "strncmp_loop m p q 0 = 0"
| "strncmp_loop m p q (Suc n) =
     (if m p \<noteq> 0 \<and> m p = m q then strncmp_loop m (p + 1) (q + 1) n else uint (m p) - uint (m q))"

definition strncmp :: "mem \<Rightarrow> u32 \<Rightarrow> u32 \<Rightarrow> u32 \<Rightarrow> int" where
  "strncmp m p q n = strncmp_loop m p q (unat n)"

text \<open>The copying loop of \<^verbatim>\<open>strncpy\<close>: the memory, the final \<^verbatim>\<open>s\<close> and how many bytes are left.\<close>

fun strncpy_copy :: "mem \<Rightarrow> u32 \<Rightarrow> u32 \<Rightarrow> nat \<Rightarrow> mem \<times> u32 \<times> nat" where
  "strncpy_copy m s t 0 = (m, s, 0)"
| "strncpy_copy m s t (Suc n) =
     (let c = m t; m = m(s := c)
      in if c \<noteq> 0 then strncpy_copy m (s + 1) (t + 1) n else (m, s + 1, n))"

fun zero_fill :: "mem \<Rightarrow> u32 \<Rightarrow> nat \<Rightarrow> mem" where
  "zero_fill m s 0 = m"
| "zero_fill m s (Suc n) = zero_fill (m(s := 0)) (s + 1) n"

definition strncpy :: "mem \<Rightarrow> u32 \<Rightarrow> u32 \<Rightarrow> int \<Rightarrow> mem" where
  "strncpy m s t n = (let (m, s, k) = strncpy_copy m s t (nat n) in zero_fill m s k)"

fun safestrcpy_copy :: "mem \<Rightarrow> u32 \<Rightarrow> u32 \<Rightarrow> nat \<Rightarrow> mem \<times> u32" where
  "safestrcpy_copy m s t 0 = (m, s)"
| "safestrcpy_copy m s t (Suc k) =
     (let c = m t; m = m(s := c)
      in if c \<noteq> 0 then safestrcpy_copy m (s + 1) (t + 1) k else (m, s + 1))"

definition safestrcpy :: "mem \<Rightarrow> u32 \<Rightarrow> u32 \<Rightarrow> int \<Rightarrow> mem" where
  "safestrcpy m s t n =
     (if n \<le> 0 then m
      else let (m, s) = safestrcpy_copy m s t (nat (n - 1)) in m(s := 0))"

text \<open>\<^verbatim>\<open>strlen\<close> and \<^verbatim>\<open>strcpy\<close> have no bound: they do not return if there is no NUL.\<close>

partial_function (option) strlen_loop :: "mem \<Rightarrow> u32 \<Rightarrow> int \<Rightarrow> int option" where
  "strlen_loop m s n = (if m s = 0 then Some n else strlen_loop m (s + 1) (n + 1))"

definition strlen :: "mem \<Rightarrow> u32 \<Rightarrow> int option" where
  "strlen m s = strlen_loop m s 0"

section \<open>User space\<close>

partial_function (option) strcpy :: "mem \<Rightarrow> u32 \<Rightarrow> u32 \<Rightarrow> mem option" where
  "strcpy m s t = (if m t = 0 then Some (m(s := 0)) else strcpy (m(s := m t)) (s + 1) (t + 1))"

partial_function (option) strcmp :: "mem \<Rightarrow> u32 \<Rightarrow> u32 \<Rightarrow> int option" where
  "strcmp m p q =
     (if m p \<noteq> 0 \<and> m p = m q then strcmp m (p + 1) (q + 1) else Some (uint (m p) - uint (m q)))"

text \<open>\<^verbatim>\<open>strchr\<close> returns the null pointer 0 when the character is not found.\<close>

partial_function (option) strchr :: "mem \<Rightarrow> u32 \<Rightarrow> u8 \<Rightarrow> u32 option" where
  "strchr m s c = (if m s = 0 then Some 0 else if m s = c then Some s else strchr m (s + 1) c)"

definition user_memset :: "mem \<Rightarrow> u32 \<Rightarrow> u32 \<Rightarrow> u32 \<Rightarrow> mem" where
  "user_memset m dst c n = stosb m dst c (unat n)"

definition user_memmove :: "mem \<Rightarrow> u32 \<Rightarrow> u32 \<Rightarrow> int \<Rightarrow> mem" where
  "user_memmove m vdst vsrc n = copy_up m vdst vsrc (nat n)"

section \<open>Address arithmetic\<close>

text \<open>\<open>dist p a\<close> is how far the address \<open>a\<close> is above \<open>p\<close>.\<close>

definition dist :: "u32 \<Rightarrow> u32 \<Rightarrow> nat" where
  "dist p a = unat (a - p)"

lemma dist_bound: "dist p a < 2 ^ 32"
  using unsigned_less [of "a - p"] by (simp add: dist_def)

lemma dist_self [simp]: "dist p p = 0"
  by (simp add: dist_def)

lemma dist_zero_iff [simp]: "dist p a = 0 \<longleftrightarrow> a = p"
proof -
  have "dist p a = 0 \<longleftrightarrow> a - p = 0" by (simp only: dist_def unat_eq_0)
  then show ?thesis by simp
qed

lemma dist_Suc: "a \<noteq> p \<Longrightarrow> dist p a = Suc (dist (p + 1) a)"
proof -
  assume ne: "a \<noteq> p"
  then have "0 < dist p a" by (metis dist_zero_iff neq0_conv)
  moreover have "a - (p + 1) = (a - p) - 1" by simp
  ultimately show ?thesis
    unfolding dist_def using unat_minus_one [of "a - p"] ne by (simp add: diff_diff_eq)
qed

lemma dist_addr: "p + word_of_nat (dist p a) = a"
  by (simp add: dist_def)

lemma dist_pred: "a \<noteq> p \<Longrightarrow> dist p a = Suc (dist p (a - 1))"
  using dist_Suc [of a p] by (simp add: dist_def diff_diff_eq add.commute)

lemma dist_shift [simp]: "dist (p + d) (a + d) = dist p a"
  by (simp add: dist_def)

lemma unat_minus_1: "unat (- 1 :: u32) = 2 ^ 32 - 1"
  using unat_sub_if' [of 0 "1 :: u32"] by simp

lemma dist_Suc_self: "dist (p + 1) p = 2 ^ 32 - 1"
  by (simp add: dist_def unat_minus_1 del: unsigned_minus_1_eq_mask)

lemma dist_pred_self: "dist p (p - 1) = 2 ^ 32 - 1"
  by (simp add: dist_def unat_minus_1 del: unsigned_minus_1_eq_mask)

section \<open>Filling memory\<close>

lemma stosb_at [mem_simps]: "stosb m p c n a = (if dist p a < n then ucast c else m a)"
proof (induction n arbitrary: m p)
  case (Suc n)
  show ?case
  proof (cases "a = p")
    case False
    then show ?thesis by (simp add: Suc dist_Suc)
  next
    case True
    then have "stosb (m(p := ucast c)) (p + 1) c n a = ucast c" by (subst Suc) simp
    with True show ?thesis by simp
  qed
qed simp

lemma stosb_add: "stosb m p c (k + j) = stosb (stosb m p c k) (p + word_of_nat k) c j"
  by (induction k arbitrary: m p) (simp_all add: add.assoc)

lemma store32_stosb:
  assumes "\<And>k. k \<in> {0, 8, 16, 24} \<Longrightarrow> ucast (drop_bit k w) = (ucast c :: u8)"
  shows "store32 m p w = stosb m p c 4"
proof -
  have "ucast w = (ucast c :: u8)" using assms [of 0] by simp
  then show ?thesis
    using assms [of 8] assms [of 16] assms [of 24]
    by (simp add: store32_def eval_nat_numeral add.assoc)
qed

lemma stosl_stosb:
  assumes "\<And>m p. store32 m p w = stosb m p c 4"
  shows "stosl m p w n = stosb m p c (4 * n)"
proof (induction n arbitrary: m p)
  case (Suc n)
  then show ?case using stosb_add [of m p c 4 "4 * n"] by (simp add: assms)
qed simp

lemma replicated_byte:
  fixes c :: u32
  assumes "k \<in> {0, 8, 16, 24}"
  shows "ucast (drop_bit k (push_bit 24 (c AND 0xFF) OR push_bit 16 (c AND 0xFF)
      OR push_bit 8 (c AND 0xFF) OR (c AND 0xFF))) = (ucast c :: u8)"
proof -
  have "c AND 0xFF = take_bit 8 c" by (simp add: take_bit_eq_mask mask_eq_exp_minus_1)
  then show ?thesis
    using assms by (auto intro!: bit_word_eqI simp: bit_simps)
qed

lemma memset_stosb: "memset m dst c n = stosb m dst c (unat n)"
proof (cases "dst mod 4 = 0 \<and> n mod 4 = 0")
  case True
  have "4 * unat (n div 4) = unat n"
  proof -
    have "unat n mod 4 = 0" using True unat_mod [of n 4] by simp
    moreover have "unat (n div 4) = unat n div 4" using unat_div [of n 4] by simp
    ultimately show ?thesis using mult_div_mod_eq [of 4 "unat n"] by simp
  qed
  moreover have "memset m dst c n = stosb m dst c (4 * unat (n div 4))"
    unfolding memset_def Let_def if_P [OF True]
    by (rule stosl_stosb [OF store32_stosb [OF replicated_byte]])
  ultimately show ?thesis by simp
next
  case False
  show ?thesis by (simp only: memset_def if_not_P [OF False])
qed

section \<open>Moving memory\<close>

lemma copy_up_at:
  assumes "dist s d = 0 \<or> n \<le> dist s d" "n < 2 ^ 32"
  shows "copy_up m d s n a = (if dist d a < n then m (s + (a - d)) else m a)"
  using assms
proof (induction n arbitrary: m d s)
  case (Suc n)
  have IH: "copy_up (m(d := m s)) (d + 1) (s + 1) n a =
      (if dist (d + 1) a < n then (m(d := m s)) (s + 1 + (a - (d + 1))) else (m(d := m s)) a)"
    by (rule Suc.IH) (use Suc.prems in auto)
  show ?case
  proof (cases "a = d")
    case True
    then show ?thesis using IH Suc.prems by (simp add: dist_Suc_self)
  next
    case False
    have "s + (a - d) = d \<Longrightarrow> a - d = d - s" by (simp add: algebra_simps)
    then have "s + (a - d) = d \<Longrightarrow> dist d a = dist s d" by (simp only: dist_def)
    moreover have "dist d a \<noteq> 0" using False by simp
    ultimately have "dist d a < Suc n \<Longrightarrow> s + (a - d) \<noteq> d"
      using Suc.prems(1) by linarith
    then show ?thesis using IH False by (simp add: dist_Suc)
  qed
qed simp

lemma copy_down_at:
  assumes "dist d s = 0 \<or> n \<le> dist d s" "n < 2 ^ 32"
  shows "copy_down m d s n a = (if 0 < dist a d \<and> dist a d \<le> n then m (s - (d - a)) else m a)"
  using assms
proof (induction n arbitrary: m d s)
  case (Suc n)
  have same: "dist (d - 1) (s - 1) = dist d s" by (simp add: dist_def)
  have IH: "copy_down (m(d - 1 := m (s - 1))) (d - 1) (s - 1) n a =
      (if 0 < dist a (d - 1) \<and> dist a (d - 1) \<le> n then (m(d - 1 := m (s - 1))) (s - 1 - (d - 1 - a))
       else (m(d - 1 := m (s - 1))) a)"
    by (rule Suc.IH) (use Suc.prems same in auto)
  consider "a = d" | "a \<noteq> d" "a = d - 1" | "a \<noteq> d" "a \<noteq> d - 1" by blast
  then show ?case
  proof cases
    case 1
    then show ?thesis using IH Suc.prems by (simp add: dist_pred_self)
  next
    case 2
    then have "dist a d = 1" using dist_pred [of d a] by simp
    then show ?thesis using IH 2 by simp
  next
    case 3
    have "s - (d - a) = d - 1 \<Longrightarrow> s - d = d - 1 - a" by (simp add: algebra_simps)
    then have "s - (d - a) = d - 1 \<Longrightarrow> dist d s = dist a (d - 1)" by (simp only: dist_def)
    then have "0 < dist a (d - 1) \<and> dist a (d - 1) \<le> n \<Longrightarrow> s - (d - a) \<noteq> d - 1"
      using Suc.prems by linarith
    moreover have "dist a d = Suc (dist a (d - 1))" using 3 dist_pred by metis
    moreover have "s - 1 - (d - 1 - a) = s - (d - a)" "dist a (d - 1) \<noteq> 0" using 3 by simp_all
    ultimately show ?thesis using IH 3(2)
      by (simp only: copy_down.simps fun_upd_apply if_False Suc_le_mono zero_less_Suc simp_thms
          neq0_conv cong: if_cong)
  qed
qed auto

lemma dist_from_end:
  "0 < dist a (p + n) \<and> dist a (p + n) \<le> unat n \<longleftrightarrow> dist p a < unat n"
proof -
  have "dist a (p + n) = unat (n - (a - p))" by (simp add: dist_def algebra_simps)
  moreover have "unat (a - p) < 2 ^ 32" using unsigned_less [of "a - p"] by simp
  moreover have "unat n < 2 ^ 32" using unsigned_less [of n] by simp
  ultimately show ?thesis
    unfolding dist_def [of p] using unat_sub_if' [of n "a - p"] by (simp split: if_splits)
qed

lemma unat_diff_wrap: "x < y \<Longrightarrow> unat (x - y) = unat x + 2 ^ 32 - unat y" for x y :: u32
proof -
  assume "x < y"
  then have "\<not> unat y \<le> unat x" by (simp add: word_less_nat_alt not_le)
  moreover have "(2::nat) ^ LENGTH(32) = 2 ^ 32" by simp
  ultimately show ?thesis using unat_sub_if' [of x y] by presburger
qed

lemma memmove_forward_safe:
  assumes "unat src + unat n < 2 ^ 32" "\<not> (src < dst \<and> src + n > dst)"
  shows "dist src dst = 0 \<or> unat n \<le> dist src dst"
proof (cases src dst rule: linorder_cases)
  case less
  have "unat (src + n) = unat src + unat n"
    using assms(1) unat_add_lem [of src n] by simp
  moreover have "unat (src + n) \<le> unat dst"
    using less assms(2) by (simp add: word_le_nat_alt [symmetric])
  ultimately show ?thesis
    unfolding dist_def using unat_sub [OF less_imp_le [OF less]] by linarith
next
  case greater
  then have "dist src dst = unat dst + 2 ^ 32 - unat src"
    unfolding dist_def by (rule unat_diff_wrap)
  then show ?thesis using assms(1) by linarith
qed simp

lemma memmove_backward_safe:
  assumes "unat dst + unat n \<le> 2 ^ 32" "src < dst"
  shows "unat n \<le> dist (dst + n) (src + n)"
proof -
  have "dist (dst + n) (src + n) = unat (src - dst)" by (simp add: dist_def)
  then show ?thesis using unat_diff_wrap [OF assms(2)] assms(1) by linarith
qed

lemma memmove_at:
  assumes "unat src + unat n < 2 ^ 32" "unat dst + unat n \<le> 2 ^ 32"
  shows "memmove m dst src n a = (if dist dst a < unat n then m (src + (a - dst)) else m a)"
proof (cases "src < dst \<and> src + n > dst")
  case True
  have n: "unat n < 2 ^ 32" using assms(1) by linarith
  have "src + n - (dst + n - a) = src + (a - dst)" by simp
  then show ?thesis
    unfolding memmove_def if_P [OF True]
    using copy_down_at [of "dst + n" "src + n" "unat n" m a] n dist_from_end [of a dst n]
      memmove_backward_safe [OF assms(2)] True by presburger
next
  case False
  then show ?thesis
    unfolding memmove_def if_not_P [OF False]
    using copy_up_at [OF memmove_forward_safe [OF assms(1) False]] assms(1) by simp
qed

section \<open>Strings in memory\<close>

text \<open>
  The \<open>n\<close> bytes at \<open>p\<close>; the name in a field of \<open>n\<close> bytes, which ends at the first NUL or
  at the end of the field; and a NUL-terminated string.
\<close>

definition bytes :: "mem \<Rightarrow> u32 \<Rightarrow> nat \<Rightarrow> u8 list" where
  "bytes m p n = map (\<lambda>i. m (p + word_of_nat i)) [0..<n]"

definition name_field :: "mem \<Rightarrow> u32 \<Rightarrow> nat \<Rightarrow> u8 list" where
  "name_field m p n = takeWhile (\<lambda>c. c \<noteq> 0) (bytes m p n)"

definition str_at :: "mem \<Rightarrow> u32 \<Rightarrow> u8 list \<Rightarrow> bool" where
  "str_at m p cs \<longleftrightarrow> bytes m p (length cs) = cs \<and> 0 \<notin> set cs \<and> m (p + word_of_nat (length cs)) = 0"

lemma bytes_0 [simp]: "bytes m p 0 = []"
  by (simp add: bytes_def)

lemma bytes_Suc [simp]: "bytes m p (Suc n) = m p # bytes m (p + 1) n"
  unfolding bytes_def map_upt_Suc by (simp add: algebra_simps)

lemma length_bytes [simp]: "length (bytes m p n) = n"
  by (simp add: bytes_def)

lemma str_at_Nil [simp]: "str_at m p [] \<longleftrightarrow> m p = 0"
  by (simp add: str_at_def)

lemma str_at_Cons [simp]: "str_at m p (c # cs) \<longleftrightarrow> m p = c \<and> c \<noteq> 0 \<and> str_at m (p + 1) cs"
proof -
  have e: "p + word_of_nat (Suc n) = p + 1 + word_of_nat n" for n by (simp add: add.assoc)
  show ?thesis
    unfolding str_at_def length_Cons bytes_Suc e by (simp only: list.inject list.set insert_iff) blast
qed

lemma name_field_0 [simp]: "name_field m p 0 = []"
  by (simp add: name_field_def)

lemma name_field_Suc [simp]:
  "name_field m p (Suc n) = (if m p = 0 then [] else m p # name_field m (p + 1) n)"
  by (simp add: name_field_def)

lemma name_field_str_at: "str_at m p cs \<Longrightarrow> name_field m p n = take n cs"
proof (induction n arbitrary: p cs)
  case (Suc n)
  then show ?case by (cases cs) auto
qed simp

lemma strlen_loop_str_at: "str_at m p cs \<Longrightarrow> strlen_loop m p n = Some (n + int (length cs))"
proof (induction cs arbitrary: p n)
  case Nil
  then show ?case by (subst strlen_loop.simps) simp
next
  case (Cons c cs)
  then show ?case by (subst strlen_loop.simps) (auto simp: algebra_simps)
qed

lemma strncmp_loop_zero: "strncmp_loop m p q n = 0 \<longleftrightarrow> name_field m p n = name_field m q n"
proof -
  have eq: "uint x - uint y = 0 \<longleftrightarrow> x = y" for x y :: u8
    by (simp add: word_uint_eq_iff)
  show ?thesis by (induction n arbitrary: p q) (auto simp only: strncmp_loop.simps name_field_0
      name_field_Suc eq list.inject simp_thms list.distinct split: if_splits)
qed

lemma zero_fill_at [mem_simps]: "zero_fill m p n a = (if dist p a < n then 0 else m a)"
proof -
  have "zero_fill m p n = stosb m p 0 n" by (induction n arbitrary: m p) simp_all
  then show ?thesis by (simp add: stosb_at)
qed

text \<open>Two regions do not overlap when neither end of one lies in the other.\<close>

definition apart :: "u32 \<Rightarrow> nat \<Rightarrow> u32 \<Rightarrow> nat \<Rightarrow> bool" where
  "apart s n t k \<longleftrightarrow> (\<forall>i < n. \<forall>j < k. s + word_of_nat i \<noteq> t + word_of_nat j)"

lemma apart_Suc:
  "apart s (Suc n) t (Suc k) \<Longrightarrow> apart (s + 1) n (t + 1) k \<and> (\<forall>j < Suc k. s \<noteq> t + word_of_nat j)"
proof
  assume *: "apart s (Suc n) t (Suc k)"
  show "apart (s + 1) n (t + 1) k"
    unfolding apart_def
  proof (intro allI impI)
    fix i j assume "i < n" "j < k"
    then have "s + word_of_nat (Suc i) \<noteq> t + word_of_nat (Suc j)"
      using * unfolding apart_def by blast
    then show "s + 1 + word_of_nat i \<noteq> t + 1 + word_of_nat j" by (simp add: add.assoc)
  qed
  have "\<forall>j < Suc k. s + word_of_nat 0 \<noteq> t + word_of_nat j"
    using * unfolding apart_def by blast
  then show "\<forall>j < Suc k. s \<noteq> t + word_of_nat j" by simp
qed

lemma name_field_cong:
  "(\<And>j. j < n \<Longrightarrow> m (t + word_of_nat j) = m' (t + word_of_nat j)) \<Longrightarrow> name_field m t n = name_field m' t n"
proof -
  assume *: "\<And>j. j < n \<Longrightarrow> m (t + word_of_nat j) = m' (t + word_of_nat j)"
  then have "bytes m t n = bytes m' t n" by (simp add: bytes_def)
  then show ?thesis by (simp add: name_field_def)
qed

lemma apart_skip: "apart s (Suc n) t (Suc k) \<Longrightarrow> j < Suc k \<Longrightarrow> (m(s := c)) (t + word_of_nat j) = m (t + word_of_nat j)"
  using apart_Suc [of s n t k] by (metis fun_upd_other)

text \<open>The loops of \<^verbatim>\<open>strncpy\<close> and \<^verbatim>\<open>safestrcpy\<close>, one byte at a time.\<close>

lemma strncpy_Suc:
  "strncpy m s t (int (Suc n)) =
     (if m t = 0 then zero_fill (m(s := 0)) (s + 1) n
      else strncpy (m(s := m t)) (s + 1) (t + 1) (int n))"
  unfolding strncpy_def nat_int by (simp add: Let_def)

lemma safestrcpy_1: "safestrcpy m s t (int (Suc 0)) = m(s := 0)"
  by (simp add: safestrcpy_def)

lemma safestrcpy_Suc:
  "safestrcpy m s t (int (Suc (Suc k))) =
     (if m t = 0 then m(s := 0, s + 1 := 0)
      else safestrcpy (m(s := m t)) (s + 1) (t + 1) (int (Suc k)))"
proof -
  have "nat (int (Suc (Suc k)) - 1) = Suc k" "nat (int (Suc k) - 1) = k" by simp_all
  then show ?thesis by (simp add: safestrcpy_def Let_def)
qed

lemma strncpy_frame: "n \<le> dist s a \<Longrightarrow> strncpy m s t (int n) a = m a"
proof (induction n arbitrary: m s t)
  case (Suc n)
  then have "a \<noteq> s" by auto
  then show ?case
    using Suc dist_Suc [of a s] unfolding strncpy_Suc by (simp add: zero_fill_at)
qed (simp add: strncpy_def)

lemma safestrcpy_frame: "Suc k \<le> dist s a \<Longrightarrow> safestrcpy m s t (int (Suc k)) a = m a"
proof (induction k arbitrary: m s t)
  case (Suc k)
  then have ne: "a \<noteq> s" by auto
  then have "a \<noteq> s + 1" using Suc.prems dist_Suc [of a s] by auto
  then show ?case
    using Suc dist_Suc [OF ne] ne unfolding safestrcpy_Suc by simp
next
  case 0
  then show ?case unfolding safestrcpy_1 by auto
qed

lemma strncpy_field:
  assumes "apart s n t n" "n < 2 ^ 32"
  shows "name_field (strncpy m s t (int n)) s n = name_field m t n"
  using assms
proof (induction n arbitrary: m s t)
  case (Suc n)
  let ?m = "m(s := m t)"
  have far: "n \<le> dist (s + 1) s" using Suc.prems(2) by (simp add: dist_Suc_self)
  have "?m (t + 1 + word_of_nat j) = m (t + 1 + word_of_nat j)" if "j < n" for j
    using apart_skip [OF Suc.prems(1), of "Suc j" m "m t"] that by (simp add: add.assoc)
  then have "name_field ?m (t + 1) n = name_field m (t + 1) n" by (rule name_field_cong)
  moreover have "name_field (strncpy ?m (s + 1) (t + 1) (int n)) (s + 1) n = name_field ?m (t + 1) n"
    by (rule Suc.IH) (use apart_Suc [OF Suc.prems(1)] Suc.prems(2) in simp_all)
  ultimately show ?case
    unfolding strncpy_Suc using strncpy_frame [OF far, of ?m "t + 1"]
    by (simp add: zero_fill_at)
qed simp

lemma safestrcpy_str:
  assumes "apart s (Suc k) t (Suc k)" "Suc k < 2 ^ 32"
  shows "str_at (safestrcpy m s t (int (Suc k))) s (name_field m t k)"
  using assms
proof (induction k arbitrary: m s t)
  case (Suc k)
  let ?m = "m(s := m t)"
  have far: "Suc k \<le> dist (s + 1) s" using Suc.prems(2) by (simp add: dist_Suc_self)
  have "?m (t + 1 + word_of_nat j) = m (t + 1 + word_of_nat j)" if "j < k" for j
    using apart_skip [OF Suc.prems(1), of "Suc j" m "m t"] that by (simp add: add.assoc)
  then have "name_field ?m (t + 1) k = name_field m (t + 1) k" by (rule name_field_cong)
  moreover have "str_at (safestrcpy ?m (s + 1) (t + 1) (int (Suc k))) (s + 1) (name_field ?m (t + 1) k)"
    by (rule Suc.IH) (use apart_Suc [OF Suc.prems(1)] Suc.prems(2) in simp_all)
  ultimately show ?case
    unfolding safestrcpy_Suc using safestrcpy_frame [OF far, of ?m "t + 1"] by simp
next
  case 0
  then show ?case unfolding safestrcpy_1 by simp
qed

section \<open>Properties\<close>

text \<open>
  \<^verbatim>\<open>memset\<close> writes the low byte of \<open>c\<close> to exactly the \<open>n\<close> bytes from \<open>dst\<close>: the fast path
  that stores aligned 32-bit words (\<^verbatim>\<open>stosl\<close>) has the effect of the byte-wise one.
\<close>

theorem memset_fills: "memset m dst c n = (\<lambda>a. if dist dst a < unat n then ucast c else m a)"
  by (rule ext) (simp add: memset_stosb stosb_at)

text \<open>
  C36. \<^verbatim>\<open>memmove\<close> copies the \<open>n\<close> bytes at \<open>src\<close> to \<open>dst\<close> and changes nothing else, also when
  the two regions overlap either way, as long as neither runs over the end of the address space.
\<close>

theorem memmove_copies:
  assumes "unat src + unat n < 2 ^ 32" "unat dst + unat n \<le> 2 ^ 32"
  shows "memmove m dst src n = (\<lambda>a. if dist dst a < unat n then m (src + (a - dst)) else m a)"
  by (rule ext) (rule memmove_at [OF assms])

theorem memmove_copies_witness:
  "bytes (memmove (\<lambda>a. ucast a) 12 10 5) 12 5 = [10, 11, 12, 13, 14] \<and>
   bytes (memmove (\<lambda>a. ucast a) 10 12 5) 10 5 = [12, 13, 14, 15, 16]"
  using memmove_copies [of 10 5 12 ucast] memmove_copies [of 12 5 10 ucast]
  by (simp add: bytes_def dist_def upt_rec)

text \<open>
  C37. \<^verbatim>\<open>safestrcpy\<close> with a positive size leaves a NUL-terminated string of at most \<open>n - 1\<close>
  characters, the longest prefix of the source that fits, and writes nothing outside the \<open>n\<close>
  bytes of the destination.
\<close>

theorem safestrcpy_truncates:
  assumes "0 < n" "n < 2 ^ 31" "apart s (nat n) t (nat n)"
  shows "str_at (safestrcpy m s t n) s (name_field m t (nat n - 1)) \<and>
         (\<forall>a. dist s a < nat n \<or> safestrcpy m s t n a = m a)"
proof -
  obtain k where k: "n = int (Suc k)" using assms(1) by (metis zero_less_imp_eq_int Suc_pred)
  then have "Suc k < 2 ^ 32" using assms(2) by simp
  then show ?thesis
    using safestrcpy_str [of s k t m] safestrcpy_frame [of k s _ m t] assms(3)
    unfolding k nat_int diff_Suc_1 by (meson not_less)
qed

lemma apart_code [code]:
  "apart s n t k \<longleftrightarrow> list_all (\<lambda>i. list_all (\<lambda>j. s + word_of_nat i \<noteq> t + word_of_nat j) [0..<k]) [0..<n]"
  by (auto simp: apart_def list_all_iff)

theorem safestrcpy_truncates_witness:
  "str_at (safestrcpy (\<lambda>a. ucast a) 40 97 4) 40 [97, 98, 99] \<and> safestrcpy (\<lambda>a. ucast a) 40 97 4 44 = 44"
  using safestrcpy_truncates [of 4 40 97 ucast]
  by (auto simp: apart_code upt_rec name_field_def bytes_def dist_def dest: spec [of _ 44])

text \<open>
  C38. Copying a name into a fixed-size field with \<^verbatim>\<open>strncpy\<close> (as \<^verbatim>\<open>dirlink\<close> does) and comparing
  the field with the name by \<^verbatim>\<open>strncmp\<close> (as \<^verbatim>\<open>namecmp\<close> does) finds them equal, and comparing
  it with any other name finds them equal only if the names agree on the field's length.
\<close>

theorem strncpy_strncmp:
  assumes "apart s (unat n) t (unat n)" "apart s (unat n) u (unat n)"
  shows "strncmp (strncpy m s t (uint n)) s u n = 0 \<longleftrightarrow>
         name_field m t (unat n) = name_field m u (unat n)"
proof -
  have n: "unat n < 2 ^ 32" using unsigned_less [of n] by simp
  have un: "uint n = int (unat n)" by simp
  have "strncpy m s t (int (unat n)) (u + word_of_nat j) = m (u + word_of_nat j)" if "j < unat n" for j
  proof (rule strncpy_frame, rule ccontr)
    assume "\<not> unat n \<le> dist s (u + word_of_nat j)"
    then have "s + word_of_nat (dist s (u + word_of_nat j)) \<noteq> u + word_of_nat j"
      using assms(2) that unfolding apart_def by (meson not_le)
    then show False using dist_addr [of s "u + word_of_nat j"] by simp
  qed
  then have "name_field (strncpy m s t (int (unat n))) u (unat n) = name_field m u (unat n)"
    by (rule name_field_cong)
  then show ?thesis
    unfolding un strncmp_def strncmp_loop_zero strncpy_field [OF assms(1) n] by simp
qed

theorem strncpy_strncmp_witness:
  "strncmp (strncpy (\<lambda>a. if a = 70 then 7 else if a = 71 then 0 else ucast a) 40 70 3) 40 70 3 = 0 \<and>
   strncmp (strncpy (\<lambda>a. if a = 70 then 7 else if a = 71 then 0 else ucast a) 40 70 3) 40 60 3 \<noteq> 0"
  using strncpy_strncmp [of 40 3 70 70 "\<lambda>a. if a = 70 then 7 else if a = 71 then 0 else ucast a"]
    strncpy_strncmp [of 40 3 70 60 "\<lambda>a. if a = 70 then 7 else if a = 71 then 0 else ucast a"]
  by (simp add: apart_code upt_rec name_field_def bytes_def)

end
