(* ===== verification/Kalloc.thy ===== *)
theory Kalloc
  imports Cprintf Cstring
begin

text \<open>
  The physical page allocator, \<^verbatim>\<open>src/kalloc.c\<close>, over the kernel's view of memory. The free
  list is threaded through the free pages themselves: the first word of a free page is the
  address of the next one. \<^verbatim>\<open>end\<close>, the first address after the loaded kernel, is fixed by the
  linker and is part of the state, as is \<^verbatim>\<open>data\<close>, which \<^verbatim>\<open>src/vm.c\<close> uses.
\<close>

definition PGSIZE :: u32 where "PGSIZE = 4096"
definition KERNBASE :: u32 where "KERNBASE = 0x80000000"
definition PHYSTOP :: u32 where "PHYSTOP = 0xE000000"
definition EXTMEM :: u32 where "EXTMEM = 0x100000"
definition DEVSPACE :: u32 where "DEVSPACE = 0xFE000000"
definition V2P :: "u32 \<Rightarrow> u32" where "V2P a = a - KERNBASE"
definition P2V :: "u32 \<Rightarrow> u32" where "P2V a = a + KERNBASE"
definition PGROUNDUP :: "u32 \<Rightarrow> u32" where "PGROUNDUP sz = (sz + PGSIZE - 1) AND NOT (PGSIZE - 1)"
definition PGROUNDDOWN :: "u32 \<Rightarrow> u32" where "PGROUNDDOWN a = a AND NOT (PGSIZE - 1)"

record mkst = ckst +
  pmem :: mem
  kmem_use_lock :: bool
  freelist :: u32
  kernel_end :: u32
  kernel_data :: u32

section \<open>Operations\<close>

definition kfree_bad :: "u32 \<Rightarrow> u32 \<Rightarrow> bool" where
  "kfree_bad kend v \<longleftrightarrow> v mod PGSIZE \<noteq> 0 \<or> v < kend \<or> V2P v \<ge> PHYSTOP"

definition kmem_acquire :: "nat \<Rightarrow> 'e mkst_scheme \<Rightarrow> (unit, 'e mkst_scheme) res" where
  "kmem_acquire a s = (if kmem_use_lock s then acquire a KmemLock s else Ok () s)"

definition kmem_release :: "nat \<Rightarrow> 'e mkst_scheme \<Rightarrow> (unit, 'e mkst_scheme) res" where
  "kmem_release a s = (if kmem_use_lock s then release a KmemLock s else Ok () s)"

definition kfree :: "nat \<Rightarrow> u32 \<Rightarrow> 'e mkst_scheme \<Rightarrow> (unit, 'e mkst_scheme) res" where
  "kfree a v s =
     (if kfree_bad (kernel_end s) v then Panic ''kfree''
      else
        let s = s\<lparr>pmem := memset (pmem s) v 1 PGSIZE\<rparr> in
        bnd (kmem_acquire a s) (\<lambda>_ s.
        let s = s\<lparr>pmem := store32 (pmem s) v (freelist s)\<rparr>;
            s = s\<lparr>freelist := v\<rparr>
        in kmem_release a s))"

definition kalloc :: "nat \<Rightarrow> 'e mkst_scheme \<Rightarrow> (u32, 'e mkst_scheme) res" where
  "kalloc a s =
     bnd (kmem_acquire a s) (\<lambda>_ s.
     let r = freelist s;
         s = (if r \<noteq> 0 then s\<lparr>freelist := load32 (pmem s) r\<rparr> else s) in
     bnd (kmem_release a s) (\<lambda>_ s. Ok r s))"

lemma kfree_OkD: "kfree a v s = Ok x t \<Longrightarrow> \<not> kfree_bad (kernel_end s) v"
  by (auto simp: kfree_def)

text \<open>Addresses of physical memory in the kernel's window, as natural numbers.\<close>

lemma kernel_window:
  assumes "V2P v < PHYSTOP"
  shows "unat v = 0x80000000 + unat (V2P v)"
proof -
  have lt: "unat (V2P v) < 0xE000000" using assms by (simp add: PHYSTOP_def word_less_nat_alt)
  have "v = KERNBASE + V2P v" by (simp add: V2P_def)
  moreover have "unat (KERNBASE + V2P v) = unat KERNBASE + unat (V2P v)"
    using unat_add_lem [of KERNBASE "V2P v"] lt by (simp add: KERNBASE_def)
  ultimately show ?thesis by (simp add: KERNBASE_def)
qed

lemma page_aligned_nat: "v mod PGSIZE = 0 \<longleftrightarrow> 4096 dvd unat v"
proof -
  have "v mod PGSIZE = 0 \<longleftrightarrow> unat (v mod PGSIZE) = 0" by (simp add: unat_eq_0)
  also have "unat (v mod PGSIZE) = unat v mod 4096" unfolding unat_mod by (simp add: PGSIZE_def)
  finally show ?thesis by (simp add: mod_eq_0_iff_dvd)
qed

lemma aligned_diff: fixes p v :: u32
  assumes "4096 dvd unat p" "4096 dvd unat v" shows "4096 dvd unat (p - v)"
proof (cases "v \<le> p")
  case True
  then show ?thesis using assms by (simp add: unat_sub dvd_diff_nat)
next
  case False
  then have "unat (p - v) = unat p + 2 ^ 32 - unat v" by (simp add: unat_diff_wrap)
  moreover have "4096 dvd unat p + 2 ^ 32" using assms(1) by (rule dvd_add) simp
  ultimately show ?thesis using assms(2) by (simp only: dvd_diff_nat)
qed

lemma freerange_progress:
  assumes "\<not> kfree_bad kend p"
  shows "unat (KERNBASE + PHYSTOP - (p + PGSIZE)) < unat (KERNBASE + PHYSTOP - p)"
proof -
  have lt: "V2P p < PHYSTOP" and al: "4096 dvd unat p"
    using assms by (simp_all add: kfree_bad_def not_le page_aligned_nat)
  have ltn: "unat (V2P p) < 0xE000000" using lt by (simp add: PHYSTOP_def word_less_nat_alt)
  let ?x = "KERNBASE + PHYSTOP - p"
  have e: "?x = PHYSTOP - V2P p" by (simp add: V2P_def)
  have "unat ?x = 0xE000000 - unat (V2P p)"
    unfolding e using unat_sub [OF less_imp_le [OF lt]] by (simp add: PHYSTOP_def)
  moreover have "unat (V2P p) + 4096 \<le> 0xE000000"
  proof -
    from al obtain k where k: "unat p = 4096 * k" by blast
    then have "4096 * k < 4096 * 581632" using kernel_window [OF lt] ltn by linarith
    then have "k + 1 \<le> 581632" by simp
    then show ?thesis using k kernel_window [OF lt] by linarith
  qed
  ultimately have "unat PGSIZE \<le> unat ?x" by (simp add: PGSIZE_def)
  then have "unat (?x - PGSIZE) = unat ?x - unat PGSIZE" by (simp add: unat_sub word_le_nat_alt)
  moreover have e2: "KERNBASE + PHYSTOP - (p + PGSIZE) = ?x - PGSIZE" by (simp add: diff_diff_eq)
  moreover have "0 < unat PGSIZE" by (simp add: PGSIZE_def)
  ultimately show ?thesis unfolding e2 using \<open>unat PGSIZE \<le> unat ?x\<close> by linarith
qed

function freerange_loop :: "nat \<Rightarrow> u32 \<Rightarrow> u32 \<Rightarrow> 'e mkst_scheme \<Rightarrow> (unit, 'e mkst_scheme) res" where
  "freerange_loop a p vend s =
     (if p + PGSIZE \<le> vend then bnd (kfree a p s) (\<lambda>_ s. freerange_loop a (p + PGSIZE) vend s)
      else Ok () s)"
  by pat_completeness auto
termination
  by (relation "measure (\<lambda>(a, p, vend, s). unat (KERNBASE + PHYSTOP - p))")
     (auto dest!: kfree_OkD intro!: freerange_progress)

definition freerange :: "nat \<Rightarrow> u32 \<Rightarrow> u32 \<Rightarrow> 'e mkst_scheme \<Rightarrow> (unit, 'e mkst_scheme) res" where
  "freerange a vstart vend s = freerange_loop a (PGROUNDUP vstart) vend s"

definition kinit1 :: "nat \<Rightarrow> u32 \<Rightarrow> u32 \<Rightarrow> 'e mkst_scheme \<Rightarrow> (unit, 'e mkst_scheme) res" where
  "kinit1 a vstart vend s =
     freerange a vstart vend (s\<lparr>mach := initlock KmemLock ''kmem'' (mach s), kmem_use_lock := False\<rparr>)"

definition kinit2 :: "nat \<Rightarrow> u32 \<Rightarrow> u32 \<Rightarrow> 'e mkst_scheme \<Rightarrow> (unit, 'e mkst_scheme) res" where
  "kinit2 a vstart vend s =
     bnd (freerange a vstart vend s) (\<lambda>_ s. Ok () (s\<lparr>kmem_use_lock := True\<rparr>))"

section \<open>Effects\<close>

definition can_kmem :: "nat \<Rightarrow> 'e mkst_scheme \<Rightarrow> bool" where
  "can_kmem a s \<longleftrightarrow> ready a s \<and> (kmem_use_lock s \<longrightarrow> free KmemLock s)"

definition ksettle :: "nat \<Rightarrow> 'e mkst_scheme \<Rightarrow> 'e mkst_scheme" where
  "ksettle a s = s\<lparr>mach := (if kmem_use_lock s then settle a (mach s) else mach s)\<rparr>"

definition kfreed :: "u32 \<Rightarrow> 'e mkst_scheme \<Rightarrow> 'e mkst_scheme" where
  "kfreed v s = s\<lparr>pmem := store32 (memset (pmem s) v 1 PGSIZE) v (freelist s), freelist := v\<rparr>"

definition kalloced :: "'e mkst_scheme \<Rightarrow> 'e mkst_scheme" where
  "kalloced s = (if freelist s \<noteq> 0 then s\<lparr>freelist := load32 (pmem s) (freelist s)\<rparr> else s)"

lemma kfree_ok [lock_simps]:
  assumes "can_kmem a s" "\<not> kfree_bad (kernel_end s) v"
  shows "kfree a v s = Ok () (ksettle a (kfreed v s))"
  using assms
  by (cases "kmem_use_lock s")
     (auto simp: kfree_def can_kmem_def kmem_acquire_def kmem_release_def Let_def acquire_kst
      release_kst [of _ _ _ "mach s"] ksettle_def kfreed_def)

lemma kalloc_ok [lock_simps]:
  assumes "can_kmem a s"
  shows "kalloc a s = Ok (freelist s) (ksettle a (kalloced s))"
  using assms
  by (cases "kmem_use_lock s")
     (auto simp: kalloc_def can_kmem_def kmem_acquire_def kmem_release_def Let_def acquire_kst
      release_kst [of _ _ _ "mach s"] ksettle_def kalloced_def)

lemma kalloced_fields [simp]:
  "mach (kalloced s) = mach s" "pmem (kalloced s) = pmem s" "kmem_use_lock (kalloced s) = kmem_use_lock s"
  "kernel_end (kalloced s) = kernel_end s" "mkst.more (kalloced s) = mkst.more s"
  by (simp_all add: kalloced_def)

lemma kfreed_fields [simp]:
  "mach (kfreed v s) = mach s" "kmem_use_lock (kfreed v s) = kmem_use_lock s"
  "kernel_end (kfreed v s) = kernel_end s" "mkst.more (kfreed v s) = mkst.more s"
  "freelist (kfreed v s) = v"
  by (simp_all add: kfreed_def)

lemma ksettle_fields [simp]:
  "pmem (ksettle a s) = pmem s" "freelist (ksettle a s) = freelist s" "kmem_use_lock (ksettle a s) = kmem_use_lock s"
  "kernel_end (ksettle a s) = kernel_end s" "mkst.more (ksettle a s) = mkst.more s"
  "mach (ksettle a s) = (if kmem_use_lock s then settle a (mach s) else mach s)"
  by (simp_all add: ksettle_def)

lemma can_kmem_steps [simp]:
  "can_kmem a (ksettle a s) = can_kmem a s" "can_kmem a (kalloced s) = can_kmem a s"
  "can_kmem a (kfreed v s) = can_kmem a s"
  by (auto simp: can_kmem_def)

section \<open>The free list\<close>

fun chain :: "mem \<Rightarrow> u32 \<Rightarrow> u32 list \<Rightarrow> bool" where
  "chain m p [] \<longleftrightarrow> p = 0"
| "chain m p (v # vs) \<longleftrightarrow> p = v \<and> v \<noteq> 0 \<and> chain m (load32 m v) vs"

definition kmem_inv :: "nat \<Rightarrow> 'e mkst_scheme \<Rightarrow> u32 list \<Rightarrow> bool" where
  "kmem_inv a s vs \<longleftrightarrow> can_kmem a s \<and> chain (pmem s) (freelist s) vs \<and> distinct vs \<and>
     list_all (\<lambda>v. \<not> kfree_bad (kernel_end s) v) vs"

lemma load32_store32 [simp]: "load32 (store32 m p w) p = w"
proof -
  have "p + 1 \<noteq> p + 2" "p + 1 \<noteq> p + 3" "p + 2 \<noteq> p + 3" "p \<noteq> p + 1" "p \<noteq> p + 2" "p \<noteq> p + 3"
    by simp_all
  moreover have "ucast (ucast w :: u8) OR push_bit 8 (ucast (ucast (drop_bit 8 w) :: u8))
     OR push_bit 16 (ucast (ucast (drop_bit 16 w) :: u8)) OR push_bit 24 (ucast (ucast (drop_bit 24 w) :: u8)) = w"
    (is "?w = w")
  proof (rule bit_word_eqI)
    fix n assume "n < LENGTH(32)"
    then consider "n < 8" | "8 \<le> n" "n < 16" | "16 \<le> n" "n < 24" | "24 \<le> n" "n < 32"
      by fastforce
    then show "bit ?w n \<longleftrightarrow> bit w n" by cases (simp_all add: bit_simps, auto)
  qed
  ultimately show ?thesis by (simp add: load32_def store32_def)
qed

lemma load32_cong:
  "m p = m' p \<Longrightarrow> m (p + 1) = m' (p + 1) \<Longrightarrow> m (p + 2) = m' (p + 2) \<Longrightarrow> m (p + 3) = m' (p + 3)
   \<Longrightarrow> load32 m p = load32 m' p"
  by (simp add: load32_def)

lemma pages_apart:
  assumes "v mod PGSIZE = 0" "p mod PGSIZE = 0" "p \<noteq> v" "k < 4096"
  shows "4096 \<le> dist v (p + word_of_nat k)"
proof -
  let ?d = "p - v"
  have "4096 dvd unat ?d"
    using assms(1,2) by (intro aligned_diff) (simp_all add: page_aligned_nat)
  then obtain j where j: "unat ?d = 4096 * j" by blast
  have "unat ?d \<noteq> 0" using assms(3) by (simp add: unat_eq_0)
  moreover have "unat ?d < 2 ^ 32" using unsigned_less [of ?d] by simp
  ultimately have "0 < j" "4096 * j < 4096 * 2 ^ 20" using j by simp_all
  then have "1 \<le> j" "j + 1 \<le> 2 ^ 20" by simp_all
  then have lt: "unat ?d + k < 2 ^ 32" "4096 \<le> unat ?d" using j assms(4) by simp_all
  have k: "unat (word_of_nat k :: u32) = k" using assms(4) by (simp add: unat_of_nat)
  have "unat (?d + word_of_nat k) = unat ?d + k"
    using unat_add_lem [of ?d "word_of_nat k"] lt(1) k by simp
  moreover have e: "p + word_of_nat k - v = ?d + word_of_nat k" by simp
  ultimately show ?thesis unfolding dist_def e using lt(2) by linarith
qed

lemma store32_at: 
 assumes "4 \<le> dist v a" shows "store32 m v w a = m a"
proof -
  have "dist v (v + 1) = 1" "dist v (v + 2) = 2" "dist v (v + 3) = 3" by (simp_all add: dist_def)
  then have "a \<noteq> v + 1" "a \<noteq> v + 2" "a \<noteq> v + 3" "a \<noteq> v" using assms by auto
  then show ?thesis by (simp add: store32_def)
qed
lemma chain_cong:
  "(\<And>v. v \<in> set vs \<Longrightarrow> load32 m v = load32 m' v) \<Longrightarrow> chain m p vs = chain m' p vs"
  by (induction vs arbitrary: p) auto

lemma kfree_frame: "4096 \<le> dist v a \<Longrightarrow> pmem (kfreed v s) a = pmem s a"
  by (simp add: kfreed_def store32_at memset_stosb stosb_at PGSIZE_def)

lemma kfree_bad_nonzero: "\<not> kfree_bad e v \<Longrightarrow> v \<noteq> 0"
  by (auto simp: kfree_bad_def V2P_def KERNBASE_def PHYSTOP_def)

lemma kmem_inv_kfreed:
  assumes "kmem_inv a s vs" "\<not> kfree_bad (kernel_end s) v" "v \<notin> set vs"
  shows "kmem_inv a (ksettle a (kfreed v s)) (v # vs)"
proof -
  have al: "\<not> kfree_bad (kernel_end s) p \<Longrightarrow> p mod PGSIZE = 0" for p by (simp add: kfree_bad_def)
  have "load32 (pmem (kfreed v s)) p = load32 (pmem s) p" if "p \<in> set vs" for p
  proof -
    have "p mod PGSIZE = 0" "p \<noteq> v"
      using that assms al by (auto simp: kmem_inv_def list_all_iff)
    note pv = this
    have far: "4096 \<le> dist v (p + word_of_nat k)" if "k < 4096" for k
      by (rule pages_apart [OF al [OF assms(2)] pv that])
    show ?thesis
      using far [of 0] far [of 1] far [of 2] far [of 3] by (intro load32_cong) (simp_all add: kfree_frame)
  qed
  then have "chain (pmem (kfreed v s)) (freelist s) vs"
    using assms(1) chain_cong [of vs "pmem (kfreed v s)" "pmem s"] by (simp add: kmem_inv_def)
  moreover have "load32 (pmem (kfreed v s)) v = freelist s" by (simp add: kfreed_def)
  ultimately show ?thesis
    using assms kfree_bad_nonzero [OF assms(2)] by (simp add: kmem_inv_def)
qed

lemma kmem_inv_kalloced:
  "kmem_inv a s (v # vs) \<Longrightarrow> freelist s = v \<and> kmem_inv a (ksettle a (kalloced s)) vs"
  by (auto simp: kmem_inv_def) (simp_all add: kalloced_def)

lemma kmem_inv_empty:
  "kmem_inv a s [] \<Longrightarrow> freelist s = 0 \<and> kmem_inv a (ksettle a (kalloced s)) []"
  by (auto simp: kmem_inv_def) (simp_all add: kalloced_def)

section \<open>The interface of a page allocator\<close>

text \<open>
  What the rest of the kernel relies on: the allocator owns a list of distinct pages, hands out
  one it owns or 0 when it has none, and takes a page back that it does not own.
\<close>

locale page_allocator =
  fixes alloc :: "'s \<Rightarrow> (u32, 's) res"
    and dealloc :: "u32 \<Rightarrow> 's \<Rightarrow> (unit, 's) res"
    and owns :: "'s \<Rightarrow> u32 list \<Rightarrow> bool"
    and page :: "'s \<Rightarrow> u32 \<Rightarrow> bool"
  assumes owns_distinct: "owns s vs \<Longrightarrow> distinct vs"
    and owns_page: "owns s vs \<Longrightarrow> v \<in> set vs \<Longrightarrow> page s v"
    and page_nonzero: "page s v \<Longrightarrow> v \<noteq> 0"
    and alloc_none: "owns s [] \<Longrightarrow> \<exists>t. alloc s = Ok 0 t \<and> owns t [] \<and> page t = page s"
    and alloc_some: "owns s (v # vs) \<Longrightarrow> \<exists>t. alloc s = Ok v t \<and> owns t vs \<and> page t = page s"
    and dealloc_page: "owns s vs \<Longrightarrow> page s v \<Longrightarrow> v \<notin> set vs \<Longrightarrow>
          \<exists>t. dealloc v s = Ok () t \<and> owns t (v # vs) \<and> page t = page s"
    and dealloc_bad: "\<not> page s v \<Longrightarrow> dealloc v s = Panic ''kfree''"
begin

text \<open>Allocating until the request is met or memory runs out.\<close>

lemma alloc_total: "owns s vs \<Longrightarrow> \<exists>v t. alloc s = Ok v t \<and> (v = 0 \<longleftrightarrow> vs = []) \<and> owns t (tl vs)"
  using alloc_none alloc_some owns_page page_nonzero by (cases vs) fastforce+

lemma free_then_alloc:
  assumes "owns s vs" "page s v" "v \<notin> set vs"
  shows "\<exists>t. bnd (dealloc v s) (\<lambda>_ s. alloc s) = Ok v t \<and> owns t vs"
  using dealloc_page [OF assms] alloc_some by fastforce

lemma alloc_twice_distinct:
  assumes "owns s (v # w # vs)"
  shows "\<exists>t. bnd (alloc s) (\<lambda>x s. bnd (alloc s) (\<lambda>y s. Ok (x, y) s)) = Ok (v, w) t \<and> v \<noteq> w \<and> owns t vs"
  using alloc_some [OF assms] alloc_some owns_distinct [OF assms] by fastforce

end

interpretation kmem: page_allocator "kalloc a" "kfree a" "kmem_inv a" "\<lambda>s v. \<not> kfree_bad (kernel_end s) v" for a
proof
  fix s :: "'a mkst_scheme" and vs
  assume "kmem_inv a s []"
  then show "\<exists>t. kalloc a s = Ok 0 t \<and> kmem_inv a t [] \<and> (\<lambda>v. \<not> kfree_bad (kernel_end t) v) = (\<lambda>v. \<not> kfree_bad (kernel_end s) v)"
    using kmem_inv_empty [of a s] by (simp add: kalloc_ok kmem_inv_def)
next
  fix s :: "'a mkst_scheme" and v vs
  assume "kmem_inv a s (v # vs)"
  then show "\<exists>t. kalloc a s = Ok v t \<and> kmem_inv a t vs \<and> (\<lambda>v. \<not> kfree_bad (kernel_end t) v) = (\<lambda>v. \<not> kfree_bad (kernel_end s) v)"
    using kmem_inv_kalloced [of a s v vs] by (simp add: kalloc_ok kmem_inv_def)
next
  fix s :: "'a mkst_scheme" and v vs
  assume "kmem_inv a s vs" "\<not> kfree_bad (kernel_end s) v" "v \<notin> set vs"
  then show "\<exists>t. kfree a v s = Ok () t \<and> kmem_inv a t (v # vs) \<and> (\<lambda>v. \<not> kfree_bad (kernel_end t) v) = (\<lambda>v. \<not> kfree_bad (kernel_end s) v)"
    using kmem_inv_kfreed [of a s vs v] by (simp add: kfree_ok kmem_inv_def)
qed (auto simp: kmem_inv_def list_all_iff kfree_bad_nonzero kfree_def)

section \<open>Sequences of allocations\<close>

text \<open>
  The allocator together with its clients: \<open>live\<close> are the pages handed out and not given back.
  Clients free only pages they hold.
\<close>

inductive kmem_step :: "nat \<Rightarrow> 'e mkst_scheme \<times> u32 list \<Rightarrow> 'e mkst_scheme \<times> u32 list \<Rightarrow> bool"
  for a :: nat where
  step_alloc: "kalloc a s = Ok v t \<Longrightarrow> v \<noteq> 0 \<Longrightarrow> kmem_step a (s, live) (t, v # live)"
| step_empty: "kalloc a s = Ok 0 t \<Longrightarrow> kmem_step a (s, live) (t, live)"
| step_free: "v \<in> set live \<Longrightarrow> kfree a v s = Ok () t \<Longrightarrow> kmem_step a (s, live) (t, remove1 v live)"

definition partitioned :: "nat \<Rightarrow> u32 set \<Rightarrow> 'e mkst_scheme \<times> u32 list \<Rightarrow> bool" where
  "partitioned a P c \<longleftrightarrow> (case c of (s, live) \<Rightarrow>
     \<exists>vs. kmem_inv a s vs \<and> distinct (live @ vs) \<and> set (live @ vs) = P \<and>
       list_all (\<lambda>v. \<not> kfree_bad (kernel_end s) v) live)"

lemma partitioned_step:
  assumes "partitioned a P c" "kmem_step a c d"
  shows "partitioned a P d"
proof -
  obtain s live where c: "c = (s, live)" by (cases c)
  from assms(1) obtain vs where vs: "kmem_inv a s vs" "distinct (live @ vs)" "set (live @ vs) = P"
    and ok: "list_all (\<lambda>v. \<not> kfree_bad (kernel_end s) v) live"
    by (auto simp: partitioned_def c)
  from assms(2) [unfolded c] show ?thesis
  proof cases
    case (step_alloc v t)
    then obtain ws where "vs = v # ws" using kmem.alloc_none vs(1) by (cases vs) (fastforce dest: kmem.alloc_some)+
    with kmem.alloc_some [of a s v ws] vs ok step_alloc show ?thesis
      by (auto simp: partitioned_def kmem_inv_def list_all_iff fun_eq_iff intro!: exI [of _ ws])
  next
    case (step_empty t)
    then have "vs = []" using vs(1) kmem.alloc_some [of a s] kmem.owns_page [OF vs(1)] kmem.page_nonzero
      by (cases vs) fastforce+
    with kmem.alloc_none [of a s] vs ok step_empty show ?thesis
      by (auto simp: partitioned_def list_all_iff fun_eq_iff)
  next
    case (step_free v t)
    then have "v \<notin> set vs" "\<not> kfree_bad (kernel_end s) v" using vs(2) ok by (auto simp: list_all_iff)
    with kmem.dealloc_page [OF vs(1), of v] vs ok step_free show ?thesis
      by (auto simp: partitioned_def list_all_iff fun_eq_iff intro!: exI [of _ "v # vs"])
  qed
qed

interpretation kmem_run: invariant_system "partitioned a P" "kmem_step a" "partitioned a P" for a P
  by unfold_locales (auto intro: partitioned_step)

text \<open>
  C14. However \<^verbatim>\<open>kalloc\<close> and \<^verbatim>\<open>kfree\<close> are interleaved, no page is handed out twice, none is
  lost and none is invented: the pages handed out and the pages on the free list stay a
  partition of the pages the allocator started with.
\<close>

theorem kalloc_partition:
  assumes "kmem_inv a s vs" "(kmem_step a)\<^sup>*\<^sup>* (s, []) (t, live)"
  shows "\<exists>ws. kmem_inv a t ws \<and> distinct (live @ ws) \<and> set (live @ ws) = set vs"
proof -
  have "partitioned a (set vs) (s, [])" using assms(1) by (auto simp: partitioned_def kmem_inv_def)
  then have "partitioned a (set vs) (t, live)" by (rule kmem_run.reachable_inv) (rule assms(2))
  then show ?thesis by (auto simp: partitioned_def)
qed

definition two_pages :: mkst where
  "two_pages = \<lparr>mach = one_cpu None, cons_locking = True, cons_out = [],
     pmem = store32 (\<lambda>_. 0) 0x80500000 0x80501000, kmem_use_lock = True, freelist = 0x80500000,
     kernel_end = 0x80115000, kernel_data = 0x80108000\<rparr>"

lemma two_pages_inv: "kmem_inv 0 two_pages [0x80500000, 0x80501000]"
proof -
  have "load32 (store32 (\<lambda>_. 0) 0x80500000 0x80501000) 0x80501000 = 0"
    by (simp add: load32_def store32_def)
  then show ?thesis
    by (simp add: kmem_inv_def two_pages_def can_kmem_def kfree_bad_def PGSIZE_def V2P_def
        KERNBASE_def PHYSTOP_def)
qed

theorem kalloc_partition_witness:
  "\<exists>t ws. kalloc 0 two_pages = Ok 0x80500000 t \<and> kmem_inv 0 t ws \<and> distinct (0x80500000 # ws) \<and>
     set (0x80500000 # ws) = {0x80500000, 0x80501000}"
proof -
  obtain t where t: "kalloc 0 two_pages = Ok 0x80500000 t"
    using kmem.alloc_some [OF two_pages_inv] by blast
  then have "(kmem_step 0)\<^sup>*\<^sup>* (two_pages, []) (t, [0x80500000])"
    by (intro r_into_rtranclp step_alloc) simp_all
  from kalloc_partition [OF two_pages_inv this] t show ?thesis by auto
qed

end
