(* ===== verification/Vm.thy ===== *)
theory Vm
  imports Kalloc
begin

text \<open>
  Page tables, \<^verbatim>\<open>src/vm.c\<close>, with the address macros of \<^verbatim>\<open>src/mmu.h\<close>. Page directories and page
  tables are pages of kernel memory; their entries are read and written as 32-bit words.
  A null pointer is 0. \<open>fuel\<close> bounds the loops over pages by the number of pages of the
  address space; running out of it is the outcome of a loop that would not end.
  \<^verbatim>\<open>switchuvm\<close> is with the processes, \<^verbatim>\<open>loaduvm\<close> needs the file system.
\<close>

definition PTE_P :: u32 where "PTE_P = 0x001"
definition PTE_W :: u32 where "PTE_W = 0x002"
definition PTE_U :: u32 where "PTE_U = 0x004"
definition PTE_ADDR :: "u32 \<Rightarrow> u32" where "PTE_ADDR pte = pte AND NOT 0xFFF"
definition PTE_FLAGS :: "u32 \<Rightarrow> u32" where "PTE_FLAGS pte = pte AND 0xFFF"
definition PDX :: "u32 \<Rightarrow> u32" where "PDX va = drop_bit 22 va AND 0x3FF"
definition PTX :: "u32 \<Rightarrow> u32" where "PTX va = drop_bit 12 va AND 0x3FF"
definition PGADDR :: "u32 \<Rightarrow> u32 \<Rightarrow> u32 \<Rightarrow> u32" where
  "PGADDR d t ofs = push_bit 22 d OR push_bit 12 t OR ofs"

definition NPDENTRIES :: nat where "NPDENTRIES = 1024"
definition fuel :: nat where "fuel = 2 ^ 20"
definition no_fuel :: string where "no_fuel = ''loop does not end''"

record vkst = mkst +
  kpgdir :: u32

definition wr32 :: "u32 \<Rightarrow> u32 \<Rightarrow> 'e mkst_scheme \<Rightarrow> 'e mkst_scheme" where
  "wr32 p w s = s\<lparr>pmem := store32 (pmem s) p w\<rparr>"

definition rd32 :: "u32 \<Rightarrow> 'e mkst_scheme \<Rightarrow> u32" where
  "rd32 p s = load32 (pmem s) p"

definition walkpgdir :: "nat \<Rightarrow> u32 \<Rightarrow> u32 \<Rightarrow> bool \<Rightarrow> 'e mkst_scheme \<Rightarrow> (u32, 'e mkst_scheme) res" where
  "walkpgdir a pgdir va alloc s =
     (let pde = pgdir + 4 * PDX va in
      if rd32 pde s AND PTE_P \<noteq> 0 then Ok (P2V (PTE_ADDR (rd32 pde s)) + 4 * PTX va) s
      else if \<not> alloc then Ok 0 s
      else bnd (kalloc a s) (\<lambda>pgtab s.
        if pgtab = 0 then Ok 0 s
        else
          let s = s\<lparr>pmem := memset (pmem s) pgtab 0 PGSIZE\<rparr>;
              s = wr32 pde (V2P pgtab OR PTE_P OR PTE_W OR PTE_U) s
          in Ok (pgtab + 4 * PTX va) s))"

fun mappages_loop :: "nat \<Rightarrow> nat \<Rightarrow> u32 \<Rightarrow> u32 \<Rightarrow> u32 \<Rightarrow> u32 \<Rightarrow> u32 \<Rightarrow> 'e mkst_scheme
    \<Rightarrow> (int, 'e mkst_scheme) res" where
  "mappages_loop 0 a pgdir v lst pa perm s = Panic no_fuel"
| "mappages_loop (Suc n) a pgdir v lst pa perm s =
     bnd (walkpgdir a pgdir v True s) (\<lambda>pte s.
       if pte = 0 then Ok (- 1) s
       else if rd32 pte s AND PTE_P \<noteq> 0 then Panic ''remap''
       else
         let s = wr32 pte (pa OR perm OR PTE_P) s in
         if v = lst then Ok 0 s
         else mappages_loop n a pgdir (v + PGSIZE) lst (pa + PGSIZE) perm s)"

definition mappages :: "nat \<Rightarrow> u32 \<Rightarrow> u32 \<Rightarrow> u32 \<Rightarrow> u32 \<Rightarrow> u32 \<Rightarrow> 'e mkst_scheme
    \<Rightarrow> (int, 'e mkst_scheme) res" where
  "mappages a pgdir va sz pa perm s =
     mappages_loop fuel a pgdir (PGROUNDDOWN va) (PGROUNDDOWN (va + sz - 1)) pa perm s"

fun deallocuvm_loop :: "nat \<Rightarrow> nat \<Rightarrow> u32 \<Rightarrow> u32 \<Rightarrow> u32 \<Rightarrow> 'e mkst_scheme \<Rightarrow> (unit, 'e mkst_scheme) res" where
  "deallocuvm_loop 0 a pgdir v oldsz s = (if v < oldsz then Panic no_fuel else Ok () s)"
| "deallocuvm_loop (Suc n) a pgdir v oldsz s =
     (if v < oldsz then
        bnd (walkpgdir a pgdir v False s) (\<lambda>pte s.
        if pte = 0 then
          deallocuvm_loop n a pgdir (PGADDR (PDX v + 1) 0 0 - PGSIZE + PGSIZE) oldsz s
        else if rd32 pte s AND PTE_P \<noteq> 0 then
          let pa = PTE_ADDR (rd32 pte s) in
          if pa = 0 then Panic ''kfree''
          else bnd (kfree a (P2V pa) s) (\<lambda>_ s.
            deallocuvm_loop n a pgdir (v + PGSIZE) oldsz (wr32 pte 0 s))
        else deallocuvm_loop n a pgdir (v + PGSIZE) oldsz s)
      else Ok () s)"

definition deallocuvm :: "nat \<Rightarrow> u32 \<Rightarrow> u32 \<Rightarrow> u32 \<Rightarrow> 'e mkst_scheme \<Rightarrow> (u32, 'e mkst_scheme) res" where
  "deallocuvm a pgdir oldsz newsz s =
     (if newsz \<ge> oldsz then Ok oldsz s
      else bnd (deallocuvm_loop fuel a pgdir (PGROUNDUP newsz) oldsz s) (\<lambda>_ s. Ok newsz s))"

definition freevm :: "nat \<Rightarrow> u32 \<Rightarrow> 'e mkst_scheme \<Rightarrow> (unit, 'e mkst_scheme) res" where
  "freevm a pgdir s =
     (if pgdir = 0 then Panic ''freevm: no pgdir''
      else
        bnd (deallocuvm a pgdir KERNBASE 0 s) (\<lambda>_ s.
        bnd (forR [0..<NPDENTRIES] (\<lambda>i s.
               let e = rd32 (pgdir + 4 * word_of_nat i) s in
               if e AND PTE_P \<noteq> 0 then kfree a (P2V (PTE_ADDR e)) s else Ok () s) s) (\<lambda>_ s.
        kfree a pgdir s)))"

text \<open>The table \<^verbatim>\<open>kmap\<close>: virtual start, physical start and end, permissions.\<close>

definition kmap :: "u32 \<Rightarrow> (u32 \<times> u32 \<times> u32 \<times> u32) list" where
  "kmap data =
     [(KERNBASE, 0, EXTMEM, PTE_W),
      (KERNBASE + EXTMEM, V2P (KERNBASE + EXTMEM), V2P data, 0),
      (data, V2P data, PHYSTOP, PTE_W),
      (DEVSPACE, DEVSPACE, 0, PTE_W)]"

definition setupkvm :: "nat \<Rightarrow> 'e mkst_scheme \<Rightarrow> (u32, 'e mkst_scheme) res" where
  "setupkvm a s =
     bnd (kalloc a s) (\<lambda>pgdir s.
     if pgdir = 0 then Ok 0 s
     else
       let s = s\<lparr>pmem := memset (pmem s) pgdir 0 PGSIZE\<rparr> in
       if P2V PHYSTOP > DEVSPACE then Panic ''PHYSTOP too high''
       else
         bnd (findR (kmap (kernel_data s)) (\<lambda>(virt, phys_start, phys_end, perm) s.
                bnd (mappages a pgdir virt (phys_end - phys_start) phys_start perm s) (\<lambda>r s.
                if r < 0 then bnd (freevm a pgdir s) (\<lambda>_ s. Ok (Some 0) s)
                else Ok None s)) s) (\<lambda>r s.
         case r of Some v \<Rightarrow> Ok v s | None \<Rightarrow> Ok pgdir s))"

definition lcr3 :: "nat \<Rightarrow> u32 \<Rightarrow> 'e kst_scheme \<Rightarrow> 'e kst_scheme" where
  "lcr3 a v s = s\<lparr>mach := (mach s)\<lparr>cr3 := (cr3 (mach s))(a := v)\<rparr>\<rparr>"

definition switchkvm :: "nat \<Rightarrow> 'e vkst_scheme \<Rightarrow> 'e vkst_scheme" where
  "switchkvm a s = lcr3 a (V2P (kpgdir s)) s"

definition kvmalloc :: "nat \<Rightarrow> 'e vkst_scheme \<Rightarrow> (unit, 'e vkst_scheme) res" where
  "kvmalloc a s = bnd (setupkvm a s) (\<lambda>d s. Ok () (switchkvm a (s\<lparr>kpgdir := d\<rparr>)))"

definition inituvm :: "nat \<Rightarrow> u32 \<Rightarrow> u32 \<Rightarrow> u32 \<Rightarrow> 'e mkst_scheme \<Rightarrow> (unit, 'e mkst_scheme) res" where
  "inituvm a pgdir init sz s =
     (if sz \<ge> PGSIZE then Panic ''inituvm: more than a page''
      else
        bnd (kalloc a s) (\<lambda>mem s.
        let s = s\<lparr>pmem := memset (pmem s) mem 0 PGSIZE\<rparr> in
        bnd (mappages a pgdir 0 PGSIZE (V2P mem) (PTE_W OR PTE_U) s) (\<lambda>_ s.
        Ok () (s\<lparr>pmem := memmove (pmem s) mem init sz\<rparr>))))"

fun allocuvm_loop :: "nat \<Rightarrow> nat \<Rightarrow> u32 \<Rightarrow> u32 \<Rightarrow> u32 \<Rightarrow> u32 \<Rightarrow> 'e mkst_scheme \<Rightarrow> (u32, 'e mkst_scheme) res" where
  "allocuvm_loop 0 a pgdir v oldsz newsz s = (if v < newsz then Panic no_fuel else Ok newsz s)"
| "allocuvm_loop (Suc n) a pgdir v oldsz newsz s =
     (if v < newsz then
        bnd (kalloc a s) (\<lambda>mem s.
        if mem = 0 then
          bnd (cprintf a (''allocuvm out of memory'' @ [CHR 0x0A]) [] s) (\<lambda>_ s.
          bnd (deallocuvm a pgdir newsz oldsz s) (\<lambda>_ s. Ok 0 s))
        else
          let s = s\<lparr>pmem := memset (pmem s) mem 0 PGSIZE\<rparr> in
          bnd (mappages a pgdir v PGSIZE (V2P mem) (PTE_W OR PTE_U) s) (\<lambda>r s.
          if r < 0 then
            bnd (cprintf a (''allocuvm out of memory (2)'' @ [CHR 0x0A]) [] s) (\<lambda>_ s.
            bnd (deallocuvm a pgdir newsz oldsz s) (\<lambda>_ s.
            bnd (kfree a mem s) (\<lambda>_ s. Ok 0 s)))
          else allocuvm_loop n a pgdir (v + PGSIZE) oldsz newsz s))
      else Ok newsz s)"

definition allocuvm :: "nat \<Rightarrow> u32 \<Rightarrow> u32 \<Rightarrow> u32 \<Rightarrow> 'e mkst_scheme \<Rightarrow> (u32, 'e mkst_scheme) res" where
  "allocuvm a pgdir oldsz newsz s =
     (if newsz \<ge> KERNBASE then Ok 0 s
      else if newsz < oldsz then Ok oldsz s
      else allocuvm_loop fuel a pgdir (PGROUNDUP oldsz) oldsz newsz s)"

definition clearpteu :: "nat \<Rightarrow> u32 \<Rightarrow> u32 \<Rightarrow> 'e mkst_scheme \<Rightarrow> (unit, 'e mkst_scheme) res" where
  "clearpteu a pgdir uva s =
     bnd (walkpgdir a pgdir uva False s) (\<lambda>pte s.
     if pte = 0 then Panic ''clearpteu'' else Ok () (wr32 pte (rd32 pte s AND NOT PTE_U) s))"

text \<open>The loop of \<^verbatim>\<open>copyuvm\<close> returns whether it went through (false is \<^verbatim>\<open>goto bad\<close>).\<close>

fun copyuvm_loop :: "nat \<Rightarrow> nat \<Rightarrow> u32 \<Rightarrow> u32 \<Rightarrow> u32 \<Rightarrow> u32 \<Rightarrow> 'e mkst_scheme \<Rightarrow> (bool, 'e mkst_scheme) res" where
  "copyuvm_loop 0 a pgdir d i sz s = (if i < sz then Panic no_fuel else Ok True s)"
| "copyuvm_loop (Suc n) a pgdir d i sz s =
     (if i < sz then
        bnd (walkpgdir a pgdir i False s) (\<lambda>pte s.
        if pte = 0 then Panic ''copyuvm: pte should exist''
        else if rd32 pte s AND PTE_P = 0 then Panic ''copyuvm: page not present''
        else
          let pa = PTE_ADDR (rd32 pte s); flags = PTE_FLAGS (rd32 pte s) in
          bnd (kalloc a s) (\<lambda>mem s.
          if mem = 0 then Ok False s
          else
            let s = s\<lparr>pmem := memmove (pmem s) mem (P2V pa) PGSIZE\<rparr> in
            bnd (mappages a d i PGSIZE (V2P mem) flags s) (\<lambda>r s.
            if r < 0 then bnd (kfree a mem s) (\<lambda>_ s. Ok False s)
            else copyuvm_loop n a pgdir d (i + PGSIZE) sz s)))
      else Ok True s)"

definition copyuvm :: "nat \<Rightarrow> u32 \<Rightarrow> u32 \<Rightarrow> 'e mkst_scheme \<Rightarrow> (u32, 'e mkst_scheme) res" where
  "copyuvm a pgdir sz s =
     bnd (setupkvm a s) (\<lambda>d s.
     if d = 0 then Ok 0 s
     else bnd (copyuvm_loop fuel a pgdir d 0 sz s) (\<lambda>fin s.
       if fin then Ok d s else bnd (freevm a d s) (\<lambda>_ s. Ok 0 s)))"

text \<open>\<^verbatim>\<open>uva2ka\<close> does not test the pointer that \<^verbatim>\<open>walkpgdir\<close> returns: a null one is read at address 0.\<close>

definition uva2ka :: "nat \<Rightarrow> u32 \<Rightarrow> u32 \<Rightarrow> 'e mkst_scheme \<Rightarrow> (u32, 'e mkst_scheme) res" where
  "uva2ka a pgdir uva s =
     bnd (walkpgdir a pgdir uva False s) (\<lambda>pte s.
     if rd32 pte s AND PTE_P = 0 then Ok 0 s
     else if rd32 pte s AND PTE_U = 0 then Ok 0 s
     else Ok (P2V (PTE_ADDR (rd32 pte s))) s)"

text \<open>
  \<^verbatim>\<open>copyout\<close>: the source is the bytes it points to, since callers pass kernel and user pointers.
\<close>

lemma PGROUNDDOWN_mod: "va - PGROUNDDOWN va = va mod PGSIZE"
proof -
  have "PGROUNDDOWN va = push_bit 12 (drop_bit 12 va)"
  proof -
    have m: "PGSIZE - 1 = mask 12" by (simp add: PGSIZE_def mask_eq_exp_minus_1)
    show ?thesis unfolding PGROUNDDOWN_def m by (rule bit_word_eqI) (auto simp: bit_simps)
  qed
  then have "PGROUNDDOWN va = va div 4096 * 4096"
    by (simp add: push_bit_eq_mult drop_bit_eq_div)
  then show ?thesis by (simp add: PGSIZE_def minus_div_mult_eq_mod)
qed

definition page_rest :: "u32 \<Rightarrow> nat" where
  "page_rest va = unat (PGSIZE - (va - PGROUNDDOWN va))"

lemma page_rest_pos: "0 < page_rest va"
proof -
  have "va - PGROUNDDOWN va < PGSIZE"
    unfolding PGROUNDDOWN_mod by (simp add: PGSIZE_def word_mod_less_divisor)
  then have "PGSIZE - (va - PGROUNDDOWN va) \<noteq> 0" by auto
  then show ?thesis unfolding page_rest_def unat_gt_0 .
qed

function copyout :: "nat \<Rightarrow> u32 \<Rightarrow> u32 \<Rightarrow> u8 list \<Rightarrow> 'e mkst_scheme \<Rightarrow> (int, 'e mkst_scheme) res" where
  "copyout a pgdir va src s =
     (if src \<noteq> [] then
        let va0 = PGROUNDDOWN va in
        bnd (uva2ka a pgdir va0 s) (\<lambda>pa0 s.
        if pa0 = 0 then Ok (- 1) s
        else
          let n = page_rest va;
              s = s\<lparr>pmem := store_list (pmem s) (pa0 + (va - va0)) (take n src)\<rparr>
          in copyout a pgdir (va0 + PGSIZE) (drop n src) s)
      else Ok 0 s)"
  by pat_completeness auto
termination
  by (relation "measure (\<lambda>(a, pgdir, va, src, s). length src)") (auto simp: page_rest_pos)

declare copyout.simps [simp del]

end
