(* ===== verification/Proc.thy ===== *)
theory Proc
  imports Vm
begin

text \<open>
  Processes: \<^verbatim>\<open>src/proc.h\<close>, the trap frame of \<^verbatim>\<open>src/x86.h\<close>, \<^verbatim>\<open>switchuvm\<close> of \<^verbatim>\<open>src/vm.c\<close> and
  the operations of \<^verbatim>\<open>src/proc.c\<close> that change a process's state: allocation, switching, sleeping,
  waking, killing, waiting and the scheduling class interface. The choice of the next process is
  in \<open>Scheduler\<close>.

  A process is named by its index in \<^verbatim>\<open>ptable.proc\<close>. A function that calls \<^verbatim>\<open>sched()\<close> is split
  there: the part up to \<^verbatim>\<open>swtch\<close> ends in \<open>Off\<close> and leaves in the process's \<^verbatim>\<open>context\<close> where it
  goes on, and the part after it is a definition of its own. The kernel context is the return
  point together with \<^verbatim>\<open>sched\<close>'s local \<^verbatim>\<open>intena\<close>; the trap frame at the top of the kernel stack is
  a field of the process. Using a null process pointer faults in the kernel, which \<^verbatim>\<open>trap\<close> turns
  into \<^verbatim>\<open>panic("trap")\<close>.
\<close>

section \<open>Data\<close>

datatype procstate = UNUSED | EMBRYO | SLEEPING | RUNNABLE | RUNNING | ZOMBIE

record trapframe =
  tf_edi :: u32
  tf_esi :: u32
  tf_ebp :: u32
  tf_oesp :: u32
  tf_ebx :: u32
  tf_edx :: u32
  tf_ecx :: u32
  tf_eax :: u32
  tf_gs :: u32
  tf_fs :: u32
  tf_es :: u32
  tf_ds :: u32
  tf_trapno :: u32
  tf_err :: u32
  tf_eip :: u32
  tf_cs :: u32
  tf_eflags :: u32
  tf_esp :: u32
  tf_ss :: u32

text \<open>
  Where a process that is not running goes on, with the \<^verbatim>\<open>intena\<close> that \<^verbatim>\<open>sched\<close> saved.
  \<^verbatim>\<open>yield\<close> is called by \<^verbatim>\<open>trap\<close> and by \<^verbatim>\<open>is_higher_waiting\<close>. What a caller of \<^verbatim>\<open>sleep\<close> does next
  is the definition of that caller's loop.
\<close>

datatype ycaller = FromTrap | FromHigher

datatype kcontext = NoContext | AtForkret | InYield ycaller bool | InSleep lockid bool | InExit bool

record proc =
  sz :: u32
  pgdir :: u32
  kstack :: u32
  state :: procstate
  pid :: int
  parent :: "nat option"
  tf :: trapframe
  kctxt :: kcontext
  pchan :: "chan option"
  killed :: bool
  ofile :: "nat option list"
  cwd :: "nat option"
  pname :: string
  sched_class :: int
  sched_level :: int
  deadline :: int
  rr_ticks :: int
  runnig_time :: int
  arrival_time :: int
  waited_ticks :: int
  consecutive_run :: int
  max_consecutive_run :: int
  last_run :: int

record pkst = vkst +
  ptab :: "proc list"
  count_edf :: int
  count_rr :: int
  count_fcfs :: int
  nextpid :: int
  initproc :: "nat option"
  ticks :: u32

definition upd_proc :: "nat \<Rightarrow> (proc \<Rightarrow> proc) \<Rightarrow> 'e pkst_scheme \<Rightarrow> 'e pkst_scheme" where
  "upd_proc i f s = s\<lparr>ptab := (ptab s)[i := f (ptab s ! i)]\<rparr>"

abbreviation prc :: "nat \<Rightarrow> 'e pkst_scheme \<Rightarrow> proc" where
  "prc i s \<equiv> ptab s ! i"

definition null_deref :: string where "null_deref = ''trap''"

text \<open>Run \<open>f\<close> with \<^verbatim>\<open>myproc()\<close>, which must not be null.\<close>

definition with_myproc :: "nat \<Rightarrow> (nat \<Rightarrow> 'e pkst_scheme \<Rightarrow> ('a, 'e pkst_scheme) res) \<Rightarrow> 'e pkst_scheme
    \<Rightarrow> ('a, 'e pkst_scheme) res" where
  "with_myproc a f s = bnd (myproc a s) (\<lambda>p s. case p of None \<Rightarrow> Panic null_deref | Some i \<Rightarrow> f i s)"

section \<open>Counters of runnable processes\<close>

text \<open>
  The three-way \<^verbatim>\<open>if\<close> that follows every change of a process to or from \<^verbatim>\<open>RUNNABLE\<close>
  (in \<^verbatim>\<open>fork\<close>, \<^verbatim>\<open>yield\<close>, \<^verbatim>\<open>wakeup1\<close>, \<^verbatim>\<open>kill\<close>, \<^verbatim>\<open>sleep\<close>, \<^verbatim>\<open>scheduler\<close>).
\<close>

definition count_add :: "int \<Rightarrow> nat \<Rightarrow> 'e pkst_scheme \<Rightarrow> 'e pkst_scheme" where
  "count_add d i s =
     (let p = prc i s in
      if sched_class p = 1 then s\<lparr>count_edf := count_edf s + d\<rparr>
      else if sched_class p = 2 \<and> sched_level p = 1 then s\<lparr>count_rr := count_rr s + d\<rparr>
      else if sched_class p = 2 \<and> sched_level p = 2 then s\<lparr>count_fcfs := count_fcfs s + d\<rparr>
      else s)"

text \<open>\<^verbatim>\<open>acquire(&tickslock); p->arrival_time = ticks; p->waited_ticks = 0; release(&tickslock)\<close>\<close>

definition stamp_arrival :: "nat \<Rightarrow> nat \<Rightarrow> 'e pkst_scheme \<Rightarrow> (unit, 'e pkst_scheme) res" where
  "stamp_arrival a i s =
     bnd (acquire a TicksLock s) (\<lambda>_ s.
     release a TicksLock (upd_proc i (\<lambda>p. p\<lparr>arrival_time := sint (ticks s), waited_ticks := 0\<rparr>) s))"

text \<open>Set \<^verbatim>\<open>RUNNABLE\<close>, stamp the arrival and count the process.\<close>

definition make_runnable :: "nat \<Rightarrow> nat \<Rightarrow> 'e pkst_scheme \<Rightarrow> (unit, 'e pkst_scheme) res" where
  "make_runnable a i s =
     bnd (stamp_arrival a i (upd_proc i (\<lambda>p. p\<lparr>state := RUNNABLE\<rparr>) s)) (\<lambda>_ s.
     Ok () (count_add 1 i s))"

section \<open>Allocation\<close>

definition pinit :: "'e pkst_scheme \<Rightarrow> 'e pkst_scheme" where
  "pinit s = s\<lparr>mach := initlock PtableLock ''ptable'' (mach s)\<rparr>"

fun find_proc :: "(proc \<Rightarrow> bool) \<Rightarrow> proc list \<Rightarrow> nat \<Rightarrow> nat option" where
  "find_proc P [] i = None"
| "find_proc P (p # ps) i = (if P p then Some i else find_proc P ps (Suc i))"

definition alloc_fields :: "int \<Rightarrow> proc \<Rightarrow> proc" where
  "alloc_fields n p = p\<lparr>state := EMBRYO, pid := n, sched_class := 2, sched_level := 2,
     deadline := 1000000000, arrival_time := 0, waited_ticks := 0, consecutive_run := 0,
     max_consecutive_run := 0, rr_ticks := 0, runnig_time := 0\<rparr>"

text \<open>\<^verbatim>\<open>allocproc\<close>: the new trap frame is what the stack page holds; both callers overwrite it.\<close>

definition allocproc :: "nat \<Rightarrow> 'e pkst_scheme \<Rightarrow> (nat option, 'e pkst_scheme) res" where
  "allocproc a s =
     bnd (acquire a PtableLock s) (\<lambda>_ s.
     case find_proc (\<lambda>p. state p = UNUSED) (ptab s) 0 of
       None \<Rightarrow> bnd (release a PtableLock s) (\<lambda>_ s. Ok None s)
     | Some i \<Rightarrow>
         let s = (upd_proc i (alloc_fields (nextpid s)) s)\<lparr>nextpid := nextpid s + 1\<rparr> in
         bnd (release a PtableLock s) (\<lambda>_ s.
         bnd (kalloc a s) (\<lambda>v s.
         let s = upd_proc i (\<lambda>p. p\<lparr>kstack := v\<rparr>) s in
         if v = 0 then Ok None (upd_proc i (\<lambda>p. p\<lparr>state := UNUSED\<rparr>) s)
         else Ok (Some i) (upd_proc i (\<lambda>p. p\<lparr>kctxt := AtForkret\<rparr>) s))))"

section \<open>Switching\<close>

definition switchuvm :: "nat \<Rightarrow> nat option \<Rightarrow> 'e pkst_scheme \<Rightarrow> (unit, 'e pkst_scheme) res" where
  "switchuvm a p s =
     (case p of
        None \<Rightarrow> Panic ''switchuvm: no process''
      | Some i \<Rightarrow>
          if kstack (prc i s) = 0 then Panic ''switchuvm: no kstack''
          else if pgdir (prc i s) = 0 then Panic ''switchuvm: no pgdir''
          else
            bnd (onM (pushcli a) s) (\<lambda>_ s.
            bnd (onM (mycpu a) s) (\<lambda>c s.
            let s = s\<lparr>mach := upd_cpu c (\<lambda>x. x\<lparr>cpu_esp0 := kstack (prc i s) + KSTACKSIZE\<rparr>) (mach s)\<rparr>;
                s = lcr3 a (V2P (pgdir (prc i s))) s
            in onM (popcli a) s)))"

text \<open>\<^verbatim>\<open>sched\<close> up to \<^verbatim>\<open>swtch(&p->context, mycpu()->scheduler)\<close>, and what follows it.\<close>

definition sched :: "nat \<Rightarrow> (bool \<Rightarrow> kcontext) \<Rightarrow> 'e pkst_scheme \<Rightarrow> ('a, 'e pkst_scheme) res" where
  "sched a ret s =
     bnd (myproc a s) (\<lambda>p s.
     bnd (onM (holding a PtableLock) s) (\<lambda>h s.
     if \<not> h then Panic ''sched ptable.lock''
     else bnd (onM (mycpu a) s) (\<lambda>c s.
       if cpu_ncli (cpus (mach s) ! c) \<noteq> 1 then Panic ''sched locks''
       else case p of
           None \<Rightarrow> Panic null_deref
         | Some i \<Rightarrow>
             if state (prc i s) = RUNNING then Panic ''sched running''
             else if eif (mach s) a then Panic ''sched interruptible''
             else
               let intena = cpu_intena (cpus (mach s) ! c)
               in Off (upd_proc i (\<lambda>p. p\<lparr>kctxt := ret intena\<rparr>) s))))"

definition sched_resume :: "nat \<Rightarrow> bool \<Rightarrow> 'e pkst_scheme \<Rightarrow> (unit, 'e pkst_scheme) res" where
  "sched_resume a intena s =
     bnd (onM (mycpu a) s) (\<lambda>c s.
     Ok () (s\<lparr>mach := upd_cpu c (\<lambda>x. x\<lparr>cpu_intena := intena\<rparr>) (mach s)\<rparr>))"

definition yield :: "nat \<Rightarrow> ycaller \<Rightarrow> 'e pkst_scheme \<Rightarrow> ('a, 'e pkst_scheme) res" where
  "yield a k s =
     bnd (acquire a PtableLock s) (\<lambda>_ s.
     with_myproc a (\<lambda>i s.
       let s = upd_proc i (\<lambda>p. p\<lparr>state := RUNNABLE\<rparr>) s in
       bnd (acquire a TicksLock s) (\<lambda>_ s.
       let s = upd_proc i (\<lambda>p. p\<lparr>arrival_time := sint (ticks s), waited_ticks := 0, consecutive_run := 0\<rparr>) s in
       bnd (release a TicksLock s) (\<lambda>_ s.
       sched a (InYield k) (count_add 1 i s)))) s)"

definition yield_resume :: "nat \<Rightarrow> bool \<Rightarrow> 'e pkst_scheme \<Rightarrow> (unit, 'e pkst_scheme) res" where
  "yield_resume a intena s = bnd (sched_resume a intena s) (\<lambda>_ s. release a PtableLock s)"

section \<open>Sleeping and waking\<close>

text \<open>\<^verbatim>\<open>sleep\<close> up to its call of \<^verbatim>\<open>sched\<close>, and the rest of it.\<close>

definition sleep :: "nat \<Rightarrow> chan \<Rightarrow> lockid \<Rightarrow> 'e pkst_scheme \<Rightarrow> ('a, 'e pkst_scheme) res" where
  "sleep a ch lk s =
     bnd (myproc a s) (\<lambda>p s.
     case p of
       None \<Rightarrow> Panic ''sleep''
     | Some i \<Rightarrow>
         bnd (if lk \<noteq> PtableLock
              then bnd (acquire a PtableLock s) (\<lambda>_ s. release a lk s)
              else Ok () s) (\<lambda>_ s.
         let s = upd_proc i (\<lambda>p. p\<lparr>pchan := Some ch\<rparr>) s;
             s = (if state (prc i s) = RUNNABLE then count_add (- 1) i s else s);
             s = upd_proc i (\<lambda>p. p\<lparr>consecutive_run := 0, state := SLEEPING\<rparr>) s
         in sched a (InSleep lk) s))"

definition sleep_resume :: "nat \<Rightarrow> nat \<Rightarrow> lockid \<Rightarrow> bool \<Rightarrow> 'e pkst_scheme \<Rightarrow> (unit, 'e pkst_scheme) res" where
  "sleep_resume a i lk intena s =
     bnd (sched_resume a intena s) (\<lambda>_ s.
     let s = upd_proc i (\<lambda>p. p\<lparr>pchan := None\<rparr>) s in
     if lk \<noteq> PtableLock
     then bnd (release a PtableLock s) (\<lambda>_ s. acquire a lk s)
     else Ok () s)"

definition wakeup1 :: "nat \<Rightarrow> chan option \<Rightarrow> 'e pkst_scheme \<Rightarrow> (unit, 'e pkst_scheme) res" where
  "wakeup1 a ch s =
     forR [0..<NPROC] (\<lambda>i s.
       if state (prc i s) = SLEEPING \<and> pchan (prc i s) = ch then make_runnable a i s
       else Ok () s) s"

definition wakeup :: "nat \<Rightarrow> chan \<Rightarrow> 'e pkst_scheme \<Rightarrow> (unit, 'e pkst_scheme) res" where
  "wakeup a ch s =
     bnd (acquire a PtableLock s) (\<lambda>_ s.
     bnd (wakeup1 a (Some ch) s) (\<lambda>_ s. release a PtableLock s))"

definition kill :: "nat \<Rightarrow> int \<Rightarrow> 'e pkst_scheme \<Rightarrow> (int, 'e pkst_scheme) res" where
  "kill a n s =
     bnd (acquire a PtableLock s) (\<lambda>_ s.
     case find_proc (\<lambda>p. pid p = n) (ptab s) 0 of
       None \<Rightarrow> bnd (release a PtableLock s) (\<lambda>_ s. Ok (- 1) s)
     | Some i \<Rightarrow>
         let s = upd_proc i (\<lambda>p. p\<lparr>killed := True\<rparr>) s in
         bnd (if state (prc i s) = SLEEPING then make_runnable a i s else Ok () s) (\<lambda>_ s.
         bnd (release a PtableLock s) (\<lambda>_ s. Ok 0 s)))"

section \<open>Waiting for children\<close>

text \<open>
  The scan of \<^verbatim>\<open>wait\<close>: the pid of a reaped child, if there is one, and whether any process has the
  caller as parent.
\<close>

fun wait_scan :: "nat \<Rightarrow> nat \<Rightarrow> nat list \<Rightarrow> bool \<Rightarrow> 'e pkst_scheme \<Rightarrow> (int option \<times> bool, 'e pkst_scheme) res" where
  "wait_scan a me [] havekids s = Ok (None, havekids) s"
| "wait_scan a me (i # is) havekids s =
     (if parent (prc i s) \<noteq> Some me then wait_scan a me is havekids s
      else if state (prc i s) = ZOMBIE then
        let n = pid (prc i s) in
        bnd (kfree a (kstack (prc i s)) s) (\<lambda>_ s.
        let s = upd_proc i (\<lambda>p. p\<lparr>kstack := 0\<rparr>) s in
        bnd (freevm a (pgdir (prc i s)) s) (\<lambda>_ s.
        let s = upd_proc i (\<lambda>p. p\<lparr>pid := 0, parent := None, pname := '''', killed := False,
                  state := UNUSED\<rparr>) s
        in Ok (Some n, True) s))
      else wait_scan a me is True s)"

text \<open>One round of the loop of \<^verbatim>\<open>wait\<close>, entered with \<^verbatim>\<open>ptable.lock\<close> held.\<close>

definition wait_round :: "nat \<Rightarrow> nat \<Rightarrow> 'e pkst_scheme \<Rightarrow> (int, 'e pkst_scheme) res" where
  "wait_round a me s =
     bnd (wait_scan a me [0..<NPROC] False s) (\<lambda>r s.
     case r of
       (Some n, _) \<Rightarrow> bnd (release a PtableLock s) (\<lambda>_ s. Ok n s)
     | (None, havekids) \<Rightarrow>
         if \<not> havekids \<or> killed (prc me s)
         then bnd (release a PtableLock s) (\<lambda>_ s. Ok (- 1) s)
         else sleep a (ChProc me) PtableLock s)"

definition wait :: "nat \<Rightarrow> 'e pkst_scheme \<Rightarrow> (int, 'e pkst_scheme) res" where
  "wait a s =
     with_myproc a (\<lambda>me s. bnd (acquire a PtableLock s) (\<lambda>_ s. wait_round a me s)) s"

definition wait_resume :: "nat \<Rightarrow> nat \<Rightarrow> bool \<Rightarrow> 'e pkst_scheme \<Rightarrow> (int, 'e pkst_scheme) res" where
  "wait_resume a me intena s =
     bnd (sleep_resume a me PtableLock intena s) (\<lambda>_ s. wait_round a me s)"

section \<open>Growing a process\<close>

definition growproc :: "nat \<Rightarrow> int \<Rightarrow> 'e pkst_scheme \<Rightarrow> (int, 'e pkst_scheme) res" where
  "growproc a n s =
     with_myproc a (\<lambda>i s.
       let z = sz (prc i s); d = pgdir (prc i s) in
       bnd (if n > 0 then allocuvm a d z (z + word_of_int n) s
            else if n < 0 then deallocuvm a d z (z + word_of_int n) s
            else Ok z s) (\<lambda>z s.
       if n \<noteq> 0 \<and> z = 0 then Ok (- 1) s
       else
         bnd (switchuvm a (Some i) (upd_proc i (\<lambda>p. p\<lparr>sz := z\<rparr>) s)) (\<lambda>_ s. Ok 0 s))) s"

section \<open>Scheduling classes\<close>

definition AGING_THRESHOLD :: int where "AGING_THRESHOLD = 800"

definition newline :: string where "newline = [CHR 0x0A]"

abbreviation pint :: "int \<Rightarrow> parg" where
  "pint n \<equiv> PInt (word_of_int n)"

definition deadline_fmt :: string where
  "deadline_fmt = ''PID %d : Deadline = %d '' @ newline"

definition level_fmt :: string where
  "level_fmt = ''PID %d : Level %d to %d'' @ newline"

definition set_deadline_for_process :: "nat \<Rightarrow> int \<Rightarrow> int \<Rightarrow> 'e pkst_scheme \<Rightarrow> (int, 'e pkst_scheme) res" where
  "set_deadline_for_process a n dl s =
     (if dl < 0 then bnd (cprintf a ''Invalid deadline!'' [] s) (\<lambda>_ s. Ok (- 1) s)
      else
        bnd (acquire a PtableLock s) (\<lambda>_ s.
        case find_proc (\<lambda>p. pid p = n) (ptab s) 0 of
          None \<Rightarrow> bnd (release a PtableLock s) (\<lambda>_ s. Ok (- 1) s)
        | Some i \<Rightarrow>
            let s = (if state (prc i s) = RUNNABLE then
                       (if sched_level (prc i s) = 1
                        then s\<lparr>count_rr := count_rr s - 1, count_edf := count_edf s + 1\<rparr>
                        else if sched_level (prc i s) = 2
                        then s\<lparr>count_fcfs := count_fcfs s - 1, count_edf := count_edf s + 1\<rparr>
                        else s)
                     else s);
                s = upd_proc i (\<lambda>p. p\<lparr>sched_level := 0, sched_class := 1, deadline := dl\<rparr>) s in
            bnd (cprintf a deadline_fmt [pint n, pint (deadline (prc i s))] s) (\<lambda>_ s.
            bnd (release a PtableLock s) (\<lambda>_ s. Ok 0 s))))"

text \<open>\<^verbatim>\<open>change_sched_level\<close> returns from the branch "already in target level" with the lock held.\<close>

definition change_sched_level :: "nat \<Rightarrow> int \<Rightarrow> int \<Rightarrow> 'e pkst_scheme \<Rightarrow> (int, 'e pkst_scheme) res" where
  "change_sched_level a n target s =
     (if target \<noteq> 1 \<and> target \<noteq> 2
      then bnd (cprintf a ''Invalid target level!'' [] s) (\<lambda>_ s. Ok (- 1) s)
      else
        bnd (acquire a PtableLock s) (\<lambda>_ s.
        case find_proc (\<lambda>p. pid p = n) (ptab s) 0 of
          None \<Rightarrow> bnd (release a PtableLock s) (\<lambda>_ s. Ok (- 1) s)
        | Some i \<Rightarrow>
            if sched_level (prc i s) = target
            then bnd (cprintf a ''Process is already in target level!'' [] s) (\<lambda>_ s. Ok (- 1) s)
            else
              let s = (if state (prc i s) = RUNNABLE then
                         (if sched_level (prc i s) = 1
                          then s\<lparr>count_rr := count_rr s - 1, count_fcfs := count_fcfs s + 1\<rparr>
                          else s\<lparr>count_fcfs := count_fcfs s - 1, count_rr := count_rr s + 1\<rparr>)
                       else s) in
              bnd (cprintf a level_fmt
                    [pint n, pint (sched_level (prc i s)), pint target] s) (\<lambda>_ s.
              let s = upd_proc i (\<lambda>p. p\<lparr>sched_level := (if target = 2 then 2 else 1)\<rparr>) s in
              bnd (release a PtableLock s) (\<lambda>_ s. Ok 0 s))))"

definition age_proc :: "nat \<Rightarrow> int \<Rightarrow> nat \<Rightarrow> 'e pkst_scheme \<Rightarrow> (unit, 'e pkst_scheme) res" where
  "age_proc a osTicks i s =
     (if state (prc i s) = RUNNABLE then
        let s = upd_proc i (\<lambda>p. p\<lparr>waited_ticks := osTicks - arrival_time p\<rparr>) s in
        if sched_class (prc i s) = 2 \<and> sched_level (prc i s) = 2 \<and>
           waited_ticks (prc i s) \<ge> AGING_THRESHOLD
        then
          bnd (release a PtableLock s) (\<lambda>_ s.
          bnd (change_sched_level a (pid (prc i s)) 1 s) (\<lambda>_ s.
          bnd (acquire a PtableLock s) (\<lambda>_ s.
          Ok () (upd_proc i (\<lambda>p. p\<lparr>arrival_time := osTicks\<rparr>) s))))
        else Ok () s
      else Ok () s)"

definition update_wait_time :: "nat \<Rightarrow> int \<Rightarrow> 'e pkst_scheme \<Rightarrow> (int, 'e pkst_scheme) res" where
  "update_wait_time a osTicks s =
     bnd (acquire a PtableLock s) (\<lambda>_ s.
     bnd (forR [0..<NPROC] (age_proc a osTicks) s) (\<lambda>_ s.
     bnd (release a PtableLock s) (\<lambda>_ s. Ok 0 s)))"

text \<open>\<^verbatim>\<open>is_higher_waiting\<close> yields itself when it finds a higher class; it then returns 1.\<close>

definition is_higher_waiting :: "nat \<Rightarrow> 'e pkst_scheme \<Rightarrow> (int, 'e pkst_scheme) res" where
  "is_higher_waiting a s =
     (if count_edf s > 0 \<or> count_rr s > 0 then yield a FromHigher s else Ok 0 s)"

definition is_higher_waiting_resume :: "nat \<Rightarrow> bool \<Rightarrow> 'e pkst_scheme \<Rightarrow> (int, 'e pkst_scheme) res" where
  "is_higher_waiting_resume a intena s = bnd (yield_resume a intena s) (\<lambda>_ s. Ok 1 s)"

section \<open>Listings\<close>

fun dump_state :: "procstate \<Rightarrow> string" where
  "dump_state UNUSED = ''unused''"
| "dump_state EMBRYO = ''embryo''"
| "dump_state SLEEPING = ''sleep ''"
| "dump_state RUNNABLE = ''runble''"
| "dump_state RUNNING = ''run   ''"
| "dump_state ZOMBIE = ''zombie''"

fun info_state :: "procstate \<Rightarrow> string" where
  "info_state UNUSED = ''UNUSED''"
| "info_state EMBRYO = ''EMBRYO''"
| "info_state SLEEPING = ''SLEEPING''"
| "info_state RUNNABLE = ''RUNNABLE''"
| "info_state RUNNING = ''RUNNING''"
| "info_state ZOMBIE = ''ZOMBIE''"

text \<open>
  \<^verbatim>\<open>procdump\<close>: \<open>pcs i\<close> are the return addresses that \<^verbatim>\<open>getcallerpcs\<close> finds on the kernel stack of
  process \<open>i\<close>; at most ten, up to the first zero, are printed.
\<close>

definition procdump :: "nat \<Rightarrow> (nat \<Rightarrow> u32 list) \<Rightarrow> 'e pkst_scheme \<Rightarrow> (unit, 'e pkst_scheme) res" where
  "procdump a pcs s =
     forR [0..<NPROC] (\<lambda>i s.
       if state (prc i s) = UNUSED then Ok () s
       else
         bnd (cprintf a ''%d %s %s'' [pint (pid (prc i s)), PStr (Some (dump_state (state (prc i s)))),
               PStr (Some (pname (prc i s)))] s) (\<lambda>_ s.
         bnd (if state (prc i s) = SLEEPING
              then forR (takeWhile (\<lambda>pc. pc \<noteq> 0) (take 10 (pcs i))) (\<lambda>pc s. cprintf a '' %p'' [PInt pc] s) s
              else Ok () s) (\<lambda>_ s.
         cprintf a newline [] s))) s"

definition rule1 :: string where "rule1 = replicate 23 CHR ''-''"
definition rule2 :: string where "rule2 = replicate 133 CHR ''-''"

definition headings :: string where
  "headings = ''Process_Name    PID     State       Class       Algorithm   Wait_time   Deadline    Consecutive_run  Arrival  RR_time   Running_Time ''"

text \<open>A cell of the table: the text, then the spaces to the column's width.\<close>

definition str_cell :: "nat \<Rightarrow> int \<Rightarrow> string \<Rightarrow> 'e ckst_scheme \<Rightarrow> (unit, 'e ckst_scheme) res" where
  "str_cell a w t s =
     bnd (cprintf a ''%s'' [PStr (Some t)] s) (\<lambda>_ s. cprintspaces a (w - int (length t)) s)"

definition int_cell :: "nat \<Rightarrow> int \<Rightarrow> int \<Rightarrow> 'e ckst_scheme \<Rightarrow> (unit, 'e ckst_scheme) res" where
  "int_cell a w n s = bnd (cprintf a ''%d'' [pint n] s) (\<lambda>_ s. cprintspaces a (w - digitcount n) s)"

definition print_sched_row :: "nat \<Rightarrow> proc \<Rightarrow> 'e ckst_scheme \<Rightarrow> (unit, 'e ckst_scheme) res" where
  "print_sched_row a p s =
     (let algorithm = (if sched_class p = 1 then ''EDF'' else if sched_level p = 1 then ''RR'' else ''FCFS'');
          class = (if sched_class p = 1 then ''Real-Time'' else ''Normal'') in
      bnd (str_cell a 16 (pname p) s) (\<lambda>_ s.
      bnd (int_cell a 8 (pid p) s) (\<lambda>_ s.
      bnd (str_cell a 12 (info_state (state p)) s) (\<lambda>_ s.
      bnd (str_cell a 12 class s) (\<lambda>_ s.
      bnd (str_cell a 12 algorithm s) (\<lambda>_ s.
      bnd (int_cell a 12 (waited_ticks p) s) (\<lambda>_ s.
      bnd (int_cell a 12 (deadline p) s) (\<lambda>_ s.
      bnd (int_cell a 17 (max_consecutive_run p) s) (\<lambda>_ s.
      bnd (int_cell a 9 (arrival_time p) s) (\<lambda>_ s.
      bnd (int_cell a 10 (rr_ticks p) s) (\<lambda>_ s.
      bnd (int_cell a 13 (runnig_time p) s) (\<lambda>_ s.
      cprintf a newline [] s))))))))))))"

definition print_sched_info :: "nat \<Rightarrow> 'e pkst_scheme \<Rightarrow> (int, 'e pkst_scheme) res" where
  "print_sched_info a s =
     bnd (acquire a TicksLock s) (\<lambda>_ s.
     bnd (cprintf a (rule1 @ newline @ ''Tick: %d '' @ newline) [PInt (ticks s)] s) (\<lambda>_ s.
     bnd (release a TicksLock s) (\<lambda>_ s.
     bnd (cprintf a (rule2 @ newline @ headings @ newline) [] s) (\<lambda>_ s.
     bnd (acquire a PtableLock s) (\<lambda>_ s.
     bnd (forR [0..<NPROC] (\<lambda>i s.
            if state (prc i s) = UNUSED then Ok () s else print_sched_row a (prc i s) s) s) (\<lambda>_ s.
     bnd (release a PtableLock s) (\<lambda>_ s. Ok 0 s)))))))"

end
