(* ===== verification/Proc_Inv.thy ===== *)
theory Proc_Inv
  imports Proc
begin

text \<open>
  What the process operations do and what they keep. Part one: the effect of each operation of
  \<open>Proc\<close> on the process table when the locks it takes are free, as an equation that says it
  returns and in which state. Part two: the invariant of the process table, that the three
  counters of \<^verbatim>\<open>src/proc.c\<close> count the runnable processes of each class, that classes and levels
  fit together, and that process ids are unique.
\<close>

named_theorems proc_simps \<open>fields of the process table after an update\<close>

section \<open>Updates of the table\<close>

lemma upd_proc_fields [proc_simps]:
  "mach (upd_proc i f s) = mach s" "cons_locking (upd_proc i f s) = cons_locking s"
  "cons_out (upd_proc i f s) = cons_out s" "pmem (upd_proc i f s) = pmem s"
  "kmem_use_lock (upd_proc i f s) = kmem_use_lock s" "freelist (upd_proc i f s) = freelist s"
  "kernel_end (upd_proc i f s) = kernel_end s" "kernel_data (upd_proc i f s) = kernel_data s"
  "kpgdir (upd_proc i f s) = kpgdir s" "ptab (upd_proc i f s) = (ptab s)[i := f (prc i s)]"
  "count_edf (upd_proc i f s) = count_edf s" "count_rr (upd_proc i f s) = count_rr s"
  "count_fcfs (upd_proc i f s) = count_fcfs s" "nextpid (upd_proc i f s) = nextpid s"
  "initproc (upd_proc i f s) = initproc s" "ticks (upd_proc i f s) = ticks s"
  "pkst.more (upd_proc i f s) = pkst.more s"
  by (simp_all add: upd_proc_def)

lemma count_add_fields [proc_simps]:
  "mach (count_add d i s) = mach s" "cons_locking (count_add d i s) = cons_locking s"
  "cons_out (count_add d i s) = cons_out s" "pmem (count_add d i s) = pmem s"
  "kmem_use_lock (count_add d i s) = kmem_use_lock s" "freelist (count_add d i s) = freelist s"
  "kernel_end (count_add d i s) = kernel_end s" "kernel_data (count_add d i s) = kernel_data s"
  "kpgdir (count_add d i s) = kpgdir s" "ptab (count_add d i s) = ptab s"
  "nextpid (count_add d i s) = nextpid s" "initproc (count_add d i s) = initproc s"
  "ticks (count_add d i s) = ticks s" "pkst.more (count_add d i s) = pkst.more s"
  by (simp_all add: count_add_def Let_def)

lemma count_add_counts:
  "count_edf (count_add d i s) = count_edf s + (if sched_class (prc i s) = 1 then d else 0)"
  "count_rr (count_add d i s) = count_rr s +
     (if sched_class (prc i s) = 2 \<and> sched_level (prc i s) = 1 then d else 0)"
  "count_fcfs (count_add d i s) = count_fcfs s +
     (if sched_class (prc i s) = 2 \<and> sched_level (prc i s) = 2 then d else 0)"
  by (auto simp: count_add_def Let_def)

lemma upd_proc_mach [proc_simps]: "(upd_proc i f s)\<lparr>mach := m\<rparr> = upd_proc i f (s\<lparr>mach := m\<rparr>)"
  by (simp add: upd_proc_def)

lemma count_add_mach [proc_simps]: "(count_add d i s)\<lparr>mach := m\<rparr> = count_add d i (s\<lparr>mach := m\<rparr>)"
  by (simp add: count_add_def Let_def)

lemma upd_proc_twice [proc_simps]: "upd_proc i f (upd_proc i g s) = upd_proc i (f \<circ> g) s"
  by (cases "i < length (ptab s)") (simp_all add: upd_proc_def list_update_beyond)

lemma find_proc_Some:
  "find_proc P ps k = Some i \<Longrightarrow> k \<le> i \<and> i - k < length ps \<and> P (ps ! (i - k)) \<and> (\<forall>j < i - k. \<not> P (ps ! j))"
proof (induction ps arbitrary: k)
  case (Cons p ps)
  show ?case
  proof (cases "P p")
    case False
    with Cons.prems have "find_proc P ps (Suc k) = Some i" by simp
    note IH = Cons.IH [OF this]
    then obtain d where d: "i = Suc k + d" by (metis le_Suc_ex)
    then show ?thesis using IH False by (auto simp: nth_Cons')
  qed (use Cons.prems in auto)
qed simp

lemma find_proc_None: "find_proc P ps k = None \<longleftrightarrow> (\<forall>p \<in> set ps. \<not> P p)"
  by (induction ps arbitrary: k) auto

lemma find_proc_0:
  "find_proc P ps 0 = Some i \<Longrightarrow> i < length ps \<and> P (ps ! i) \<and> (\<forall>j < i. \<not> P (ps ! j))"
  using find_proc_Some [of P ps 0 i] by simp

section \<open>Inside the critical section of the process table\<close>

text \<open>
  \<open>quiet a s\<close>: CPU \<open>a\<close> is consistent and no lock it may need is taken. \<open>crit a m s\<close>: it has
  taken \<^verbatim>\<open>ptable.lock\<close> from such a machine \<open>m\<close>.
\<close>

definition locks_free :: "'e pkst_scheme \<Rightarrow> mach \<Rightarrow> bool" where
  "locks_free s m \<longleftrightarrow> lk_free PtableLock m \<and> lk_free TicksLock m \<and>
     (cons_locking s \<longrightarrow> lk_free ConsLock m) \<and> (kmem_use_lock s \<longrightarrow> lk_free KmemLock m)"

definition quiet :: "nat \<Rightarrow> 'e pkst_scheme \<Rightarrow> bool" where
  "quiet a s \<longleftrightarrow> ready a s \<and> locks_free s (mach s)"

definition crit :: "nat \<Rightarrow> mach \<Rightarrow> 'e pkst_scheme \<Rightarrow> bool" where
  "crit a m s \<longleftrightarrow> mach s = acq a PtableLock m \<and> cpu_ready a m \<and> locks_free s m"

definition settled :: "nat \<Rightarrow> 'e kst_scheme \<Rightarrow> 'e kst_scheme" where
  "settled a s = s\<lparr>mach := settle a (mach s)\<rparr>"

lemma quiet_acquire:
  "quiet a s \<Longrightarrow> acquire a PtableLock s = Ok () (s\<lparr>mach := acq a PtableLock (mach s)\<rparr>)"
  by (simp add: quiet_def locks_free_def acquire_kst)

lemma locks_free_mach [simp]: "locks_free (s\<lparr>mach := m'\<rparr>) m = locks_free s m"
  by (simp add: locks_free_def)

lemma crit_acquired: "quiet a s \<Longrightarrow> crit a (mach s) (s\<lparr>mach := acq a PtableLock (mach s)\<rparr>)"
  by (simp add: quiet_def crit_def)

lemma crit_release: "crit a m s \<Longrightarrow> release a PtableLock s = Ok () (s\<lparr>mach := settle a m\<rparr>)"
  by (simp add: crit_def locks_free_def release_kst)

lemma quiet_settle: "crit a m s \<Longrightarrow> quiet a (s\<lparr>mach := settle a m\<rparr>)"
  by (simp add: crit_def quiet_def locks_free_def)

lemma crit_upd [simp]:
  "crit a m (upd_proc i f s) = crit a m s" "crit a m (count_add d i s) = crit a m s"
  by (simp_all add: crit_def locks_free_def proc_simps)

lemma quiet_upd [simp]:
  "quiet a (upd_proc i f s) = quiet a s" "quiet a (count_add d i s) = quiet a s"
  by (simp_all add: quiet_def locks_free_def proc_simps)

lemma crit_ready: "crit a m s \<Longrightarrow> ready a s"
  by (simp add: crit_def)

lemma crit_free_ticks: "crit a m s \<Longrightarrow> free TicksLock s"
  by (simp add: crit_def locks_free_def)

lemma crit_settle: "crit a m s \<Longrightarrow> settle a (mach s) = mach s"
  by (simp add: crit_def)

lemma crit_can_print: "crit a m s \<Longrightarrow> can_print a s"
  by (simp add: crit_def can_print_def locks_free_def)

lemma crit_cprintf: "crit a m s \<Longrightarrow> cprintf a fmt args s = Ok () (consputs (formatted fmt args) s)"
  using crit_can_print [of a m s] crit_settle [of a m s] by (simp add: cprintf_ok printed_nested)

lemma crit_consputs [simp]: "crit a m (consputs t s) = crit a m s"
  by (simp add: crit_def locks_free_def consputs_def)

lemma crit_myproc: "crit a m s \<Longrightarrow> myproc a s = Ok (cur a (mach s)) s"
  using crit_ready [of a m s] crit_settle [of a m s] by (simp add: myproc_ok)

section \<open>The invariant of the process table\<close>

definition edf_ready :: "proc \<Rightarrow> bool" where
  "edf_ready p \<longleftrightarrow> state p = RUNNABLE \<and> sched_class p = 1"

definition rr_ready :: "proc \<Rightarrow> bool" where
  "rr_ready p \<longleftrightarrow> state p = RUNNABLE \<and> sched_class p = 2 \<and> sched_level p = 1"

definition fcfs_ready :: "proc \<Rightarrow> bool" where
  "fcfs_ready p \<longleftrightarrow> state p = RUNNABLE \<and> sched_class p = 2 \<and> sched_level p = 2"

text \<open>Class 1 has level 0; class 2 has level 1 or 2.\<close>

definition class_ok :: "proc \<Rightarrow> bool" where
  "class_ok p \<longleftrightarrow> sched_class p = 1 \<and> sched_level p = 0 \<or>
     sched_class p = 2 \<and> (sched_level p = 1 \<or> sched_level p = 2)"

definition counts_ok :: "'e pkst_scheme \<Rightarrow> bool" where
  "counts_ok s \<longleftrightarrow> count_edf s = cnt edf_ready (ptab s) \<and> count_rr s = cnt rr_ready (ptab s) \<and>
     count_fcfs s = cnt fcfs_ready (ptab s)"

text \<open>
  Every process id ever given to a slot is below \<^verbatim>\<open>nextpid\<close>, no two slots have the same nonzero
  id, and a slot in use has a nonzero one.
\<close>

definition pids_ok :: "'e pkst_scheme \<Rightarrow> bool" where
  "pids_ok s \<longleftrightarrow> 0 < nextpid s \<and>
     (\<forall>i < length (ptab s). 0 \<le> pid (prc i s) \<and> pid (prc i s) < nextpid s \<and>
        (state (prc i s) \<noteq> UNUSED \<longrightarrow> 0 < pid (prc i s))) \<and>
     (\<forall>i < length (ptab s). \<forall>j < length (ptab s).
        i \<noteq> j \<and> 0 < pid (prc i s) \<longrightarrow> pid (prc i s) \<noteq> pid (prc j s))"

definition sched_inv :: "'e pkst_scheme \<Rightarrow> bool" where
  "sched_inv s \<longleftrightarrow> length (ptab s) = NPROC \<and> counts_ok s \<and> pids_ok s \<and>
     (\<forall>i < NPROC. state (prc i s) \<noteq> UNUSED \<longrightarrow> class_ok (prc i s))"

subsection \<open>Counting\<close>

lemma tally_not_runnable: "state p \<noteq> RUNNABLE \<Longrightarrow> \<not> edf_ready p \<and> \<not> rr_ready p \<and> \<not> fcfs_ready p"
  by (simp add: edf_ready_def rr_ready_def fcfs_ready_def)

lemma counts_enter:
  assumes "counts_ok s" "i < length (ptab s)" "state (prc i s) \<noteq> RUNNABLE" "state (f (prc i s)) = RUNNABLE"
  shows "counts_ok (count_add 1 i (upd_proc i f s))"
  using assms tally_not_runnable [OF assms(3)]
  by (auto simp: counts_ok_def count_add_counts proc_simps cnt_update edf_ready_def rr_ready_def fcfs_ready_def)

lemma counts_leave:
  assumes "counts_ok s" "i < length (ptab s)" "state (prc i s) = RUNNABLE" "state (f (prc i s)) \<noteq> RUNNABLE"
    and "sched_class (f (prc i s)) = sched_class (prc i s)" "sched_level (f (prc i s)) = sched_level (prc i s)"
  shows "counts_ok (count_add (- 1) i (upd_proc i f s))"
  using assms tally_not_runnable [OF assms(4)]
  by (auto simp: counts_ok_def count_add_counts proc_simps cnt_update edf_ready_def rr_ready_def fcfs_ready_def)

text \<open>An update that leaves the process in the same tally.\<close>

definition same_tally :: "proc \<Rightarrow> proc \<Rightarrow> bool" where
  "same_tally p q \<longleftrightarrow> edf_ready p = edf_ready q \<and> rr_ready p = rr_ready q \<and> fcfs_ready p = fcfs_ready q"

lemma same_tallyI:
  "(state p = RUNNABLE) = (state q = RUNNABLE) \<Longrightarrow>
   (state p = RUNNABLE \<Longrightarrow> sched_class p = sched_class q \<and> sched_level p = sched_level q) \<Longrightarrow> same_tally p q"
  by (auto simp: same_tally_def edf_ready_def rr_ready_def fcfs_ready_def)

lemma counts_same: "counts_ok s \<Longrightarrow> same_tally (f (prc i s)) (prc i s) \<Longrightarrow> counts_ok (upd_proc i f s)"
  by (cases "i < length (ptab s)")
     (auto simp: counts_ok_def same_tally_def proc_simps cnt_update list_update_beyond)

lemma pids_same:
  assumes "pids_ok s" "pid (f (prc i s)) = pid (prc i s)"
    and "state (prc i s) = UNUSED \<Longrightarrow> state (f (prc i s)) = UNUSED \<or> 0 < pid (prc i s)"
  shows "pids_ok (upd_proc i f s)"
proof -
  have "pid (prc j (upd_proc i f s)) = pid (prc j s)" if "j < length (ptab s)" for j
    using that assms(2) by (cases "j = i") (simp_all add: proc_simps)
  moreover have "0 < pid (prc j s)" if "j < length (ptab s)" "state (prc j (upd_proc i f s)) \<noteq> UNUSED" for j
    using that assms(1,3) by (cases "j = i") (auto simp: proc_simps pids_ok_def)
  ultimately show ?thesis using assms(1) by (simp add: pids_ok_def proc_simps(1-17))
qed

lemma pids_count_add [simp]: "pids_ok (count_add d i s) = pids_ok s"
  by (simp add: pids_ok_def proc_simps)

subsection \<open>Preservation by the three kinds of update\<close>

definition same_ids :: "proc \<Rightarrow> proc \<Rightarrow> bool" where
  "same_ids p q \<longleftrightarrow> pid p = pid q \<and> sched_class p = sched_class q \<and> sched_level p = sched_level q"

lemma inv_classes_upd:
  assumes "\<forall>j < NPROC. state (prc j s) \<noteq> UNUSED \<longrightarrow> class_ok (prc j s)"
    and "length (ptab s) = NPROC" "state (f (prc i s)) \<noteq> UNUSED \<Longrightarrow> class_ok (f (prc i s))"
  shows "\<forall>j < NPROC. state (prc j (upd_proc i f s)) \<noteq> UNUSED \<longrightarrow> class_ok (prc j (upd_proc i f s))"
  using assms by (auto simp: proc_simps nth_upd)

lemma sched_inv_enter:
  assumes "sched_inv s" "i < NPROC" "state (prc i s) \<noteq> RUNNABLE" "state (prc i s) \<noteq> UNUSED"
    and "state (f (prc i s)) = RUNNABLE" "same_ids (f (prc i s)) (prc i s)"
  shows "sched_inv (count_add 1 i (upd_proc i f s))"
proof -
  have "class_ok (f (prc i s))" using assms by (auto simp: sched_inv_def same_ids_def class_ok_def)
  moreover have "pids_ok (upd_proc i f s)"
    using assms by (intro pids_same) (auto simp: sched_inv_def same_ids_def)
  ultimately show ?thesis
    using assms counts_enter [of s i f] inv_classes_upd [of s f i]
    by (simp add: sched_inv_def) (simp add: proc_simps)
qed

lemma sched_inv_leave:
  assumes "sched_inv s" "i < NPROC" "state (prc i s) = RUNNABLE" "state (f (prc i s)) \<noteq> RUNNABLE"
    and "same_ids (f (prc i s)) (prc i s)"
  shows "sched_inv (count_add (- 1) i (upd_proc i f s))"
proof -
  have "class_ok (f (prc i s))" using assms by (auto simp: sched_inv_def same_ids_def class_ok_def)
  moreover have "pids_ok (upd_proc i f s)"
    using assms by (intro pids_same) (auto simp: sched_inv_def same_ids_def)
  ultimately show ?thesis
    using assms counts_leave [of s i f] inv_classes_upd [of s f i]
    by (simp add: sched_inv_def same_ids_def) (simp add: proc_simps)
qed

lemma sched_inv_same:
  assumes "sched_inv s" "same_tally (f (prc i s)) (prc i s)" "pid (f (prc i s)) = pid (prc i s)"
    and "state (f (prc i s)) \<noteq> UNUSED \<Longrightarrow> state (prc i s) \<noteq> UNUSED \<and> class_ok (f (prc i s))"
  shows "sched_inv (upd_proc i f s)"
proof -
  have "pids_ok (upd_proc i f s)"
    using assms by (intro pids_same) (auto simp: sched_inv_def)
  then show ?thesis
    using assms counts_same [of s f i] inv_classes_upd [of s f i]
    by (simp add: sched_inv_def) (simp add: proc_simps)
qed

text \<open>Updates of fields the invariant does not mention.\<close>

lemma sched_inv_quiet_upd:
  assumes "sched_inv s" "\<And>p. state (f p) = state p" "\<And>p. same_ids (f p) p"
  shows "sched_inv (upd_proc i f s)"
proof (cases "i < NPROC")
  case True
  show ?thesis
  proof (rule sched_inv_same [OF assms(1)])
    show "same_tally (f (prc i s)) (prc i s)"
      using assms(2,3) by (intro same_tallyI) (auto simp: same_ids_def)
    show "pid (f (prc i s)) = pid (prc i s)" using assms(3) by (simp add: same_ids_def)
    assume "state (f (prc i s)) \<noteq> UNUSED"
    then show "state (prc i s) \<noteq> UNUSED \<and> class_ok (f (prc i s))"
      using assms True by (simp add: sched_inv_def same_ids_def class_ok_def)
  qed
next
  case False
  then show ?thesis
    using assms(1) by (simp add: upd_proc_def list_update_beyond sched_inv_def)
qed

lemma sched_inv_mach [simp]: "sched_inv (s\<lparr>mach := m\<rparr>) = sched_inv s"
  by (simp add: sched_inv_def counts_ok_def pids_ok_def)

lemma sched_inv_consputs [simp]: "sched_inv (consputs t s) = sched_inv s"
  by (simp add: sched_inv_def counts_ok_def pids_ok_def consputs_def)

lemma sched_inv_length: "sched_inv s \<Longrightarrow> length (ptab s) = NPROC"
  by (simp add: sched_inv_def)

section \<open>Waking and killing\<close>

definition ready_fields :: "u32 \<Rightarrow> proc \<Rightarrow> proc" where
  "ready_fields t p = p\<lparr>state := RUNNABLE, arrival_time := sint t, waited_ticks := 0\<rparr>"

definition runnable_at :: "nat \<Rightarrow> 'e pkst_scheme \<Rightarrow> 'e pkst_scheme" where
  "runnable_at i s = count_add 1 i (upd_proc i (ready_fields (ticks s)) s)"

lemma crit_stamp:
  assumes "crit a m s"
  shows "stamp_arrival a i s = Ok () (upd_proc i (\<lambda>p. p\<lparr>arrival_time := sint (ticks s), waited_ticks := 0\<rparr>) s)"
proof -
  have r: "ready a s" "free TicksLock s" "settle a (mach s) = mach s"
    using assms by (simp_all add: crit_ready crit_free_ticks crit_settle)
  then show ?thesis
    by (simp add: stamp_arrival_def acquire_kst release_kst [of _ _ _ "mach s"] proc_simps)
qed

lemma crit_make_runnable:
  assumes "crit a m s"
  shows "make_runnable a i s = Ok () (runnable_at i s)"
proof -
  have "upd_proc i (\<lambda>p. p\<lparr>arrival_time := sint (ticks s), waited_ticks := 0\<rparr>)
      (upd_proc i (\<lambda>p. p\<lparr>state := RUNNABLE\<rparr>) s) = upd_proc i (ready_fields (ticks s)) s"
    unfolding upd_proc_twice by (rule arg_cong [where f = "\<lambda>g. upd_proc i g s"]) (auto simp: ready_fields_def)
  then show ?thesis
    using assms by (simp add: make_runnable_def crit_stamp [of a m] runnable_at_def proc_simps(1-17))
qed

lemma runnable_at_fields [simp]:
  "ptab (runnable_at i s) = (ptab s)[i := ready_fields (ticks s) (prc i s)]"
  "mach (runnable_at i s) = mach s" "ticks (runnable_at i s) = ticks s" "nextpid (runnable_at i s) = nextpid s"
  by (simp_all add: runnable_at_def proc_simps)

lemma crit_runnable_at [simp]: "crit a m (runnable_at i s) = crit a m s"
  by (simp add: runnable_at_def)

lemma runnable_at_mach: "(runnable_at i s)\<lparr>mach := m\<rparr> = runnable_at i (s\<lparr>mach := m\<rparr>)"
  by (simp add: runnable_at_def proc_simps)

lemma sched_inv_runnable_at:
  "sched_inv s \<Longrightarrow> i < NPROC \<Longrightarrow> state (prc i s) \<notin> {RUNNABLE, UNUSED} \<Longrightarrow> sched_inv (runnable_at i s)"
  unfolding runnable_at_def by (rule sched_inv_enter) (auto simp: ready_fields_def same_ids_def)

definition wake_step :: "chan option \<Rightarrow> nat \<Rightarrow> 'e pkst_scheme \<Rightarrow> 'e pkst_scheme" where
  "wake_step ch i s =
     (if state (prc i s) = SLEEPING \<and> pchan (prc i s) = ch then runnable_at i s else s)"

definition woken :: "chan option \<Rightarrow> 'e pkst_scheme \<Rightarrow> 'e pkst_scheme" where
  "woken ch s = fold (wake_step ch) [0..<NPROC] s"

lemma wakeup1_ok: "crit a m s \<Longrightarrow> wakeup1 a ch s = Ok () (woken ch s) \<and> crit a m (woken ch s)"
  unfolding wakeup1_def woken_def
  by (rule forR_fold) (auto simp: wake_step_def crit_make_runnable)

lemma wake_fold_fields [simp]:
  "mach (fold (wake_step ch) is s) = mach s" "ticks (fold (wake_step ch) is s) = ticks s"
  "nextpid (fold (wake_step ch) is s) = nextpid s" "length (ptab (fold (wake_step ch) is s)) = length (ptab s)"
  by (induction "is" arbitrary: s) (simp_all add: wake_step_def)

lemma woken_fields [simp]:
  "mach (woken ch s) = mach s" "ticks (woken ch s) = ticks s" "nextpid (woken ch s) = nextpid s"
  "length (ptab (woken ch s)) = length (ptab s)"
  by (simp_all add: woken_def)

text \<open>What \<^verbatim>\<open>wakeup1\<close> does to one process.\<close>

definition wake_proc :: "u32 \<Rightarrow> chan option \<Rightarrow> proc \<Rightarrow> proc" where
  "wake_proc t ch p = (if state p = SLEEPING \<and> pchan p = ch then ready_fields t p else p)"

lemma wake_fold_nth:
  "distinct is \<Longrightarrow> j < length (ptab s) \<Longrightarrow>
   prc j (fold (wake_step ch) is s) = (if j \<in> set is then wake_proc (ticks s) ch (prc j s) else prc j s)"
proof (induction "is" arbitrary: s)
  case (Cons i "is")
  have "ticks (wake_step ch i s) = ticks s" "length (ptab (wake_step ch i s)) = length (ptab s)"
    by (simp_all add: wake_step_def)
  moreover have "prc j (wake_step ch i s) = (if j = i then wake_proc (ticks s) ch (prc j s) else prc j s)"
    using Cons.prems by (auto simp: wake_step_def wake_proc_def nth_upd)
  ultimately show ?case using Cons by auto
qed simp

lemma woken_ptab: "length (ptab s) = NPROC \<Longrightarrow> ptab (woken ch s) = map (wake_proc (ticks s) ch) (ptab s)"
  by (rule nth_equalityI) (simp_all add: woken_def wake_fold_nth)

lemma sched_inv_woken: "sched_inv s \<Longrightarrow> sched_inv (woken ch s)"
proof -
  have step: "sched_inv (wake_step ch i s)" if "sched_inv s" "i < NPROC" for i and s :: "'a pkst_scheme"
    using that by (auto simp: wake_step_def intro!: sched_inv_runnable_at)
  have "sched_inv (fold (wake_step ch) is s)" if "sched_inv s" "set is \<subseteq> {0..<NPROC}" for "is" and s :: "'a pkst_scheme"
    using that by (induction "is" arbitrary: s) (auto simp: step)
  then show "sched_inv s \<Longrightarrow> sched_inv (woken ch s)" by (simp add: woken_def)
qed

lemma wake_fold_mach: "(fold (wake_step ch) is s)\<lparr>mach := m\<rparr> = fold (wake_step ch) is (s\<lparr>mach := m\<rparr>)"
proof (induction "is" arbitrary: s)
  case (Cons i "is")
  have "(wake_step ch i s)\<lparr>mach := m\<rparr> = wake_step ch i (s\<lparr>mach := m\<rparr>)"
    by (simp add: wake_step_def runnable_at_mach)
  then show ?case using Cons by simp
qed simp

lemma woken_mach: "(woken ch s)\<lparr>mach := m\<rparr> = woken ch (s\<lparr>mach := m\<rparr>)"
  by (simp add: woken_def wake_fold_mach)

lemma wakeup_ok: "quiet a s \<Longrightarrow> wakeup a ch s = Ok () (woken (Some ch) (settled a s))"
proof -
  assume q: "quiet a s"
  let ?s = "s\<lparr>mach := acq a PtableLock (mach s)\<rparr>"
  have w: "wakeup1 a (Some ch) ?s = Ok () (woken (Some ch) ?s)" "crit a (mach s) (woken (Some ch) ?s)"
    using wakeup1_ok [OF crit_acquired [OF q]] by simp_all
  show ?thesis
    using q w crit_release [OF w(2)] by (simp add: wakeup_def quiet_acquire settled_def woken_mach)
qed

definition killed_at :: "nat \<Rightarrow> 'e pkst_scheme \<Rightarrow> 'e pkst_scheme" where
  "killed_at i s =
     (let s = upd_proc i (\<lambda>p. p\<lparr>killed := True\<rparr>) s in
      if state (prc i s) = SLEEPING then runnable_at i s else s)"

lemma kill_ok:
  assumes "quiet a s"
  shows "kill a n s = (case find_proc (\<lambda>p. pid p = n) (ptab s) 0 of
     None \<Rightarrow> Ok (- 1) (settled a s)
   | Some i \<Rightarrow> Ok 0 (killed_at i (settled a s)))"
proof -
  let ?s = "s\<lparr>mach := acq a PtableLock (mach s)\<rparr>"
  note c = crit_acquired [OF assms]
  have "crit a (mach s) (upd_proc i f ?s)" for i f using c by simp
  note c' = this
  show ?thesis
    using assms c c' crit_make_runnable [OF c'] crit_release [OF c]
    by (auto simp: kill_def quiet_acquire killed_at_def Let_def settled_def crit_release proc_simps(1-17)
        runnable_at_mach upd_proc_mach split: option.split)
qed

lemma sched_inv_killed_at:
  assumes "sched_inv s" "i < NPROC"
  shows "sched_inv (killed_at i s)"
proof -
  have "sched_inv (upd_proc i (\<lambda>p. p\<lparr>killed := True\<rparr>) s)"
    by (rule sched_inv_quiet_upd [OF assms(1)]) (simp_all add: same_ids_def)
  then show ?thesis
    using assms by (auto simp: killed_at_def Let_def intro!: sched_inv_runnable_at)
qed

section \<open>Leaving the CPU\<close>

lemma acq_cpu:
  assumes "cpu_ready a m" "cpu_ix a m = Some c"
  shows "cpu_ncli (cpus (acq a l m) ! c) = ncli_of a m + 1"
    and "ncli_of a m = 0 \<Longrightarrow> cpu_intena (cpus (acq a l m) ! c) = eif m a"
    and "cpu_proc (cpus (acq a l m) ! c) = cpu_proc (cpus m ! c)"
  using assms cpu_ix_SomeD [OF assms(2)] by (simp_all add: acq_def push_def ncli_of_def)

lemma cur_acq [simp]: "cpu_ready a m \<Longrightarrow> cur a (acq a l m) = cur a m"
  using acq_cpu(3) [of a m] by (auto simp: cur_def dest!: cpu_readyD)

lemma cur_settle [simp]: "cur a (settle b m) = cur a m"
  by (auto simp: cur_def settle_def nth_list_update split: option.splits dest!: cpu_ix_SomeD)

lemma crit_sched:
  assumes c: "crit a m s" and n: "ncli_of a m = 0" and p: "cur a m = Some i"
    and st: "state (prc i s) \<noteq> RUNNING"
  shows "sched a ret s = Off (upd_proc i (\<lambda>p. p\<lparr>kctxt := ret (eif m a)\<rparr>) s)"
proof -
  have m: "mach s = acq a PtableLock m" "cpu_ready a m" using c by (simp_all add: crit_def)
  obtain k where k: "cpu_ix a m = Some k" using cpu_readyD [OF m(2)] by blast
  have ix: "cpu_ix a (mach s) = Some k" using m k by simp
  have hold: "onM (holding a PtableLock) s = Ok True s"
    using m by (simp add: onM_def holding_ok settle_acq)
  have my: "onM (mycpu a) s = Ok k s"
    using m k by (simp add: onM_def mycpu_def)
  have pr: "myproc a s = Ok (Some i) s" using crit_myproc [OF c] m p by simp
  show ?thesis
    using st acq_cpu(1,2) [OF m(2) k, of PtableLock] n m
    by (simp add: sched_def pr hold my Let_def)
qed

definition yielded :: "ycaller \<Rightarrow> bool \<Rightarrow> nat \<Rightarrow> 'e pkst_scheme \<Rightarrow> 'e pkst_scheme" where
  "yielded k intena i s =
     upd_proc i (\<lambda>p. p\<lparr>kctxt := InYield k intena\<rparr>)
       (count_add 1 i (upd_proc i (\<lambda>p. p\<lparr>state := RUNNABLE, arrival_time := sint (ticks s),
          waited_ticks := 0, consecutive_run := 0\<rparr>) s))"

lemma yield_off:
  fixes s :: "'e pkst_scheme"
  assumes q: "quiet a s" and n: "ncli_of a (mach s) = 0" and p: "cur a (mach s) = Some i"
    and l: "i < length (ptab s)"
  shows "(yield a k s :: ('r, 'e pkst_scheme) res) = Off (yielded k (eif (mach s) a) i (s\<lparr>mach := acq a PtableLock (mach s)\<rparr>))"
proof -
  let ?s = "s\<lparr>mach := acq a PtableLock (mach s)\<rparr>"
  have c: "crit a (mach s) ?s" by (rule crit_acquired [OF q])
  have r: "ready a ?s" "free TicksLock ?s" "settle a (mach ?s) = mach ?s"
    using c by (simp_all only: crit_ready crit_free_ticks crit_settle)
  let ?f = "\<lambda>p :: proc. p\<lparr>state := RUNNABLE\<rparr>"
  let ?g = "\<lambda>p :: proc. p\<lparr>arrival_time := sint (ticks s), waited_ticks := 0, consecutive_run := 0\<rparr>"
  let ?t = "count_add 1 i (upd_proc i (?g \<circ> ?f) ?s)"
  have "(yield a k s :: ('r, 'e pkst_scheme) res) = sched a (InYield k) ?t"
    using r c p quiet_acquire [OF q]
    by (simp add: yield_def with_myproc_def crit_myproc [OF c] acquire_kst
        release_kst [of _ _ _ "mach ?s"] proc_simps quiet_def q [unfolded quiet_def])
  moreover have "sched a (InYield k) ?t =
      (Off (upd_proc i (\<lambda>p. p\<lparr>kctxt := InYield k (eif (mach s) a)\<rparr>) ?t) :: ('r, 'e pkst_scheme) res)"
    using c n p l by (intro crit_sched) (simp_all add: proc_simps)
  moreover have "?g \<circ> ?f = (\<lambda>p. p\<lparr>state := RUNNABLE, arrival_time := sint (ticks s), waited_ticks := 0, consecutive_run := 0\<rparr>)"
    by auto
  ultimately show ?thesis by (simp add: yielded_def)
qed

lemma sched_inv_yielded:
  assumes "sched_inv s" "i < NPROC" "state (prc i s) = RUNNING"
  shows "sched_inv (yielded k b i s)"
  unfolding yielded_def
  by (rule sched_inv_quiet_upd, rule sched_inv_enter) (use assms in \<open>auto simp: same_ids_def\<close>)

definition asleep :: "chan \<Rightarrow> lockid \<Rightarrow> bool \<Rightarrow> nat \<Rightarrow> 'e pkst_scheme \<Rightarrow> 'e pkst_scheme" where
  "asleep ch lk intena i s =
     upd_proc i (\<lambda>p. p\<lparr>pchan := Some ch, consecutive_run := 0, state := SLEEPING,
       kctxt := InSleep lk intena\<rparr>) s"

lemma upd_proc_cong: "f (prc i s) = g (prc i s) \<Longrightarrow> upd_proc i f s = upd_proc i g s"
  by (simp add: upd_proc_def)

text \<open>\<^verbatim>\<open>sleep\<close> with \<^verbatim>\<open>ptable.lock\<close> held, as \<^verbatim>\<open>wait\<close> calls it.\<close>

lemma sleep_off_crit:
  fixes s :: "'e pkst_scheme"
  assumes c: "crit a m s" and n: "ncli_of a m = 0" and p: "cur a m = Some i"
    and l: "i < length (ptab s)" and st: "state (prc i s) = RUNNING"
  shows "(sleep a ch PtableLock s :: ('r, 'e pkst_scheme) res) = Off (asleep ch PtableLock (eif m a) i s)"
proof -
  have m: "mach s = acq a PtableLock m" "cpu_ready a m" using c by (simp_all add: crit_def)
  let ?h = "\<lambda>p :: proc. p\<lparr>pchan := Some ch, consecutive_run := 0, state := SLEEPING\<rparr>"
  have e: "(\<lambda>p :: proc. p\<lparr>consecutive_run := 0, state := SLEEPING\<rparr>) \<circ> (\<lambda>p. p\<lparr>pchan := Some ch\<rparr>) = ?h"
    by auto
  have "(sleep a ch PtableLock s :: ('r, 'e pkst_scheme) res) = sched a (InSleep PtableLock) (upd_proc i ?h s)"
    using crit_myproc [OF c] m p l st by (simp add: sleep_def Let_def proc_simps e)
  moreover have "sched a (InSleep PtableLock) (upd_proc i ?h s) =
      (Off (upd_proc i (\<lambda>p. p\<lparr>kctxt := InSleep PtableLock (eif m a)\<rparr>) (upd_proc i ?h s)) :: ('r, 'e pkst_scheme) res)"
    using c n p l by (intro crit_sched) (simp_all add: proc_simps)
  moreover have "(\<lambda>p. p\<lparr>kctxt := InSleep PtableLock (eif m a)\<rparr>) \<circ> ?h =
      (\<lambda>p. p\<lparr>pchan := Some ch, consecutive_run := 0, state := SLEEPING, kctxt := InSleep PtableLock (eif m a)\<rparr>)"
    by auto
  ultimately show ?thesis by (simp add: asleep_def proc_simps)
qed

end
