(* ===== verification/Proc_Switch.thy ===== *)
theory Proc_Switch
  imports Proc_Inv
begin

text \<open>
  The effects of switching: \<^verbatim>\<open>sleep\<close> with a lock of the caller, the code that runs when a process is
  switched to (the second halves of \<^verbatim>\<open>sched\<close>, \<^verbatim>\<open>yield\<close> and \<^verbatim>\<open>sleep\<close>), and \<^verbatim>\<open>switchuvm\<close>. The
  interrupt flag that \<^verbatim>\<open>sched\<close> saves in its frame makes the lock look as if it had been taken by
  the process itself.
\<close>

section \<open>The machine under the process table lock\<close>

lemma set_if_fields [simp]: "cpu_ix b (set_if a x m) = cpu_ix b m" "ncli_of b (set_if a x m) = ncli_of b m"
  "lk_free l (set_if a x m) = lk_free l m" "cur b (set_if a x m) = cur b m"
  by (simp_all add: ncli_of_def lk_free_def cur_def split: option.split)

lemma ready_set_if: "ncli_of a m = 0 \<Longrightarrow> cpu_ready a (set_if a x m)"
  by (simp add: cpu_ready_def)

lemma acq_set_intena:
  assumes "cpu_ix a m = Some c" "ncli_of a m = 0"
  shows "upd_cpu c (\<lambda>x. x\<lparr>cpu_intena := b\<rparr>) (acq a l m) = acq a l (set_if a b m)"
  using assms cpu_ix_SomeD [OF assms(1)]
  by (intro mach_eqI) (auto simp: acq_def push_def ncli_of_def)

text \<open>Updates of a CPU's record that leave the fields of the lock code alone.\<close>

definition cpu_upd :: "(cpu \<Rightarrow> cpu) \<Rightarrow> bool" where
  "cpu_upd f \<longleftrightarrow> (\<forall>x. cpu_apicid (f x) = cpu_apicid x \<and> cpu_ncli (f x) = cpu_ncli x \<and>
     cpu_intena (f x) = cpu_intena x) \<and>
     (\<forall>x n b. f (x\<lparr>cpu_ncli := n, cpu_intena := b\<rparr>) = (f x)\<lparr>cpu_ncli := n, cpu_intena := b\<rparr>)"

lemma cpu_upd_proc [simp]: "cpu_upd (\<lambda>x. x\<lparr>cpu_proc := p\<rparr>)"
  by (simp add: cpu_upd_def)

lemma cpu_upd_esp0 [simp]: "cpu_upd (\<lambda>x. x\<lparr>cpu_esp0 := v\<rparr>)"
  by (simp add: cpu_upd_def)

lemma scan_upd_cpu [simp]: "cpu_upd f \<Longrightarrow> scan_apicid b (cs[c := f (cs ! c)]) k = scan_apicid b cs k"
  by (simp add: cpu_upd_def)

lemma ncli_upd_cpu [simp]: "cpu_upd f \<Longrightarrow> ncli_of b (upd_cpu c f m) = ncli_of b m"
  by (auto simp: ncli_of_def split: option.split dest!: cpu_ix_SomeD) (auto simp: cpu_upd_def nth_upd)

lemma ready_upd_cpu [simp]: "cpu_upd f \<Longrightarrow> cpu_ready b (upd_cpu c f m) = cpu_ready b m"
  by (simp add: cpu_ready_def)

lemma free_upd_cpu [simp]: "lk_free l (upd_cpu c f m) = lk_free l m"
  by (simp add: lk_free_def)

lemma update_commute:
  assumes "\<And>x. f (g x) = g (f x)"
  shows "xs[c := f (xs ! c), k := g (xs[c := f (xs ! c)] ! k)] =
    xs[k := g (xs ! k), c := f (xs[k := g (xs ! k)] ! c)]"
proof (cases "c = k")
  case True
  then show ?thesis using assms by (cases "k < length xs") (simp_all add: list_update_beyond)
next
  case False
  then show ?thesis by (simp add: list_update_swap)
qed

lemma push_upd_cpu:
  assumes f: "cpu_upd f"
  shows "push a (upd_cpu c f m) = upd_cpu c f (push a m)"
proof (cases "cpu_ix a m")
  case (Some k)
  define g where "g x = x\<lparr>cpu_ncli := cpu_ncli x + 1,
      cpu_intena := (if cpu_ncli x = 0 then eif m a else cpu_intena x)\<rparr>" for x :: cpu
  have "f (g x) = g (f x)" for x using f by (simp add: cpu_upd_def g_def)
  then have "cpus (upd_cpu k g (upd_cpu c f m)) = cpus (upd_cpu c f (upd_cpu k g m))"
    using update_commute [of f g "cpus m" c k] by simp
  moreover have "push a m' = set_if a False (upd_cpu k g m')" if "cpu_ix a m' = Some k" "eif m' = eif m" for m'
    using that by (simp add: push_def g_def)
  ultimately show ?thesis
    using f Some by (intro mach_eqI) simp_all
qed (use f in \<open>simp add: push_def\<close>)

lemma set_lock_upd_cpu: "set_lock l b p (upd_cpu c f m) = upd_cpu c f (set_lock l b p m)"
  by (intro mach_eqI) simp_all

lemma acq_upd_cpu: "cpu_upd f \<Longrightarrow> acq a l (upd_cpu c f m) = upd_cpu c f (acq a l m)"
  by (simp add: acq_def push_upd_cpu set_lock_upd_cpu)

definition set_cr3 :: "nat \<Rightarrow> u32 \<Rightarrow> mach \<Rightarrow> mach" where
  "set_cr3 a v m = m\<lparr>cr3 := (cr3 m)(a := v)\<rparr>"

lemma set_cr3_fields [simp]:
  "cpus (set_cr3 a v m) = cpus m" "eif (set_cr3 a v m) = eif m" "locks (set_cr3 a v m) = locks m"
  "cr3 (set_cr3 a v m) = (cr3 m)(a := v)" "lk_free l (set_cr3 a v m) = lk_free l m"
  "ncli_of b (set_cr3 a v m) = ncli_of b m" "cpu_ready b (set_cr3 a v m) = cpu_ready b m"
  "cur b (set_cr3 a v m) = cur b m"
  by (simp_all add: set_cr3_def lk_free_def ncli_of_def cpu_ready_def cur_def split: option.split)

lemma push_set_cr3: "push b (set_cr3 a v m) = set_cr3 a v (push b m)"
  by (intro mach_eqI) (auto simp: push_def split: option.split)

lemma acq_set_cr3: "acq b l (set_cr3 a v m) = set_cr3 a v (acq b l m)"
  by (intro mach_eqI) (auto simp: acq_def push_set_cr3)

lemma lcr3_set_cr3: "lcr3 a v s = s\<lparr>mach := set_cr3 a v (mach s)\<rparr>"
  by (simp add: lcr3_def set_cr3_def)

lemma cur_upd_proc: "cpu_ix a m = Some c \<Longrightarrow> cur a (upd_cpu c (\<lambda>x. x\<lparr>cpu_proc := p\<rparr>) m) = p"
  by (auto simp: cur_def dest!: cpu_ix_SomeD)

lemma pop_push_nested:
  assumes "cpu_ready a m" "0 < ncli_of a m" "cpu_upd f"
  shows "pop a (set_cr3 b v (upd_cpu c f (push a m))) = set_cr3 b v (upd_cpu c f m)"
proof -
  have "set_cr3 b v (upd_cpu c f (push a m)) = push a (set_cr3 b v (upd_cpu c f m))"
    using assms(3) by (simp add: push_upd_cpu push_set_cr3)
  moreover have "pop a (push a (set_cr3 b v (upd_cpu c f m))) = settle a (set_cr3 b v (upd_cpu c f m))"
    using assms by (intro pop_push) simp
  moreover have "settle a (set_cr3 b v (upd_cpu c f m)) = set_cr3 b v (upd_cpu c f m)"
    using assms by (intro settle_nested) simp
  ultimately show ?thesis by simp
qed

section \<open>Going to sleep with another lock\<close>

lemma release_other:
  assumes "mach s = acq a PtableLock (acq a lk m)" "cpu_ready a m" "lk_free lk m" "lk \<noteq> PtableLock"
  shows "release a lk s = Ok () (s\<lparr>mach := acq a PtableLock m\<rparr>)"
proof -
  have "release_m a lk (mach s) = Ok () (rel a lk (mach s))"
    using assms ncli_acq_pos [of a "acq a lk m" PtableLock] by (intro release_ok) simp_all
  then show ?thesis
    using assms by (simp add: release_def onM_def rel_acq_other)
qed

lemma sleep_off:
  fixes s :: "'e pkst_scheme"
  assumes m: "mach s = acq a lk m" "cpu_ready a m" "locks_free s m" "lk_free lk m" and lk: "lk \<noteq> PtableLock"
    and n: "ncli_of a m = 0" and p: "cur a m = Some i" and l: "i < length (ptab s)"
    and st: "state (prc i s) = RUNNING"
  shows "(sleep a ch lk s :: ('r, 'e pkst_scheme) res) =
    Off (asleep ch lk (eif m a) i (s\<lparr>mach := acq a PtableLock m\<rparr>))"
proof -
  let ?s = "s\<lparr>mach := acq a PtableLock m\<rparr>"
  have c: "crit a m ?s" using m by (simp add: crit_def)
  have acq: "acquire a PtableLock s = Ok () (s\<lparr>mach := acq a PtableLock (acq a lk m)\<rparr>)"
    using m lk by (simp add: acquire_kst locks_free_def)
  have rel: "release a lk (s\<lparr>mach := acq a PtableLock (acq a lk m)\<rparr>) = Ok () ?s"
    using release_other [of "s\<lparr>mach := acq a PtableLock (acq a lk m)\<rparr>" a lk m] m lk by simp
  have my: "myproc a s = Ok (Some i) s" using m p by (simp add: myproc_ok)
  let ?h = "\<lambda>p :: proc. p\<lparr>pchan := Some ch, consecutive_run := 0, state := SLEEPING\<rparr>"
  have e: "(\<lambda>p :: proc. p\<lparr>consecutive_run := 0, state := SLEEPING\<rparr>) \<circ> (\<lambda>p. p\<lparr>pchan := Some ch\<rparr>) = ?h"
    by auto
  have "(sleep a ch lk s :: ('r, 'e pkst_scheme) res) = sched a (InSleep lk) (upd_proc i ?h ?s)"
    using lk l st by (simp add: sleep_def my acq rel Let_def proc_simps e)
  moreover have "sched a (InSleep lk) (upd_proc i ?h ?s) =
      (Off (upd_proc i (\<lambda>p. p\<lparr>kctxt := InSleep lk (eif m a)\<rparr>) (upd_proc i ?h ?s)) :: ('r, 'e pkst_scheme) res)"
    using c n p l by (intro crit_sched) (simp_all add: proc_simps)
  moreover have "(\<lambda>p. p\<lparr>kctxt := InSleep lk (eif m a)\<rparr>) \<circ> ?h =
      (\<lambda>p. p\<lparr>pchan := Some ch, consecutive_run := 0, state := SLEEPING, kctxt := InSleep lk (eif m a)\<rparr>)"
    by auto
  ultimately show ?thesis by (simp add: asleep_def proc_simps)
qed

lemma sched_inv_asleep:
  assumes "sched_inv s" "i < NPROC" "state (prc i s) = RUNNING"
  shows "sched_inv (asleep ch lk b i s)"
proof -
  have "class_ok (prc i s)" using assms by (simp add: sched_inv_def)
  then show ?thesis
    unfolding asleep_def using assms
    by (intro sched_inv_same) (auto simp: class_ok_def intro!: same_tallyI)
qed

section \<open>Coming back\<close>

lemma crit_sched_resume:
  assumes c: "crit a m s" and n: "ncli_of a m = 0"
  shows "sched_resume a b s = Ok () (s\<lparr>mach := acq a PtableLock (set_if a b m)\<rparr>)"
    and "crit a (set_if a b m) (s\<lparr>mach := acq a PtableLock (set_if a b m)\<rparr>)"
proof -
  have m: "mach s = acq a PtableLock m" "cpu_ready a m" "locks_free s m" using c by (simp_all add: crit_def)
  obtain k where k: "cpu_ix a m = Some k" using cpu_readyD [OF m(2)] by blast
  have "onM (mycpu a) s = Ok k s" using m k by (simp add: onM_def mycpu_def)
  then show "sched_resume a b s = Ok () (s\<lparr>mach := acq a PtableLock (set_if a b m)\<rparr>)"
    using m by (simp add: sched_resume_def acq_set_intena [OF k n])
  show "crit a (set_if a b m) (s\<lparr>mach := acq a PtableLock (set_if a b m)\<rparr>)"
    using m n by (simp add: crit_def ready_set_if locks_free_def)
qed

lemma yield_resume_ok:
  assumes "crit a m s" "ncli_of a m = 0"
  shows "yield_resume a b s = Ok () (s\<lparr>mach := settle a (set_if a b m)\<rparr>)"
  using crit_sched_resume [OF assms] crit_release [OF crit_sched_resume(2) [OF assms]]
  by (simp add: yield_resume_def)

lemma sleep_resume_ptable_ok:
  assumes "crit a m s" "ncli_of a m = 0"
  shows "sleep_resume a i PtableLock b s =
    Ok () (upd_proc i (\<lambda>p. p\<lparr>pchan := None\<rparr>) (s\<lparr>mach := acq a PtableLock (set_if a b m)\<rparr>))"
  using crit_sched_resume [OF assms] by (simp add: sleep_resume_def Let_def)

lemma sleep_resume_ok:
  assumes c: "crit a m s" and n: "ncli_of a m = 0" and lk: "lk \<noteq> PtableLock" "lk_free lk m"
  shows "sleep_resume a i lk b s =
    Ok () (upd_proc i (\<lambda>p. p\<lparr>pchan := None\<rparr>) (s\<lparr>mach := acq a lk (settle a (set_if a b m))\<rparr>))"
proof -
  let ?s = "s\<lparr>mach := acq a PtableLock (set_if a b m)\<rparr>"
  note r = crit_sched_resume [OF c n, of b]
  have c2: "crit a (set_if a b m) (upd_proc i (\<lambda>p. p\<lparr>pchan := None\<rparr>) ?s)" using r(2) by simp
  have rdy: "cpu_ready a (set_if a b m)" using n by (rule ready_set_if)
  show ?thesis
    using lk crit_release [OF c2] rdy
    by (simp add: sleep_resume_def r(1) Let_def acquire_kst proc_simps)
qed

lemma sched_inv_wake_up: "sched_inv s \<Longrightarrow> sched_inv (upd_proc i (\<lambda>p. p\<lparr>pchan := None\<rparr>) s)"
  by (rule sched_inv_quiet_upd) (simp_all add: same_ids_def)

section \<open>Switching address spaces\<close>

definition esp0_of :: "proc \<Rightarrow> u32" where
  "esp0_of p = kstack p + KSTACKSIZE"

lemma switchuvm_ok:
  assumes c: "crit a m s" and ix: "cpu_ix a m = Some k" and ks: "kstack (prc i s) \<noteq> 0" "pgdir (prc i s) \<noteq> 0"
  shows "switchuvm a (Some i) s = Ok () (s\<lparr>mach := acq a PtableLock
    (set_cr3 a (V2P (pgdir (prc i s))) (upd_cpu k (\<lambda>x. x\<lparr>cpu_esp0 := esp0_of (prc i s)\<rparr>) m))\<rparr>)"
proof -
  have m: "mach s = acq a PtableLock m" "cpu_ready a m" using c by (simp_all add: crit_def)
  let ?M = "mach s" and ?f = "\<lambda>x. x\<lparr>cpu_esp0 := esp0_of (prc i s)\<rparr>" and ?v = "V2P (pgdir (prc i s))"
  have rdy: "cpu_ready a ?M" "0 < ncli_of a ?M" "cpu_ix a ?M = Some k"
    using m ix ncli_acq_pos [OF m(2)] by simp_all
  have push: "onM (pushcli a) s = Ok () (s\<lparr>mach := push a ?M\<rparr>)"
    using rdy by (simp add: onM_def pushcli_ok)
  have my: "onM (mycpu a) (s\<lparr>mach := push a ?M\<rparr>) = Ok k (s\<lparr>mach := push a ?M\<rparr>)"
    using rdy by (simp add: onM_def mycpu_def)
  have "popcli a (set_cr3 a ?v (upd_cpu k ?f (push a ?M))) = Ok () (set_cr3 a ?v (upd_cpu k ?f ?M))"
    using rdy by (subst popcli_ok) (simp_all add: pop_push_nested)
  then have pop: "onM (popcli a) (s\<lparr>mach := set_cr3 a ?v (upd_cpu k ?f (push a ?M))\<rparr>) =
      Ok () (s\<lparr>mach := set_cr3 a ?v (upd_cpu k ?f ?M)\<rparr>)"
    by (simp add: onM_def)
  have "set_cr3 a ?v (upd_cpu k ?f ?M) = acq a PtableLock (set_cr3 a ?v (upd_cpu k ?f m))"
    using m by (simp add: acq_set_cr3 acq_upd_cpu)
  then show ?thesis
    using ks pop by (simp add: switchuvm_def push my Let_def lcr3_set_cr3 esp0_of_def)
qed

end
