(* ===== verification/Sleeplock.thy ===== *)
theory Sleeplock
  imports Proc_Switch
begin

text \<open>
  Sleep locks, \<^verbatim>\<open>src/sleeplock.c\<close> and \<^verbatim>\<open>src/sleeplock.h\<close>. A sleep lock is protected by a spinlock
  of its own; a process that finds it taken sleeps on it. The loop of \<^verbatim>\<open>acquiresleep\<close> is a definition
  that is entered with the spinlock held, at the start and after every wake-up.
\<close>

record sleeplock =
  sl_locked :: bool
  sl_name :: string
  sl_pid :: int

record skst = pkst +
  slocks :: "sleeplockid \<Rightarrow> sleeplock"

definition set_slock :: "sleeplockid \<Rightarrow> bool \<Rightarrow> int \<Rightarrow> 'e skst_scheme \<Rightarrow> 'e skst_scheme" where
  "set_slock l b n s = s\<lparr>slocks := (slocks s)(l := (slocks s l)\<lparr>sl_locked := b, sl_pid := n\<rparr>)\<rparr>"

definition initsleeplock :: "sleeplockid \<Rightarrow> string \<Rightarrow> 'e skst_scheme \<Rightarrow> 'e skst_scheme" where
  "initsleeplock l nm s =
     s\<lparr>mach := initlock (SleepLk l) ''sleep lock'' (mach s),
       slocks := (slocks s)(l := \<lparr>sl_locked = False, sl_name = nm, sl_pid = 0\<rparr>)\<rparr>"

definition acquiresleep_loop :: "nat \<Rightarrow> sleeplockid \<Rightarrow> 'e skst_scheme \<Rightarrow> (unit, 'e skst_scheme) res" where
  "acquiresleep_loop a l s =
     (if sl_locked (slocks s l) then sleep a (ChSleepLock l) (SleepLk l) s
      else with_myproc a (\<lambda>i s. release a (SleepLk l) (set_slock l True (pid (prc i s)) s)) s)"

definition acquiresleep :: "nat \<Rightarrow> sleeplockid \<Rightarrow> 'e skst_scheme \<Rightarrow> (unit, 'e skst_scheme) res" where
  "acquiresleep a l s = bnd (acquire a (SleepLk l) s) (\<lambda>_ s. acquiresleep_loop a l s)"

definition acquiresleep_resume :: "nat \<Rightarrow> nat \<Rightarrow> sleeplockid \<Rightarrow> bool \<Rightarrow> 'e skst_scheme \<Rightarrow> (unit, 'e skst_scheme) res" where
  "acquiresleep_resume a i l intena s =
     bnd (sleep_resume a i (SleepLk l) intena s) (\<lambda>_ s. acquiresleep_loop a l s)"

definition releasesleep :: "nat \<Rightarrow> sleeplockid \<Rightarrow> 'e skst_scheme \<Rightarrow> (unit, 'e skst_scheme) res" where
  "releasesleep a l s =
     bnd (acquire a (SleepLk l) s) (\<lambda>_ s.
     bnd (wakeup a (ChSleepLock l) (set_slock l False 0 s)) (\<lambda>_ s.
     release a (SleepLk l) s))"

definition holdingsleep :: "nat \<Rightarrow> sleeplockid \<Rightarrow> 'e skst_scheme \<Rightarrow> (bool, 'e skst_scheme) res" where
  "holdingsleep a l s =
     bnd (acquire a (SleepLk l) s) (\<lambda>_ s.
     bnd (if sl_locked (slocks s l)
          then with_myproc a (\<lambda>i s. Ok (sl_pid (slocks s l) = pid (prc i s)) s) s
          else Ok False s) (\<lambda>r s.
     bnd (release a (SleepLk l) s) (\<lambda>_ s. Ok r s)))"

end
