(* ===== verification/Bio.thy ===== *)
theory Bio
  imports Sleeplock
begin

text \<open>
  The buffer cache, \<^verbatim>\<open>src/bio.c\<close> and \<^verbatim>\<open>src/buf.h\<close>, over the disk of \<^verbatim>\<open>src/memide.c\<close>, which answers
  every request at once. A buffer is named by its index in \<^verbatim>\<open>bcache.buf\<close>; the doubly linked list
  through \<^verbatim>\<open>bcache.head\<close> is the sequence of buffers from \<^verbatim>\<open>head.next\<close> (most recently used) to
  \<^verbatim>\<open>head.prev\<close>. \<open>wtrace\<close> records the writes the disk has seen, in order; no code reads it.
\<close>

definition BSIZE :: nat where "BSIZE = 512"
definition NBUF :: nat where "NBUF = 30"

type_synonym block = "u8 list"

record buf =
  b_valid :: bool
  b_dirty :: bool
  b_dev :: u32
  b_blockno :: u32
  b_refcnt :: int
  b_data :: block

record bkst = skst +
  bufs :: "buf list"
  lru :: "nat list"
  disk :: "block list"
  wtrace :: "(nat \<times> block) list"

definition upd_buf :: "nat \<Rightarrow> (buf \<Rightarrow> buf) \<Rightarrow> 'e bkst_scheme \<Rightarrow> 'e bkst_scheme" where
  "upd_buf i f s = s\<lparr>bufs := (bufs s)[i := f (bufs s ! i)]\<rparr>"

abbreviation bf :: "nat \<Rightarrow> 'e bkst_scheme \<Rightarrow> buf" where
  "bf i s \<equiv> bufs s ! i"

definition binit :: "'e bkst_scheme \<Rightarrow> 'e bkst_scheme" where
  "binit s =
     (let s = s\<lparr>mach := initlock BcacheLock ''bcache'' (mach s), lru := []\<rparr>
      in fold (\<lambda>i s. initsleeplock (BufLock i) ''buffer'' (s\<lparr>lru := i # lru s\<rparr>)) [0..<NBUF] s)"

definition iderw :: "nat \<Rightarrow> nat \<Rightarrow> 'e bkst_scheme \<Rightarrow> (unit, 'e bkst_scheme) res" where
  "iderw a i s =
     bnd (holdingsleep a (BufLock i) s) (\<lambda>h s.
     if \<not> h then Panic ''iderw: buf not locked''
     else if b_valid (bf i s) \<and> \<not> b_dirty (bf i s) then Panic ''iderw: nothing to do''
     else if b_dev (bf i s) \<noteq> 1 then Panic ''iderw: request not for disk 1''
     else if unat (b_blockno (bf i s)) \<ge> length (disk s) then Panic ''iderw: block out of range''
     else
       let n = unat (b_blockno (bf i s)) in
       if b_dirty (bf i s) then
         let s = upd_buf i (\<lambda>b. b\<lparr>b_dirty := False\<rparr>) s;
             s = s\<lparr>disk := (disk s)[n := b_data (bf i s)], wtrace := wtrace s @ [(n, b_data (bf i s))]\<rparr>
         in Ok () (upd_buf i (\<lambda>b. b\<lparr>b_valid := True\<rparr>) s)
       else
         let s = upd_buf i (\<lambda>b. b\<lparr>b_data := disk s ! n\<rparr>) s
         in Ok () (upd_buf i (\<lambda>b. b\<lparr>b_valid := True\<rparr>) s))"

definition bget :: "nat \<Rightarrow> u32 \<Rightarrow> u32 \<Rightarrow> 'e bkst_scheme \<Rightarrow> (nat, 'e bkst_scheme) res" where
  "bget a dev blockno s =
     bnd (acquire a BcacheLock s) (\<lambda>_ s.
     case find (\<lambda>i. b_dev (bf i s) = dev \<and> b_blockno (bf i s) = blockno) (lru s) of
       Some i \<Rightarrow>
         bnd (release a BcacheLock (upd_buf i (\<lambda>b. b\<lparr>b_refcnt := b_refcnt b + 1\<rparr>) s)) (\<lambda>_ s.
         bnd (acquiresleep a (BufLock i) s) (\<lambda>_ s. Ok i s))
     | None \<Rightarrow>
         case find (\<lambda>i. b_refcnt (bf i s) = 0 \<and> \<not> b_dirty (bf i s)) (rev (lru s)) of
           Some i \<Rightarrow>
             let s = upd_buf i (\<lambda>b. b\<lparr>b_dev := dev, b_blockno := blockno, b_valid := False,
                       b_dirty := False, b_refcnt := 1\<rparr>) s in
             bnd (release a BcacheLock s) (\<lambda>_ s.
             bnd (acquiresleep a (BufLock i) s) (\<lambda>_ s. Ok i s))
         | None \<Rightarrow> Panic ''bget: no buffers'')"

definition bread :: "nat \<Rightarrow> u32 \<Rightarrow> u32 \<Rightarrow> 'e bkst_scheme \<Rightarrow> (nat, 'e bkst_scheme) res" where
  "bread a dev blockno s =
     bnd (bget a dev blockno s) (\<lambda>i s.
     bnd (if \<not> b_valid (bf i s) then iderw a i s else Ok () s) (\<lambda>_ s. Ok i s))"

definition bwrite :: "nat \<Rightarrow> nat \<Rightarrow> 'e bkst_scheme \<Rightarrow> (unit, 'e bkst_scheme) res" where
  "bwrite a i s =
     bnd (holdingsleep a (BufLock i) s) (\<lambda>h s.
     if \<not> h then Panic ''bwrite'' else iderw a i (upd_buf i (\<lambda>b. b\<lparr>b_dirty := True\<rparr>) s))"

definition brelse :: "nat \<Rightarrow> nat \<Rightarrow> 'e bkst_scheme \<Rightarrow> (unit, 'e bkst_scheme) res" where
  "brelse a i s =
     bnd (holdingsleep a (BufLock i) s) (\<lambda>h s.
     if \<not> h then Panic ''brelse''
     else
       bnd (releasesleep a (BufLock i) s) (\<lambda>_ s.
       bnd (acquire a BcacheLock s) (\<lambda>_ s.
       let s = upd_buf i (\<lambda>b. b\<lparr>b_refcnt := b_refcnt b - 1\<rparr>) s;
           s = (if b_refcnt (bf i s) = 0 then s\<lparr>lru := i # remove1 i (lru s)\<rparr> else s)
       in release a BcacheLock s)))"

end
