(* ===== verification/Log.thy ===== *)
theory Log
  imports Bio
begin

text \<open>
  The write-ahead log, \<^verbatim>\<open>src/log.c\<close>. The header block on disk is an \<^verbatim>\<open>int\<close> count followed by block
  numbers, little-endian. The loop of \<^verbatim>\<open>begin_op\<close> is entered with \<^verbatim>\<open>log.lock\<close> held, at the start and
  after every wake-up.
\<close>

definition MAXOPBLOCKS :: int where "MAXOPBLOCKS = 10"
definition LOGSIZE :: int where "LOGSIZE = 30"

section \<open>Words in a block\<close>

definition get32 :: "block \<Rightarrow> nat \<Rightarrow> u32" where
  "get32 d k = ucast (d ! k) OR push_bit 8 (ucast (d ! (k + 1)))
     OR push_bit 16 (ucast (d ! (k + 2))) OR push_bit 24 (ucast (d ! (k + 3)))"

definition put32 :: "nat \<Rightarrow> u32 \<Rightarrow> block \<Rightarrow> block" where
  "put32 k w d = d[k := ucast w, k + 1 := ucast (drop_bit 8 w), k + 2 := ucast (drop_bit 16 w),
     k + 3 := ucast (drop_bit 24 w)]"

definition get16 :: "block \<Rightarrow> nat \<Rightarrow> 16 word" where
  "get16 d k = ucast (d ! k) OR push_bit 8 (ucast (d ! (k + 1)))"

definition put16 :: "nat \<Rightarrow> 16 word \<Rightarrow> block \<Rightarrow> block" where
  "put16 k w d = d[k := ucast w, k + 1 := ucast (drop_bit 8 w)]"

section \<open>State\<close>

record log =
  lg_start :: u32
  lg_size :: int
  lg_outstanding :: int
  lg_committing :: bool
  lg_dev :: u32
  lh_n :: int
  lh_block :: "u32 list"

record lkst = bkst +
  klog :: log

definition upd_log :: "(log \<Rightarrow> log) \<Rightarrow> 'e lkst_scheme \<Rightarrow> 'e lkst_scheme" where
  "upd_log f s = s\<lparr>klog := f (klog s)\<rparr>"

definition set_data :: "nat \<Rightarrow> block \<Rightarrow> 'e bkst_scheme \<Rightarrow> 'e bkst_scheme" where
  "set_data i d s = upd_buf i (\<lambda>b. b\<lparr>b_data := d\<rparr>) s"

section \<open>Operations\<close>

definition log_block :: "nat \<Rightarrow> 'e lkst_scheme \<Rightarrow> u32" where
  "log_block t s = lg_start (klog s) + word_of_nat t + 1"

definition install_one :: "nat \<Rightarrow> nat \<Rightarrow> 'e lkst_scheme \<Rightarrow> (unit, 'e lkst_scheme) res" where
  "install_one a t s =
     bnd (bread a (lg_dev (klog s)) (log_block t s) s) (\<lambda>lbuf s.
     bnd (bread a (lg_dev (klog s)) (lh_block (klog s) ! t) s) (\<lambda>dbuf s.
     bnd (bwrite a dbuf (set_data dbuf (b_data (bf lbuf s)) s)) (\<lambda>_ s.
     bnd (brelse a lbuf s) (\<lambda>_ s. brelse a dbuf s))))"

definition install_trans :: "nat \<Rightarrow> 'e lkst_scheme \<Rightarrow> (unit, 'e lkst_scheme) res" where
  "install_trans a s = forR [0..<nat (lh_n (klog s))] (install_one a) s"

definition read_head :: "nat \<Rightarrow> 'e lkst_scheme \<Rightarrow> (unit, 'e lkst_scheme) res" where
  "read_head a s =
     bnd (bread a (lg_dev (klog s)) (lg_start (klog s)) s) (\<lambda>b s.
     let d = b_data (bf b s); n = sint (get32 d 0);
         s = upd_log (\<lambda>l. l\<lparr>lh_n := n,
               lh_block := map (\<lambda>i. get32 d (4 * Suc i)) [0..<nat n] @ drop (nat n) (lh_block l)\<rparr>) s
     in brelse a b s)"

fun put_blocks :: "nat \<Rightarrow> u32 list \<Rightarrow> block \<Rightarrow> block" where
  "put_blocks k [] d = d"
| "put_blocks k (b # bs) d = put_blocks (k + 4) bs (put32 k b d)"

definition write_head :: "nat \<Rightarrow> 'e lkst_scheme \<Rightarrow> (unit, 'e lkst_scheme) res" where
  "write_head a s =
     bnd (bread a (lg_dev (klog s)) (lg_start (klog s)) s) (\<lambda>b s.
     let n = lh_n (klog s);
         d = put_blocks 4 (take (nat n) (lh_block (klog s))) (put32 0 (word_of_int n) (b_data (bf b s)))
     in bnd (bwrite a b (set_data b d s)) (\<lambda>_ s. brelse a b s))"

definition recover_from_log :: "nat \<Rightarrow> 'e lkst_scheme \<Rightarrow> (unit, 'e lkst_scheme) res" where
  "recover_from_log a s =
     bnd (read_head a s) (\<lambda>_ s.
     bnd (install_trans a s) (\<lambda>_ s.
     write_head a (upd_log (\<lambda>l. l\<lparr>lh_n := 0\<rparr>) s)))"

definition begin_op_loop :: "nat \<Rightarrow> 'e lkst_scheme \<Rightarrow> (unit, 'e lkst_scheme) res" where
  "begin_op_loop a s =
     (let l = klog s in
      if lg_committing l then sleep a ChLog LogLock s
      else if lh_n l + (lg_outstanding l + 1) * MAXOPBLOCKS > LOGSIZE then sleep a ChLog LogLock s
      else release a LogLock (upd_log (\<lambda>l. l\<lparr>lg_outstanding := lg_outstanding l + 1\<rparr>) s))"

definition begin_op :: "nat \<Rightarrow> 'e lkst_scheme \<Rightarrow> (unit, 'e lkst_scheme) res" where
  "begin_op a s = bnd (acquire a LogLock s) (\<lambda>_ s. begin_op_loop a s)"

definition begin_op_resume :: "nat \<Rightarrow> nat \<Rightarrow> bool \<Rightarrow> 'e lkst_scheme \<Rightarrow> (unit, 'e lkst_scheme) res" where
  "begin_op_resume a i intena s =
     bnd (sleep_resume a i LogLock intena s) (\<lambda>_ s. begin_op_loop a s)"

definition write_log_one :: "nat \<Rightarrow> nat \<Rightarrow> 'e lkst_scheme \<Rightarrow> (unit, 'e lkst_scheme) res" where
  "write_log_one a t s =
     bnd (bread a (lg_dev (klog s)) (log_block t s) s) (\<lambda>to s.
     bnd (bread a (lg_dev (klog s)) (lh_block (klog s) ! t) s) (\<lambda>from s.
     bnd (bwrite a to (set_data to (b_data (bf from s)) s)) (\<lambda>_ s.
     bnd (brelse a from s) (\<lambda>_ s. brelse a to s))))"

definition write_log :: "nat \<Rightarrow> 'e lkst_scheme \<Rightarrow> (unit, 'e lkst_scheme) res" where
  "write_log a s = forR [0..<nat (lh_n (klog s))] (write_log_one a) s"

definition commit :: "nat \<Rightarrow> 'e lkst_scheme \<Rightarrow> (unit, 'e lkst_scheme) res" where
  "commit a s =
     (if lh_n (klog s) > 0 then
        bnd (write_log a s) (\<lambda>_ s.
        bnd (write_head a s) (\<lambda>_ s.
        bnd (install_trans a s) (\<lambda>_ s.
        write_head a (upd_log (\<lambda>l. l\<lparr>lh_n := 0\<rparr>) s))))
      else Ok () s)"

definition end_op :: "nat \<Rightarrow> 'e lkst_scheme \<Rightarrow> (unit, 'e lkst_scheme) res" where
  "end_op a s =
     bnd (acquire a LogLock s) (\<lambda>_ s.
     let s = upd_log (\<lambda>l. l\<lparr>lg_outstanding := lg_outstanding l - 1\<rparr>) s in
     if lg_committing (klog s) then Panic ''log.committing''
     else
       let do_commit = (lg_outstanding (klog s) = 0) in
       bnd (if do_commit then Ok () (upd_log (\<lambda>l. l\<lparr>lg_committing := True\<rparr>) s)
            else wakeup a ChLog s) (\<lambda>_ s.
       bnd (release a LogLock s) (\<lambda>_ s.
       if do_commit then
         bnd (commit a s) (\<lambda>_ s.
         bnd (acquire a LogLock s) (\<lambda>_ s.
         bnd (wakeup a ChLog (upd_log (\<lambda>l. l\<lparr>lg_committing := False\<rparr>) s)) (\<lambda>_ s.
         release a LogLock s)))
       else Ok () s)))"

text \<open>
  The scan of \<^verbatim>\<open>log_write\<close>: the index of the block in the log, or the count. A \<^verbatim>\<open>uint\<close> block number
  is compared with an \<^verbatim>\<open>int\<close> entry as unsigned words.
\<close>

definition absorb_index :: "u32 \<Rightarrow> log \<Rightarrow> nat" where
  "absorb_index b l =
     (case find (\<lambda>i. lh_block l ! i = b) [0..<nat (lh_n l)] of Some i \<Rightarrow> i | None \<Rightarrow> nat (lh_n l))"

definition log_write :: "nat \<Rightarrow> nat \<Rightarrow> 'e lkst_scheme \<Rightarrow> (unit, 'e lkst_scheme) res" where
  "log_write a b s =
     (if lh_n (klog s) \<ge> LOGSIZE \<or> lh_n (klog s) \<ge> lg_size (klog s) - 1
      then Panic ''too big a transaction''
      else if lg_outstanding (klog s) < 1 then Panic ''log_write outside of trans''
      else
        bnd (acquire a LogLock s) (\<lambda>_ s.
        let blk = b_blockno (bf b s); i = absorb_index blk (klog s);
            s = upd_log (\<lambda>l. l\<lparr>lh_block := (lh_block l)[i := blk],
                  lh_n := (if int i = lh_n l then lh_n l + 1 else lh_n l)\<rparr>) s
        in release a LogLock (upd_buf b (\<lambda>x. x\<lparr>b_dirty := True\<rparr>) s)))"

end
