(* ===== verification/Fs.thy ===== *)
theory Fs
  imports Log
begin

text \<open>
  The file system, \<^verbatim>\<open>src/fs.c\<close> and \<^verbatim>\<open>src/fs.h\<close>: block allocator, inodes, inode content, directories and
  path names, and the part of \<^verbatim>\<open>src/log.c\<close> that needs the superblock. A pointer to a cached inode
  is its index in \<^verbatim>\<open>icache.inode\<close>, so the tests for a null inode pointer of \<^verbatim>\<open>ilock\<close> and \<^verbatim>\<open>iunlock\<close>
  have no counterpart. \<^verbatim>\<open>readi\<close> returns the bytes the code copies to the caller's memory and
  \<^verbatim>\<open>writei\<close> takes the bytes it copies from there; the caller stores or fetches them. The device table
  \<^verbatim>\<open>devsw\<close> of \<^verbatim>\<open>src/file.h\<close>, a table of function pointers, is an argument.
\<close>

section \<open>On-disk format\<close>

definition ROOTDEV :: u32 where "ROOTDEV = 1"
definition ROOTINO :: u32 where "ROOTINO = 1"
definition NINODE :: nat where "NINODE = 50"
definition NDEV :: int where "NDEV = 10"
definition NDIRECT :: nat where "NDIRECT = 12"
definition NINDIRECT :: nat where "NINDIRECT = BSIZE div 4"
definition MAXFILE :: nat where "MAXFILE = NDIRECT + NINDIRECT"
definition IPB :: nat where "IPB = BSIZE div 64"
definition BPB :: nat where "BPB = BSIZE * 8"
definition DIRSIZ :: nat where "DIRSIZ = 14"
definition T_DIR :: "16 word" where "T_DIR = 1"
definition T_FILE :: "16 word" where "T_FILE = 2"
definition T_DEV :: "16 word" where "T_DEV = 3"

record superblock =
  sb_size :: u32
  sb_nblocks :: u32
  sb_ninodes :: u32
  sb_nlog :: u32
  sb_logstart :: u32
  sb_inodestart :: u32
  sb_bmapstart :: u32

definition sb_of_block :: "block \<Rightarrow> superblock" where
  "sb_of_block d = \<lparr>sb_size = get32 d 0, sb_nblocks = get32 d 4, sb_ninodes = get32 d 8,
     sb_nlog = get32 d 12, sb_logstart = get32 d 16, sb_inodestart = get32 d 20,
     sb_bmapstart = get32 d 24\<rparr>"

record dinode =
  di_type :: "16 word"
  di_major :: "16 word"
  di_minor :: "16 word"
  di_nlink :: "16 word"
  di_size :: u32
  di_addrs :: "u32 list"

definition get_dinode :: "block \<Rightarrow> nat \<Rightarrow> dinode" where
  "get_dinode d k = \<lparr>di_type = get16 d (64 * k), di_major = get16 d (64 * k + 2),
     di_minor = get16 d (64 * k + 4), di_nlink = get16 d (64 * k + 6), di_size = get32 d (64 * k + 8),
     di_addrs = map (\<lambda>j. get32 d (64 * k + 12 + 4 * j)) [0..<NDIRECT + 1]\<rparr>"

definition put_dinode :: "nat \<Rightarrow> dinode \<Rightarrow> block \<Rightarrow> block" where
  "put_dinode k di d =
     put_blocks (64 * k + 12) (di_addrs di)
      (put32 (64 * k + 8) (di_size di) (put16 (64 * k + 6) (di_nlink di)
      (put16 (64 * k + 4) (di_minor di) (put16 (64 * k + 2) (di_major di)
      (put16 (64 * k) (di_type di) d)))))"

definition IBLOCK :: "u32 \<Rightarrow> superblock \<Rightarrow> u32" where
  "IBLOCK i sb = i div word_of_nat IPB + sb_inodestart sb"

definition BBLOCK :: "u32 \<Rightarrow> superblock \<Rightarrow> u32" where
  "BBLOCK b sb = b div word_of_nat BPB + sb_bmapstart sb"

record dirent =
  de_inum :: "16 word"
  de_name :: "u8 list"

definition dirent_of :: "u8 list \<Rightarrow> dirent" where
  "dirent_of d = \<lparr>de_inum = get16 d 0, de_name = take DIRSIZ (drop 2 d)\<rparr>"

definition bytes_of_dirent :: "dirent \<Rightarrow> u8 list" where
  "bytes_of_dirent de = [ucast (de_inum de), ucast (drop_bit 8 (de_inum de))] @ de_name de"

section \<open>State\<close>

record inode =
  i_dev :: u32
  i_inum :: u32
  i_ref :: int
  i_valid :: bool
  i_type :: "16 word"
  i_major :: "16 word"
  i_minor :: "16 word"
  i_nlink :: "16 word"
  i_size :: u32
  i_addrs :: "u32 list"

record fkst = lkst +
  sb :: superblock
  icache :: "inode list"

record 's devops =
  dv_read :: "(nat \<Rightarrow> nat \<Rightarrow> int \<Rightarrow> 's \<Rightarrow> (int \<times> u8 list, 's) res) option"
  dv_write :: "(nat \<Rightarrow> nat \<Rightarrow> u8 list \<Rightarrow> 's \<Rightarrow> (int, 's) res) option"

type_synonym 's devtab = "nat \<Rightarrow> 's devops"

abbreviation ino :: "nat \<Rightarrow> 'e fkst_scheme \<Rightarrow> inode" where
  "ino i s \<equiv> icache s ! i"

definition upd_ino :: "nat \<Rightarrow> (inode \<Rightarrow> inode) \<Rightarrow> 'e fkst_scheme \<Rightarrow> 'e fkst_scheme" where
  "upd_ino i f s = s\<lparr>icache := (icache s)[i := f (icache s ! i)]\<rparr>"

section \<open>Superblock and blocks\<close>

definition readsb :: "nat \<Rightarrow> u32 \<Rightarrow> 'e bkst_scheme \<Rightarrow> (superblock, 'e bkst_scheme) res" where
  "readsb a dev s =
     bnd (bread a dev 1 s) (\<lambda>bp s.
     let r = sb_of_block (b_data (bf bp s)) in bnd (brelse a bp s) (\<lambda>_ s. Ok r s))"

definition initlog :: "nat \<Rightarrow> u32 \<Rightarrow> 'e lkst_scheme \<Rightarrow> (unit, 'e lkst_scheme) res" where
  "initlog a dev s =
     (let s = s\<lparr>mach := initlock LogLock ''log'' (mach s)\<rparr> in
      bnd (readsb a dev s) (\<lambda>b s.
      recover_from_log a (upd_log (\<lambda>l. l\<lparr>lg_start := sb_logstart b, lg_size := sint (sb_nlog b),
        lg_dev := dev\<rparr>) s)))"

definition bzero :: "nat \<Rightarrow> u32 \<Rightarrow> u32 \<Rightarrow> 'e lkst_scheme \<Rightarrow> (unit, 'e lkst_scheme) res" where
  "bzero a dev bno s =
     bnd (bread a dev bno s) (\<lambda>bp s.
     bnd (log_write a bp (set_data bp (replicate BSIZE 0) s)) (\<lambda>_ s. brelse a bp s))"

text \<open>The test and the update of one bit of a bitmap block.\<close>

definition bit_mask :: "nat \<Rightarrow> u8" where
  "bit_mask bi = push_bit (bi mod 8) 1"

definition bit_clear :: "block \<Rightarrow> nat \<Rightarrow> bool" where
  "bit_clear d bi \<longleftrightarrow> d ! (bi div 8) AND bit_mask bi = 0"

definition mark_used :: "nat \<Rightarrow> block \<Rightarrow> block" where
  "mark_used bi d = d[bi div 8 := d ! (bi div 8) OR bit_mask bi]"

definition mark_free :: "nat \<Rightarrow> block \<Rightarrow> block" where
  "mark_free bi d = d[bi div 8 := d ! (bi div 8) AND NOT (bit_mask bi)]"

text \<open>One round of the outer loop of \<^verbatim>\<open>balloc\<close>, over the bitmap block that covers block \<open>b\<close> and on.\<close>

definition balloc_chunk :: "nat \<Rightarrow> u32 \<Rightarrow> nat \<Rightarrow> 'e fkst_scheme \<Rightarrow> (nat option, 'e fkst_scheme) res" where
  "balloc_chunk a dev b s =
     bnd (bread a dev (BBLOCK (word_of_nat b) (sb s)) s) (\<lambda>bp s.
     case find (bit_clear (b_data (bf bp s))) [0..<min BPB (unat (sb_size (sb s)) - b)] of
       Some bi \<Rightarrow>
         bnd (log_write a bp (set_data bp (mark_used bi (b_data (bf bp s))) s)) (\<lambda>_ s.
         bnd (brelse a bp s) (\<lambda>_ s.
         bnd (bzero a dev (word_of_nat (b + bi)) s) (\<lambda>_ s. Ok (Some (b + bi)) s)))
     | None \<Rightarrow> bnd (brelse a bp s) (\<lambda>_ s. Ok None s))"

definition chunks :: "nat \<Rightarrow> nat \<Rightarrow> nat list" where
  "chunks step n = map (\<lambda>k. step * k) [0..<(n + step - 1) div step]"

definition balloc :: "nat \<Rightarrow> u32 \<Rightarrow> 'e fkst_scheme \<Rightarrow> (u32, 'e fkst_scheme) res" where
  "balloc a dev s =
     bnd (findR (chunks BPB (unat (sb_size (sb s)))) (balloc_chunk a dev) s) (\<lambda>r s.
     case r of Some b \<Rightarrow> Ok (word_of_nat b) s | None \<Rightarrow> Panic ''balloc: out of blocks'')"

definition bfree :: "nat \<Rightarrow> u32 \<Rightarrow> u32 \<Rightarrow> 'e fkst_scheme \<Rightarrow> (unit, 'e fkst_scheme) res" where
  "bfree a dev b s =
     bnd (bread a dev (BBLOCK b (sb s)) s) (\<lambda>bp s.
     let bi = unat b mod BPB in
     if bit_clear (b_data (bf bp s)) bi then Panic ''freeing free block''
     else
       bnd (log_write a bp (set_data bp (mark_free bi (b_data (bf bp s))) s)) (\<lambda>_ s. brelse a bp s))"

section \<open>Inodes\<close>

definition sb_fmt :: string where
  "sb_fmt = ''sb: size %d nblocks %d ninodes %d nlog %d logstart %d inodestart %d bmap start %d'' @ newline"

definition iinit :: "nat \<Rightarrow> u32 \<Rightarrow> 'e fkst_scheme \<Rightarrow> (unit, 'e fkst_scheme) res" where
  "iinit a dev s =
     (let s = s\<lparr>mach := initlock IcacheLock ''icache'' (mach s)\<rparr>;
          s = fold (\<lambda>i. initsleeplock (InodeLock i) ''inode'') [0..<NINODE] s
      in bnd (readsb a dev s) (\<lambda>b s.
         cprintf a sb_fmt (map PInt [sb_size b, sb_nblocks b, sb_ninodes b, sb_nlog b, sb_logstart b,
           sb_inodestart b, sb_bmapstart b]) (s\<lparr>sb := b\<rparr>)))"

definition iget :: "nat \<Rightarrow> u32 \<Rightarrow> u32 \<Rightarrow> 'e fkst_scheme \<Rightarrow> (nat, 'e fkst_scheme) res" where
  "iget a dev inum s =
     bnd (acquire a IcacheLock s) (\<lambda>_ s.
     case find (\<lambda>i. i_ref (ino i s) > 0 \<and> i_dev (ino i s) = dev \<and> i_inum (ino i s) = inum) [0..<NINODE] of
       Some i \<Rightarrow>
         bnd (release a IcacheLock (upd_ino i (\<lambda>p. p\<lparr>i_ref := i_ref p + 1\<rparr>) s)) (\<lambda>_ s. Ok i s)
     | None \<Rightarrow>
         case find (\<lambda>i. i_ref (ino i s) = 0) [0..<NINODE] of
           Some i \<Rightarrow>
             bnd (release a IcacheLock
                   (upd_ino i (\<lambda>p. p\<lparr>i_dev := dev, i_inum := inum, i_ref := 1, i_valid := False\<rparr>) s))
               (\<lambda>_ s. Ok i s)
         | None \<Rightarrow> Panic ''iget: no inodes'')"

definition zero_dinode :: "16 word \<Rightarrow> dinode" where
  "zero_dinode ty = \<lparr>di_type = ty, di_major = 0, di_minor = 0, di_nlink = 0, di_size = 0,
     di_addrs = replicate (NDIRECT + 1) 0\<rparr>"

definition ialloc_one :: "nat \<Rightarrow> u32 \<Rightarrow> 16 word \<Rightarrow> nat \<Rightarrow> 'e fkst_scheme \<Rightarrow> (nat option, 'e fkst_scheme) res" where
  "ialloc_one a dev ty inum s =
     bnd (bread a dev (IBLOCK (word_of_nat inum) (sb s)) s) (\<lambda>bp s.
     if di_type (get_dinode (b_data (bf bp s)) (inum mod IPB)) = 0 then
       bnd (log_write a bp (set_data bp (put_dinode (inum mod IPB) (zero_dinode ty) (b_data (bf bp s))) s)) (\<lambda>_ s.
       bnd (brelse a bp s) (\<lambda>_ s.
       bnd (iget a dev (word_of_nat inum) s) (\<lambda>i s. Ok (Some i) s)))
     else bnd (brelse a bp s) (\<lambda>_ s. Ok None s))"

definition ialloc :: "nat \<Rightarrow> u32 \<Rightarrow> 16 word \<Rightarrow> 'e fkst_scheme \<Rightarrow> (nat, 'e fkst_scheme) res" where
  "ialloc a dev ty s =
     bnd (findR [1..<unat (sb_ninodes (sb s))] (ialloc_one a dev ty) s) (\<lambda>r s.
     case r of Some i \<Rightarrow> Ok i s | None \<Rightarrow> Panic ''ialloc: no inodes'')"

definition dinode_of :: "inode \<Rightarrow> dinode" where
  "dinode_of p = \<lparr>di_type = i_type p, di_major = i_major p, di_minor = i_minor p,
     di_nlink = i_nlink p, di_size = i_size p, di_addrs = i_addrs p\<rparr>"

definition load_dinode :: "dinode \<Rightarrow> inode \<Rightarrow> inode" where
  "load_dinode di p = p\<lparr>i_type := di_type di, i_major := di_major di, i_minor := di_minor di,
     i_nlink := di_nlink di, i_size := di_size di, i_addrs := di_addrs di\<rparr>"

definition iupdate :: "nat \<Rightarrow> nat \<Rightarrow> 'e fkst_scheme \<Rightarrow> (unit, 'e fkst_scheme) res" where
  "iupdate a ip s =
     bnd (bread a (i_dev (ino ip s)) (IBLOCK (i_inum (ino ip s)) (sb s)) s) (\<lambda>bp s.
     bnd (log_write a bp (set_data bp
           (put_dinode (unat (i_inum (ino ip s)) mod IPB) (dinode_of (ino ip s)) (b_data (bf bp s))) s)) (\<lambda>_ s.
     brelse a bp s))"

definition idup :: "nat \<Rightarrow> nat \<Rightarrow> 'e fkst_scheme \<Rightarrow> (nat, 'e fkst_scheme) res" where
  "idup a ip s =
     bnd (acquire a IcacheLock s) (\<lambda>_ s.
     bnd (release a IcacheLock (upd_ino ip (\<lambda>p. p\<lparr>i_ref := i_ref p + 1\<rparr>) s)) (\<lambda>_ s. Ok ip s))"

definition ilock :: "nat \<Rightarrow> nat \<Rightarrow> 'e fkst_scheme \<Rightarrow> (unit, 'e fkst_scheme) res" where
  "ilock a ip s =
     (if i_ref (ino ip s) < 1 then Panic ''ilock''
      else
        bnd (acquiresleep a (InodeLock ip) s) (\<lambda>_ s.
        if i_valid (ino ip s) then Ok () s
        else
          bnd (bread a (i_dev (ino ip s)) (IBLOCK (i_inum (ino ip s)) (sb s)) s) (\<lambda>bp s.
          let di = get_dinode (b_data (bf bp s)) (unat (i_inum (ino ip s)) mod IPB) in
          bnd (brelse a bp (upd_ino ip (load_dinode di) s)) (\<lambda>_ s.
          let s = upd_ino ip (\<lambda>p. p\<lparr>i_valid := True\<rparr>) s in
          if i_type (ino ip s) = 0 then Panic ''ilock: no type'' else Ok () s))))"

definition iunlock :: "nat \<Rightarrow> nat \<Rightarrow> 'e fkst_scheme \<Rightarrow> (unit, 'e fkst_scheme) res" where
  "iunlock a ip s =
     bnd (holdingsleep a (InodeLock ip) s) (\<lambda>h s.
     if \<not> h \<or> i_ref (ino ip s) < 1 then Panic ''iunlock'' else releasesleep a (InodeLock ip) s)"

definition trunc_direct :: "nat \<Rightarrow> nat \<Rightarrow> nat \<Rightarrow> 'e fkst_scheme \<Rightarrow> (unit, 'e fkst_scheme) res" where
  "trunc_direct a ip i s =
     (if i_addrs (ino ip s) ! i \<noteq> 0 then
        bnd (bfree a (i_dev (ino ip s)) (i_addrs (ino ip s) ! i) s) (\<lambda>_ s.
        Ok () (upd_ino ip (\<lambda>p. p\<lparr>i_addrs := (i_addrs p)[i := 0]\<rparr>) s))
      else Ok () s)"

definition trunc_indirect :: "nat \<Rightarrow> nat \<Rightarrow> nat \<Rightarrow> nat \<Rightarrow> 'e fkst_scheme \<Rightarrow> (unit, 'e fkst_scheme) res" where
  "trunc_indirect a ip bp j s =
     (if get32 (b_data (bf bp s)) (4 * j) \<noteq> 0
      then bfree a (i_dev (ino ip s)) (get32 (b_data (bf bp s)) (4 * j)) s else Ok () s)"

definition itrunc :: "nat \<Rightarrow> nat \<Rightarrow> 'e fkst_scheme \<Rightarrow> (unit, 'e fkst_scheme) res" where
  "itrunc a ip s =
     bnd (forR [0..<NDIRECT] (trunc_direct a ip) s) (\<lambda>_ s.
     bnd (if i_addrs (ino ip s) ! NDIRECT \<noteq> 0 then
            bnd (bread a (i_dev (ino ip s)) (i_addrs (ino ip s) ! NDIRECT) s) (\<lambda>bp s.
            bnd (forR [0..<NINDIRECT] (trunc_indirect a ip bp) s) (\<lambda>_ s.
            bnd (brelse a bp s) (\<lambda>_ s.
            bnd (bfree a (i_dev (ino ip s)) (i_addrs (ino ip s) ! NDIRECT) s) (\<lambda>_ s.
            Ok () (upd_ino ip (\<lambda>p. p\<lparr>i_addrs := (i_addrs p)[NDIRECT := 0]\<rparr>) s)))))
          else Ok () s) (\<lambda>_ s.
     iupdate a ip (upd_ino ip (\<lambda>p. p\<lparr>i_size := 0\<rparr>) s)))"

definition iput :: "nat \<Rightarrow> nat \<Rightarrow> 'e fkst_scheme \<Rightarrow> (unit, 'e fkst_scheme) res" where
  "iput a ip s =
     bnd (acquiresleep a (InodeLock ip) s) (\<lambda>_ s.
     bnd (if i_valid (ino ip s) \<and> i_nlink (ino ip s) = 0 then
            bnd (acquire a IcacheLock s) (\<lambda>_ s.
            let r = i_ref (ino ip s) in
            bnd (release a IcacheLock s) (\<lambda>_ s.
            if r = 1 then
              bnd (itrunc a ip s) (\<lambda>_ s.
              bnd (iupdate a ip (upd_ino ip (\<lambda>p. p\<lparr>i_type := 0\<rparr>) s)) (\<lambda>_ s.
              Ok () (upd_ino ip (\<lambda>p. p\<lparr>i_valid := False\<rparr>) s)))
            else Ok () s))
          else Ok () s) (\<lambda>_ s.
     bnd (releasesleep a (InodeLock ip) s) (\<lambda>_ s.
     bnd (acquire a IcacheLock s) (\<lambda>_ s.
     release a IcacheLock (upd_ino ip (\<lambda>p. p\<lparr>i_ref := i_ref p - 1\<rparr>) s)))))"

definition iunlockput :: "nat \<Rightarrow> nat \<Rightarrow> 'e fkst_scheme \<Rightarrow> (unit, 'e fkst_scheme) res" where
  "iunlockput a ip s = bnd (iunlock a ip s) (\<lambda>_ s. iput a ip s)"

section \<open>Inode content\<close>

definition bmap :: "nat \<Rightarrow> nat \<Rightarrow> u32 \<Rightarrow> 'e fkst_scheme \<Rightarrow> (u32, 'e fkst_scheme) res" where
  "bmap a ip bn s =
     (if bn < word_of_nat NDIRECT then
        let addr = i_addrs (ino ip s) ! unat bn in
        if addr = 0 then
          bnd (balloc a (i_dev (ino ip s)) s) (\<lambda>addr s.
          Ok addr (upd_ino ip (\<lambda>p. p\<lparr>i_addrs := (i_addrs p)[unat bn := addr]\<rparr>) s))
        else Ok addr s
      else
        let bn = bn - word_of_nat NDIRECT in
        if bn < word_of_nat NINDIRECT then
          bnd (let addr = i_addrs (ino ip s) ! NDIRECT in
               if addr = 0 then
                 bnd (balloc a (i_dev (ino ip s)) s) (\<lambda>addr s.
                 Ok addr (upd_ino ip (\<lambda>p. p\<lparr>i_addrs := (i_addrs p)[NDIRECT := addr]\<rparr>) s))
               else Ok addr s) (\<lambda>addr s.
          bnd (bread a (i_dev (ino ip s)) addr s) (\<lambda>bp s.
          bnd (let addr = get32 (b_data (bf bp s)) (4 * unat bn) in
               if addr = 0 then
                 bnd (balloc a (i_dev (ino ip s)) s) (\<lambda>addr s.
                 bnd (log_write a bp (set_data bp (put32 (4 * unat bn) addr (b_data (bf bp s))) s)) (\<lambda>_ s.
                 Ok addr s))
               else Ok addr s) (\<lambda>addr s.
          bnd (brelse a bp s) (\<lambda>_ s. Ok addr s))))
        else Panic ''bmap: out of range'')"

record stat =
  st_type :: "16 word"
  st_dev :: u32
  st_ino :: u32
  st_nlink :: "16 word"
  st_size :: u32

definition stati :: "nat \<Rightarrow> 'e fkst_scheme \<Rightarrow> stat" where
  "stati ip s = \<lparr>st_type = i_type (ino ip s), st_dev = i_dev (ino ip s), st_ino = i_inum (ino ip s),
     st_nlink = i_nlink (ino ip s), st_size = i_size (ino ip s)\<rparr>"

text \<open>
  The copying loops of \<^verbatim>\<open>readi\<close> and \<^verbatim>\<open>writei\<close>. The argument \<open>r\<close> is \<^verbatim>\<open>n - tot\<close>, the number of bytes left.
\<close>

definition span :: "u32 \<Rightarrow> u32 \<Rightarrow> u32" where
  "span off r = (if r < word_of_nat BSIZE - off mod word_of_nat BSIZE then r
                 else word_of_nat BSIZE - off mod word_of_nat BSIZE)"

lemma mod_BSIZE: "unat ((off :: u32) mod word_of_nat BSIZE) = unat off mod BSIZE"
  by (simp add: unat_mod_distrib BSIZE_def)

lemma unat_span: "unat (span off r) = min (unat r) (BSIZE - unat off mod BSIZE)"
proof -
  have "off mod word_of_nat BSIZE \<le> word_of_nat BSIZE"
    by (simp add: word_le_nat_alt mod_BSIZE) (simp add: BSIZE_def less_imp_le)
  then have "unat (word_of_nat BSIZE - off mod word_of_nat BSIZE :: u32) = BSIZE - unat off mod BSIZE"
    by (simp add: unat_sub mod_BSIZE) (simp add: BSIZE_def)
  then show ?thesis by (simp add: span_def word_less_nat_alt min_def)
qed

lemma span_shrinks:
  assumes "r \<noteq> 0" shows "unat (r - span off r) < unat r"
proof -
  have r: "0 < unat r" using assms by (simp add: unat_gt_0)
  have m: "unat off mod BSIZE < BSIZE" by (simp add: BSIZE_def)
  have "span off r \<le> r" by (simp add: word_le_nat_alt unat_span)
  then have "unat (r - span off r) = unat r - unat (span off r)" by (simp add: unat_sub)
  then show ?thesis using r m by (simp add: unat_span)
qed

function readi_loop :: "nat \<Rightarrow> nat \<Rightarrow> u32 \<Rightarrow> u32 \<Rightarrow> 'e fkst_scheme \<Rightarrow> (u8 list, 'e fkst_scheme) res" where
  "readi_loop a ip off r s =
     (if r = 0 then Ok [] s
      else
        bnd (bmap a ip (off div word_of_nat BSIZE) s) (\<lambda>b s.
        bnd (bread a (i_dev (ino ip s)) b s) (\<lambda>bp s.
        let m = span off r;
            d = take (unat m) (drop (unat (off mod word_of_nat BSIZE)) (b_data (bf bp s))) in
        bnd (brelse a bp s) (\<lambda>_ s.
        bnd (readi_loop a ip (off + m) (r - m) s) (\<lambda>ds s. Ok (d @ ds) s)))))"
  by pat_completeness auto
termination by (relation "measure (\<lambda>(a, ip, off, r, s). unat r)") (auto simp: span_shrinks)

declare readi_loop.simps [simp del]

definition readi :: "'e fkst_scheme devtab \<Rightarrow> nat \<Rightarrow> nat \<Rightarrow> u32 \<Rightarrow> u32 \<Rightarrow> 'e fkst_scheme
    \<Rightarrow> (int \<times> u8 list, 'e fkst_scheme) res" where
  "readi dv a ip off n s =
     (if i_type (ino ip s) = T_DEV then
        let mj = sint (i_major (ino ip s)) in
        if mj < 0 \<or> mj \<ge> NDEV then Ok (-1, []) s
        else (case dv_read (dv (nat mj)) of None \<Rightarrow> Ok (-1, []) s | Some f \<Rightarrow> f a ip (sint n) s)
      else if off > i_size (ino ip s) \<or> off + n < off then Ok (-1, []) s
      else
        let n = (if off + n > i_size (ino ip s) then i_size (ino ip s) - off else n) in
        bnd (readi_loop a ip off n s) (\<lambda>d s. Ok (sint n, d) s))"

definition put_bytes :: "nat \<Rightarrow> u8 list \<Rightarrow> block \<Rightarrow> block" where
  "put_bytes k xs d = take k d @ xs @ drop (k + length xs) d"

function writei_loop :: "nat \<Rightarrow> nat \<Rightarrow> u8 list \<Rightarrow> u32 \<Rightarrow> u32 \<Rightarrow> 'e fkst_scheme \<Rightarrow> (unit, 'e fkst_scheme) res" where
  "writei_loop a ip src off r s =
     (if r = 0 then Ok () s
      else
        bnd (bmap a ip (off div word_of_nat BSIZE) s) (\<lambda>b s.
        bnd (bread a (i_dev (ino ip s)) b s) (\<lambda>bp s.
        let m = span off r;
            d = put_bytes (unat (off mod word_of_nat BSIZE)) (take (unat m) src) (b_data (bf bp s)) in
        bnd (log_write a bp (set_data bp d s)) (\<lambda>_ s.
        bnd (brelse a bp s) (\<lambda>_ s.
        writei_loop a ip (drop (unat m) src) (off + m) (r - m) s)))))"
  by pat_completeness auto
termination by (relation "measure (\<lambda>(a, ip, src, off, r, s). unat r)") (auto simp: span_shrinks)

declare writei_loop.simps [simp del]

definition writei :: "'e fkst_scheme devtab \<Rightarrow> nat \<Rightarrow> nat \<Rightarrow> u8 list \<Rightarrow> u32 \<Rightarrow> u32 \<Rightarrow> 'e fkst_scheme
    \<Rightarrow> (int, 'e fkst_scheme) res" where
  "writei dv a ip src off n s =
     (if i_type (ino ip s) = T_DEV then
        let mj = sint (i_major (ino ip s)) in
        if mj < 0 \<or> mj \<ge> NDEV then Ok (-1) s
        else (case dv_write (dv (nat mj)) of None \<Rightarrow> Ok (-1) s | Some f \<Rightarrow> f a ip src s)
      else if off > i_size (ino ip s) \<or> off + n < off then Ok (-1) s
      else if off + n > word_of_nat (MAXFILE * BSIZE) then Ok (-1) s
      else
        bnd (writei_loop a ip src off n s) (\<lambda>_ s.
        let off = off + n in
        bnd (if n > 0 \<and> off > i_size (ino ip s)
             then iupdate a ip (upd_ino ip (\<lambda>p. p\<lparr>i_size := off\<rparr>) s) else Ok () s) (\<lambda>_ s.
        Ok (sint n) s)))"

section \<open>Directories\<close>

text \<open>\<^verbatim>\<open>strncmp\<close> and \<^verbatim>\<open>strncpy\<close> on byte sequences; past the end of a sequence is its terminating zero.\<close>

fun strncmp_l :: "nat \<Rightarrow> u8 list \<Rightarrow> u8 list \<Rightarrow> int" where
  "strncmp_l 0 p q = 0"
| "strncmp_l (Suc n) [] q = (case q of [] \<Rightarrow> 0 | y # _ \<Rightarrow> - uint y)"
| "strncmp_l (Suc n) (x # p) q =
     (case q of [] \<Rightarrow> uint x
      | y # q' \<Rightarrow> if x \<noteq> 0 \<and> x = y then strncmp_l n p q' else uint x - uint y)"

definition namecmp :: "u8 list \<Rightarrow> u8 list \<Rightarrow> int" where
  "namecmp p q = strncmp_l DIRSIZ p q"

definition name14 :: "u8 list \<Rightarrow> u8 list" where
  "name14 nm = take DIRSIZ (takeWhile (\<lambda>x. x \<noteq> 0) nm @ replicate DIRSIZ 0)"

definition dirlookup_one :: "'e fkst_scheme devtab \<Rightarrow> nat \<Rightarrow> nat \<Rightarrow> u8 list \<Rightarrow> nat \<Rightarrow> 'e fkst_scheme
    \<Rightarrow> ((nat \<times> u32) option, 'e fkst_scheme) res" where
  "dirlookup_one dv a dp name off s =
     bnd (readi dv a dp (word_of_nat off) 16 s) (\<lambda>(n, d) s.
     if n \<noteq> 16 then Panic ''dirlookup read''
     else
       let de = dirent_of d in
       if de_inum de = 0 then Ok None s
       else if namecmp name (de_name de) = 0 then
         bnd (iget a (i_dev (ino dp s)) (ucast (de_inum de)) s) (\<lambda>i s. Ok (Some (i, word_of_nat off)) s)
       else Ok None s)"

definition dirlookup :: "'e fkst_scheme devtab \<Rightarrow> nat \<Rightarrow> nat \<Rightarrow> u8 list \<Rightarrow> 'e fkst_scheme
    \<Rightarrow> ((nat \<times> u32) option, 'e fkst_scheme) res" where
  "dirlookup dv a dp name s =
     (if i_type (ino dp s) \<noteq> T_DIR then Panic ''dirlookup not DIR''
      else findR (chunks 16 (unat (i_size (ino dp s)))) (dirlookup_one dv a dp name) s)"

definition dirlink_probe :: "'e fkst_scheme devtab \<Rightarrow> nat \<Rightarrow> nat \<Rightarrow> nat \<Rightarrow> 'e fkst_scheme
    \<Rightarrow> (nat option, 'e fkst_scheme) res" where
  "dirlink_probe dv a dp off s =
     bnd (readi dv a dp (word_of_nat off) 16 s) (\<lambda>(n, d) s.
     if n \<noteq> 16 then Panic ''dirlink read''
     else if de_inum (dirent_of d) = 0 then Ok (Some off) s else Ok None s)"

text \<open>The value of \<^verbatim>\<open>off\<close> after the loop when no entry is free: the first multiple of 16 from \<^verbatim>\<open>dp->size\<close> on.\<close>

definition round16 :: "nat \<Rightarrow> nat" where
  "round16 n = 16 * ((n + 15) div 16)"

definition dirlink :: "'e fkst_scheme devtab \<Rightarrow> nat \<Rightarrow> nat \<Rightarrow> u8 list \<Rightarrow> u32 \<Rightarrow> 'e fkst_scheme
    \<Rightarrow> (int, 'e fkst_scheme) res" where
  "dirlink dv a dp name inum s =
     bnd (dirlookup dv a dp name s) (\<lambda>r s.
     case r of
       Some (ip, _) \<Rightarrow> bnd (iput a ip s) (\<lambda>_ s. Ok (-1) s)
     | None \<Rightarrow>
         bnd (findR (chunks 16 (unat (i_size (ino dp s)))) (dirlink_probe dv a dp) s) (\<lambda>slot s.
         let off = (case slot of Some k \<Rightarrow> k | None \<Rightarrow> round16 (unat (i_size (ino dp s))));
             de = \<lparr>de_inum = ucast inum, de_name = name14 name\<rparr> in
         bnd (writei dv a dp (bytes_of_dirent de) (word_of_nat off) 16 s) (\<lambda>n s.
         if n \<noteq> 16 then Panic ''dirlink'' else Ok 0 s)))"

section \<open>Paths\<close>

definition slash :: u8 where "slash = 47"

definition skipelem :: "u8 list \<Rightarrow> (u8 list \<times> u8 list) option" where
  "skipelem path =
     (let p = dropWhile (\<lambda>c. c = slash) path in
      if p = [] then None
      else
        let elem = takeWhile (\<lambda>c. c \<noteq> slash) p; rest = dropWhile (\<lambda>c. c \<noteq> slash) p
        in Some (dropWhile (\<lambda>c. c = slash) rest, take DIRSIZ elem))"

lemma skipelem_shorter:
  assumes "skipelem path = Some (rest, name)" shows "length rest < length path"
proof -
  let ?p = "dropWhile (\<lambda>c. c = slash) path"
  have p: "?p \<noteq> []" and r: "rest = dropWhile (\<lambda>c. c = slash) (dropWhile (\<lambda>c. c \<noteq> slash) ?p)"
    using assms by (auto simp: skipelem_def Let_def split: if_splits)
  have "dropWhile (\<lambda>c. c \<noteq> slash) ?p = dropWhile (\<lambda>c. c \<noteq> slash) (tl ?p)"
    using p hd_dropWhile [of "\<lambda>c. c = slash" path] by (cases ?p) auto
  then have "length rest \<le> length (tl ?p)"
    unfolding r using length_dropWhile_le le_trans by metis
  also have "\<dots> < length ?p" using p by (cases ?p) auto
  also have "\<dots> \<le> length path" by (rule length_dropWhile_le)
  finally show ?thesis .
qed

function namex_loop :: "'e fkst_scheme devtab \<Rightarrow> nat \<Rightarrow> bool \<Rightarrow> nat \<Rightarrow> u8 list \<Rightarrow> u8 list \<Rightarrow> 'e fkst_scheme
    \<Rightarrow> ((nat \<times> u8 list) option, 'e fkst_scheme) res" where
  "namex_loop dv a par ip path name s =
     (case skipelem path of
        None \<Rightarrow>
          if par then bnd (iput a ip s) (\<lambda>_ s. Ok None s) else Ok (Some (ip, name)) s
      | Some (path, name) \<Rightarrow>
          bnd (ilock a ip s) (\<lambda>_ s.
          if i_type (ino ip s) \<noteq> T_DIR then bnd (iunlockput a ip s) (\<lambda>_ s. Ok None s)
          else if par \<and> path = [] then bnd (iunlock a ip s) (\<lambda>_ s. Ok (Some (ip, name)) s)
          else
            bnd (dirlookup dv a ip name s) (\<lambda>r s.
            bnd (iunlockput a ip s) (\<lambda>_ s.
            case r of None \<Rightarrow> Ok None s
            | Some (nx, _) \<Rightarrow> namex_loop dv a par nx path name s))))"
  by pat_completeness auto
termination
  by (relation "measure (\<lambda>(dv, a, par, ip, path, name, s). length path)") (auto simp: skipelem_shorter)

declare namex_loop.simps [simp del]

definition namex :: "'e fkst_scheme devtab \<Rightarrow> nat \<Rightarrow> u8 list \<Rightarrow> bool \<Rightarrow> 'e fkst_scheme
    \<Rightarrow> ((nat \<times> u8 list) option, 'e fkst_scheme) res" where
  "namex dv a path par s =
     bnd (if path \<noteq> [] \<and> hd path = slash then iget a ROOTDEV ROOTINO s
          else with_myproc a (\<lambda>i s.
            case cwd (prc i s) of Some c \<Rightarrow> idup a c s | None \<Rightarrow> Panic null_deref) s) (\<lambda>ip s.
     namex_loop dv a par ip path [] s)"

definition namei :: "'e fkst_scheme devtab \<Rightarrow> nat \<Rightarrow> u8 list \<Rightarrow> 'e fkst_scheme
    \<Rightarrow> (nat option, 'e fkst_scheme) res" where
  "namei dv a path s = bnd (namex dv a path False s) (\<lambda>r s. Ok (map_option fst r) s)"

definition nameiparent :: "'e fkst_scheme devtab \<Rightarrow> nat \<Rightarrow> u8 list \<Rightarrow> 'e fkst_scheme
    \<Rightarrow> ((nat \<times> u8 list) option, 'e fkst_scheme) res" where
  "nameiparent dv a path s = namex dv a path True s"

end
