(* ===== verification/Pipe.thy ===== *)
theory Pipe
  imports Fs
begin

text \<open>
  Pipes, \<^verbatim>\<open>src/pipe.c\<close>, except \<^verbatim>\<open>pipealloc\<close>, which needs the file table. A pipe is named by the address
  of the page it lives in. The bytes to write are an argument of \<^verbatim>\<open>pipewrite\<close>, the bytes read a
  result of \<^verbatim>\<open>piperead\<close>; each loop that may sleep is a definition entered with the lock of the pipe
  held, at the start and after every wake-up.
\<close>

definition PIPESIZE :: nat where "PIPESIZE = 512"

record pipe =
  p_data :: "u8 list"
  nread :: u32
  nwrite :: u32
  readopen :: bool
  writeopen :: bool

record wkst = fkst +
  pipes :: "u32 \<Rightarrow> pipe"

definition upd_pipe :: "u32 \<Rightarrow> (pipe \<Rightarrow> pipe) \<Rightarrow> 'e wkst_scheme \<Rightarrow> 'e wkst_scheme" where
  "upd_pipe p f s = s\<lparr>pipes := (pipes s)(p := f (pipes s p))\<rparr>"

abbreviation pipe_lock :: "u32 \<Rightarrow> lockid" where "pipe_lock p \<equiv> PipeLock (unat p)"

definition pipeclose :: "nat \<Rightarrow> u32 \<Rightarrow> bool \<Rightarrow> 'e wkst_scheme \<Rightarrow> (unit, 'e wkst_scheme) res" where
  "pipeclose a p writable s =
     bnd (acquire a (pipe_lock p) s) (\<lambda>_ s.
     bnd (if writable then wakeup a (ChPipeRead (unat p)) (upd_pipe p (\<lambda>q. q\<lparr>writeopen := False\<rparr>) s)
          else wakeup a (ChPipeWrite (unat p)) (upd_pipe p (\<lambda>q. q\<lparr>readopen := False\<rparr>) s)) (\<lambda>_ s.
     if \<not> readopen (pipes s p) \<and> \<not> writeopen (pipes s p)
     then bnd (release a (pipe_lock p) s) (\<lambda>_ s. kfree a p s)
     else release a (pipe_lock p) s))"

definition pipe_full :: "pipe \<Rightarrow> bool" where
  "pipe_full q \<longleftrightarrow> nwrite q = nread q + word_of_nat PIPESIZE"

definition pipe_empty :: "pipe \<Rightarrow> bool" where
  "pipe_empty q \<longleftrightarrow> nread q = nwrite q"

definition pipe_put :: "u8 \<Rightarrow> pipe \<Rightarrow> pipe" where
  "pipe_put c q = q\<lparr>p_data := (p_data q)[unat (nwrite q) mod PIPESIZE := c], nwrite := nwrite q + 1\<rparr>"

definition pipe_get :: "pipe \<Rightarrow> u8 \<times> pipe" where
  "pipe_get q = (p_data q ! (unat (nread q) mod PIPESIZE), q\<lparr>nread := nread q + 1\<rparr>)"

fun pipewrite_loop :: "nat \<Rightarrow> u32 \<Rightarrow> u8 list \<Rightarrow> int \<Rightarrow> 'e wkst_scheme \<Rightarrow> (int, 'e wkst_scheme) res" where
  "pipewrite_loop a p [] n s =
     bnd (wakeup a (ChPipeRead (unat p)) s) (\<lambda>_ s.
     bnd (release a (pipe_lock p) s) (\<lambda>_ s. Ok n s))"
| "pipewrite_loop a p (c # cs) n s =
     (if pipe_full (pipes s p) then
        bnd (if \<not> readopen (pipes s p) then Ok True s
             else with_myproc a (\<lambda>i s. Ok (killed (prc i s)) s) s) (\<lambda>stop s.
        if stop then bnd (release a (pipe_lock p) s) (\<lambda>_ s. Ok (-1) s)
        else
          bnd (wakeup a (ChPipeRead (unat p)) s) (\<lambda>_ s.
          sleep a (ChPipeWrite (unat p)) (pipe_lock p) s))
      else pipewrite_loop a p cs n (upd_pipe p (pipe_put c) s))"

definition pipewrite :: "nat \<Rightarrow> u32 \<Rightarrow> u8 list \<Rightarrow> int \<Rightarrow> 'e wkst_scheme \<Rightarrow> (int, 'e wkst_scheme) res" where
  "pipewrite a p src n s = bnd (acquire a (pipe_lock p) s) (\<lambda>_ s. pipewrite_loop a p src n s)"

definition pipewrite_resume :: "nat \<Rightarrow> nat \<Rightarrow> u32 \<Rightarrow> u8 list \<Rightarrow> int \<Rightarrow> bool \<Rightarrow> 'e wkst_scheme
    \<Rightarrow> (int, 'e wkst_scheme) res" where
  "pipewrite_resume a i p src n intena s =
     bnd (sleep_resume a i (pipe_lock p) intena s) (\<lambda>_ s. pipewrite_loop a p src n s)"

fun pipe_drain :: "nat \<Rightarrow> pipe \<Rightarrow> u8 list \<times> pipe" where
  "pipe_drain 0 q = ([], q)"
| "pipe_drain (Suc n) q =
     (if pipe_empty q then ([], q)
      else let (c, q) = pipe_get q; (cs, q) = pipe_drain n q in (c # cs, q))"

definition piperead_loop :: "nat \<Rightarrow> u32 \<Rightarrow> int \<Rightarrow> 'e wkst_scheme \<Rightarrow> (int \<times> u8 list, 'e wkst_scheme) res" where
  "piperead_loop a p n s =
     (if pipe_empty (pipes s p) \<and> writeopen (pipes s p) then
        with_myproc a (\<lambda>i s.
          if killed (prc i s) then bnd (release a (pipe_lock p) s) (\<lambda>_ s. Ok (-1, []) s)
          else sleep a (ChPipeRead (unat p)) (pipe_lock p) s) s
      else
        let (cs, q) = pipe_drain (nat n) (pipes s p) in
        bnd (wakeup a (ChPipeWrite (unat p)) (upd_pipe p (\<lambda>_. q) s)) (\<lambda>_ s.
        bnd (release a (pipe_lock p) s) (\<lambda>_ s. Ok (int (length cs), cs) s)))"

definition piperead :: "nat \<Rightarrow> u32 \<Rightarrow> int \<Rightarrow> 'e wkst_scheme \<Rightarrow> (int \<times> u8 list, 'e wkst_scheme) res" where
  "piperead a p n s = bnd (acquire a (pipe_lock p) s) (\<lambda>_ s. piperead_loop a p n s)"

definition piperead_resume :: "nat \<Rightarrow> nat \<Rightarrow> u32 \<Rightarrow> int \<Rightarrow> bool \<Rightarrow> 'e wkst_scheme
    \<Rightarrow> (int \<times> u8 list, 'e wkst_scheme) res" where
  "piperead_resume a i p n intena s =
     bnd (sleep_resume a i (pipe_lock p) intena s) (\<lambda>_ s. piperead_loop a p n s)"

end
