(* ===== verification/File.thy ===== *)
theory File
  imports Pipe
begin

text \<open>
  The file table, \<^verbatim>\<open>src/file.c\<close> and \<^verbatim>\<open>src/file.h\<close>, and \<^verbatim>\<open>pipealloc\<close> of \<^verbatim>\<open>src/pipe.c\<close>. A pointer to a
  \<^verbatim>\<open>struct file\<close> is its index in \<^verbatim>\<open>ftable.file\<close>.
\<close>

datatype ftype = FD_NONE | FD_PIPE | FD_INODE

record kfile =
  f_type :: ftype
  f_ref :: int
  f_readable :: bool
  f_writable :: bool
  f_pipe :: u32
  f_ip :: nat
  f_off :: u32

record okst = wkst +
  ftab :: "kfile list"

abbreviation fil :: "nat \<Rightarrow> 'e okst_scheme \<Rightarrow> kfile" where
  "fil i s \<equiv> ftab s ! i"

definition upd_file :: "nat \<Rightarrow> (kfile \<Rightarrow> kfile) \<Rightarrow> 'e okst_scheme \<Rightarrow> 'e okst_scheme" where
  "upd_file i f s = s\<lparr>ftab := (ftab s)[i := f (ftab s ! i)]\<rparr>"

definition fileinit :: "'e okst_scheme \<Rightarrow> 'e okst_scheme" where
  "fileinit s = s\<lparr>mach := initlock FtableLock ''ftable'' (mach s)\<rparr>"

definition filealloc :: "nat \<Rightarrow> 'e okst_scheme \<Rightarrow> (nat option, 'e okst_scheme) res" where
  "filealloc a s =
     bnd (acquire a FtableLock s) (\<lambda>_ s.
     case find (\<lambda>i. f_ref (fil i s) = 0) [0..<NFILE] of
       Some i \<Rightarrow> bnd (release a FtableLock (upd_file i (\<lambda>f. f\<lparr>f_ref := 1\<rparr>) s)) (\<lambda>_ s. Ok (Some i) s)
     | None \<Rightarrow> bnd (release a FtableLock s) (\<lambda>_ s. Ok None s))"

definition filedup :: "nat \<Rightarrow> nat \<Rightarrow> 'e okst_scheme \<Rightarrow> (nat, 'e okst_scheme) res" where
  "filedup a i s =
     bnd (acquire a FtableLock s) (\<lambda>_ s.
     if f_ref (fil i s) < 1 then Panic ''filedup''
     else bnd (release a FtableLock (upd_file i (\<lambda>f. f\<lparr>f_ref := f_ref f + 1\<rparr>) s)) (\<lambda>_ s. Ok i s))"

definition fileclose :: "nat \<Rightarrow> nat \<Rightarrow> 'e okst_scheme \<Rightarrow> (unit, 'e okst_scheme) res" where
  "fileclose a i s =
     bnd (acquire a FtableLock s) (\<lambda>_ s.
     if f_ref (fil i s) < 1 then Panic ''fileclose''
     else
       let s = upd_file i (\<lambda>f. f\<lparr>f_ref := f_ref f - 1\<rparr>) s in
       if f_ref (fil i s) > 0 then release a FtableLock s
       else
         let ff = fil i s in
         bnd (release a FtableLock (upd_file i (\<lambda>f. f\<lparr>f_ref := 0, f_type := FD_NONE\<rparr>) s)) (\<lambda>_ s.
         case f_type ff of
           FD_PIPE \<Rightarrow> pipeclose a (f_pipe ff) (f_writable ff) s
         | FD_INODE \<Rightarrow> bnd (begin_op a s) (\<lambda>_ s. bnd (iput a (f_ip ff) s) (\<lambda>_ s. end_op a s))
         | FD_NONE \<Rightarrow> Ok () s))"

definition filestat :: "nat \<Rightarrow> nat \<Rightarrow> 'e okst_scheme \<Rightarrow> (int \<times> stat option, 'e okst_scheme) res" where
  "filestat a i s =
     (if f_type (fil i s) = FD_INODE then
        bnd (ilock a (f_ip (fil i s)) s) (\<lambda>_ s.
        let st = stati (f_ip (fil i s)) s in
        bnd (iunlock a (f_ip (fil i s)) s) (\<lambda>_ s. Ok (0, Some st) s))
      else Ok (-1, None) s)"

definition fileread :: "'e okst_scheme devtab \<Rightarrow> nat \<Rightarrow> nat \<Rightarrow> int \<Rightarrow> 'e okst_scheme
    \<Rightarrow> (int \<times> u8 list, 'e okst_scheme) res" where
  "fileread dv a i n s =
     (if \<not> f_readable (fil i s) then Ok (-1, []) s
      else case f_type (fil i s) of
        FD_PIPE \<Rightarrow> piperead a (f_pipe (fil i s)) n s
      | FD_INODE \<Rightarrow>
          bnd (ilock a (f_ip (fil i s)) s) (\<lambda>_ s.
          bnd (readi dv a (f_ip (fil i s)) (f_off (fil i s)) (word_of_int n) s) (\<lambda>(r, d) s.
          let s = (if r > 0 then upd_file i (\<lambda>f. f\<lparr>f_off := f_off f + word_of_int r\<rparr>) s else s) in
          bnd (iunlock a (f_ip (fil i s)) s) (\<lambda>_ s. Ok (r, d) s)))
      | FD_NONE \<Rightarrow> Panic ''fileread'')"

definition write_max :: nat where
  "write_max = nat ((MAXOPBLOCKS - 1 - 1 - 2) div 2 * 512)"

text \<open>
  One round of the loop of \<^verbatim>\<open>filewrite\<close>: a transaction that writes the bytes \<open>src\<close>, and the loop over
  the bytes that are left. The loop returns whether all of them were written.
\<close>

definition filewrite_round :: "'e okst_scheme devtab \<Rightarrow> nat \<Rightarrow> nat \<Rightarrow> u8 list \<Rightarrow> 'e okst_scheme
    \<Rightarrow> (int, 'e okst_scheme) res" where
  "filewrite_round dv a i src s =
     bnd (begin_op a s) (\<lambda>_ s.
     bnd (ilock a (f_ip (fil i s)) s) (\<lambda>_ s.
     bnd (writei dv a (f_ip (fil i s)) src (f_off (fil i s)) (word_of_nat (length src)) s) (\<lambda>r s.
     let s = (if r > 0 then upd_file i (\<lambda>f. f\<lparr>f_off := f_off f + word_of_int r\<rparr>) s else s) in
     bnd (iunlock a (f_ip (fil i s)) s) (\<lambda>_ s.
     bnd (end_op a s) (\<lambda>_ s. Ok r s)))))"

lemma write_max_pos: "0 < write_max"
  by (simp add: write_max_def MAXOPBLOCKS_def)

function filewrite_loop :: "'e okst_scheme devtab \<Rightarrow> nat \<Rightarrow> nat \<Rightarrow> u8 list \<Rightarrow> 'e okst_scheme
    \<Rightarrow> (bool, 'e okst_scheme) res" where
  "filewrite_loop dv a i src s =
     (if src = [] then Ok True s
      else
        let src1 = take write_max src in
        bnd (filewrite_round dv a i src1 s) (\<lambda>r s.
        if r < 0 then Ok False s
        else if r \<noteq> int (length src1) then Panic ''short filewrite''
        else filewrite_loop dv a i (drop write_max src) s))"
  by pat_completeness auto
termination
  by (relation "measure (\<lambda>(dv, a, i, src, s). length src)") (auto simp: write_max_pos)

declare filewrite_loop.simps [simp del]

definition filewrite :: "'e okst_scheme devtab \<Rightarrow> nat \<Rightarrow> nat \<Rightarrow> u8 list \<Rightarrow> int \<Rightarrow> 'e okst_scheme
    \<Rightarrow> (int, 'e okst_scheme) res" where
  "filewrite dv a i src n s =
     (if \<not> f_writable (fil i s) then Ok (-1) s
      else case f_type (fil i s) of
        FD_PIPE \<Rightarrow> pipewrite a (f_pipe (fil i s)) src n s
      | FD_INODE \<Rightarrow>
          bnd (filewrite_loop dv a i (take (nat n) src) s) (\<lambda>complete s.
          Ok (if complete \<and> 0 \<le> n then n else -1) s)
      | FD_NONE \<Rightarrow> Panic ''filewrite'')"

definition pipe_file :: "u32 \<Rightarrow> bool \<Rightarrow> kfile \<Rightarrow> kfile" where
  "pipe_file p w f = f\<lparr>f_type := FD_PIPE, f_readable := \<not> w, f_writable := w, f_pipe := p\<rparr>"

text \<open>
  \<^verbatim>\<open>pipealloc\<close>: the two files, or None when it returns -1 through the label \<^verbatim>\<open>bad\<close>. The data array,
  52 bytes (a \<^verbatim>\<open>struct spinlock\<close>) into the page, is not initialised: it holds what the page held.
\<close>

definition pipealloc :: "nat \<Rightarrow> 'e okst_scheme \<Rightarrow> ((nat \<times> nat) option, 'e okst_scheme) res" where
  "pipealloc a s =
     bnd (filealloc a s) (\<lambda>f0 s.
     case f0 of
       None \<Rightarrow> Ok None s
     | Some i0 \<Rightarrow>
         bnd (filealloc a s) (\<lambda>f1 s.
         case f1 of
           None \<Rightarrow> bnd (fileclose a i0 s) (\<lambda>_ s. Ok None s)
         | Some i1 \<Rightarrow>
             bnd (kalloc a s) (\<lambda>p s.
             if p = 0 then
               bnd (fileclose a i0 s) (\<lambda>_ s. bnd (fileclose a i1 s) (\<lambda>_ s. Ok None s))
             else
               let s = upd_pipe p (\<lambda>q. q\<lparr>p_data := map (\<lambda>k. pmem s (p + 52 + word_of_nat k)) [0..<PIPESIZE],
                       readopen := True, writeopen := True, nwrite := 0, nread := 0\<rparr>) s;
                   s = s\<lparr>mach := initlock (pipe_lock p) ''pipe'' (mach s)\<rparr>;
                   s = upd_file i1 (pipe_file p True) (upd_file i0 (pipe_file p False) s)
               in Ok (Some (i0, i1)) s)))"

end
