(* ===== verification/Syscall_Args.thy ===== *)
theory Syscall_Args
  imports Proc_Switch
begin

text \<open>
  User memory as the kernel sees it, and the system call arguments of \<^verbatim>\<open>src/syscall.c\<close>. An access
  to a user address goes through the page tables in \<^verbatim>\<open>%cr3\<close>, as the hardware does it in kernel mode
  with write protection on (\<^verbatim>\<open>src/entry.S\<close>); an access that faults ends in \<^verbatim>\<open>panic("trap")\<close>.
\<close>

section \<open>Access to user memory\<close>

definition xlate :: "nat \<Rightarrow> bool \<Rightarrow> u32 \<Rightarrow> 'e mkst_scheme \<Rightarrow> u32 option" where
  "xlate a wr va s =
     (let pde = rd32 (P2V (cr3 (mach s) a) + 4 * PDX va) s;
          pte = rd32 (P2V (PTE_ADDR pde) + 4 * PTX va) s
      in if pde AND PTE_P = 0 \<or> wr \<and> pde AND PTE_W = 0 then None
         else if pte AND PTE_P = 0 \<or> wr \<and> pte AND PTE_W = 0 then None
         else Some (P2V (PTE_ADDR pte) + (va AND 0xFFF)))"

definition uget :: "nat \<Rightarrow> u32 \<Rightarrow> 'e mkst_scheme \<Rightarrow> u8 option" where
  "uget a va s = map_option (pmem s) (xlate a False va s)"

fun ubytes :: "nat \<Rightarrow> u32 \<Rightarrow> nat \<Rightarrow> 'e mkst_scheme \<Rightarrow> u8 list option" where
  "ubytes a va 0 s = Some []"
| "ubytes a va (Suc n) s =
     (case uget a va s of None \<Rightarrow> None
      | Some c \<Rightarrow> map_option (\<lambda>cs. c # cs) (ubytes a (va + 1) n s))"

fun uput :: "nat \<Rightarrow> u32 \<Rightarrow> u8 list \<Rightarrow> 'e mkst_scheme \<Rightarrow> 'e mkst_scheme option" where
  "uput a va [] s = Some s"
| "uput a va (c # cs) s =
     (case xlate a True va s of None \<Rightarrow> None
      | Some k \<Rightarrow> uput a (va + 1) cs (s\<lparr>pmem := (pmem s)(k := c)\<rparr>))"

definition fetch :: "nat \<Rightarrow> u32 \<Rightarrow> nat \<Rightarrow> 'e mkst_scheme \<Rightarrow> (u8 list, 'e mkst_scheme) res" where
  "fetch a va n s = (case ubytes a va n s of None \<Rightarrow> Panic null_deref | Some d \<Rightarrow> Ok d s)"

definition deliver :: "nat \<Rightarrow> u32 \<Rightarrow> u8 list \<Rightarrow> 'e mkst_scheme \<Rightarrow> (unit, 'e mkst_scheme) res" where
  "deliver a va d s = (case uput a va d s of None \<Rightarrow> Panic null_deref | Some s \<Rightarrow> Ok () s)"

definition bytes32 :: "u32 \<Rightarrow> u8 list" where
  "bytes32 w = [ucast w, ucast (drop_bit 8 w), ucast (drop_bit 16 w), ucast (drop_bit 24 w)]"

definition word32 :: "u8 list \<Rightarrow> u32" where
  "word32 d = ucast (d ! 0) OR push_bit 8 (ucast (d ! 1)) OR push_bit 16 (ucast (d ! 2))
     OR push_bit 24 (ucast (d ! 3))"

section \<open>Arguments\<close>

text \<open>None is the return value -1.\<close>

definition fetchint :: "nat \<Rightarrow> u32 \<Rightarrow> 'e pkst_scheme \<Rightarrow> (u32 option, 'e pkst_scheme) res" where
  "fetchint a addr s =
     with_myproc a (\<lambda>i s.
       if addr \<ge> sz (prc i s) \<or> addr + 4 > sz (prc i s) then Ok None s
       else bnd (fetch a addr 4 s) (\<lambda>d s. Ok (Some (word32 d)) s)) s"

text \<open>
  The scan of \<^verbatim>\<open>fetchstr\<close> over at most \<open>n\<close> bytes, the distance to \<^verbatim>\<open>ep\<close>: the string without its
  terminating zero.
\<close>

fun ustr :: "nat \<Rightarrow> u32 \<Rightarrow> nat \<Rightarrow> 'e mkst_scheme \<Rightarrow> (u8 list option, 'e mkst_scheme) res" where
  "ustr a va 0 s = Ok None s"
| "ustr a va (Suc n) s =
     (case uget a va s of
        None \<Rightarrow> Panic null_deref
      | Some c \<Rightarrow> if c = 0 then Ok (Some []) s
                  else bnd (ustr a (va + 1) n s) (\<lambda>r s. Ok (map_option (\<lambda>cs. c # cs) r) s))"

definition fetchstr :: "nat \<Rightarrow> u32 \<Rightarrow> 'e pkst_scheme \<Rightarrow> (u8 list option, 'e pkst_scheme) res" where
  "fetchstr a addr s =
     with_myproc a (\<lambda>i s.
       if addr \<ge> sz (prc i s) then Ok None s else ustr a addr (unat (sz (prc i s) - addr)) s) s"

definition argint :: "nat \<Rightarrow> nat \<Rightarrow> 'e pkst_scheme \<Rightarrow> (u32 option, 'e pkst_scheme) res" where
  "argint a n s =
     with_myproc a (\<lambda>i s. fetchint a (tf_esp (tf (prc i s)) + 4 + 4 * word_of_nat n) s) s"

definition argptr :: "nat \<Rightarrow> nat \<Rightarrow> int \<Rightarrow> 'e pkst_scheme \<Rightarrow> (u32 option, 'e pkst_scheme) res" where
  "argptr a n len s =
     with_myproc a (\<lambda>i s.
       bnd (argint a n s) (\<lambda>r s.
       case r of
         None \<Rightarrow> Ok None s
       | Some p \<Rightarrow>
           if len < 0 \<or> p \<ge> sz (prc i s) \<or> p + word_of_int len > sz (prc i s) then Ok None s
           else Ok (Some p) s)) s"

definition argstr :: "nat \<Rightarrow> nat \<Rightarrow> 'e pkst_scheme \<Rightarrow> (u8 list option, 'e pkst_scheme) res" where
  "argstr a n s =
     bnd (argint a n s) (\<lambda>r s. case r of None \<Rightarrow> Ok None s | Some addr \<Rightarrow> fetchstr a addr s)"

text \<open>Run \<open>f\<close> with an argument, or return -1 when it is not there.\<close>

definition need :: "('v option, 's) res \<Rightarrow> ('v \<Rightarrow> 's \<Rightarrow> (int, 's) res) \<Rightarrow> (int, 's) res" where
  "need m f = bnd m (\<lambda>r s. case r of None \<Rightarrow> Ok (-1) s | Some v \<Rightarrow> f v s)"

end
