(* ===== verification/Sysfile.thy ===== *)
theory Sysfile
  imports File Syscall_Args
begin

text \<open>
  The file-system calls of \<^verbatim>\<open>src/sysfile.c\<close>, except \<^verbatim>\<open>sys_exec\<close>. A call that reads stores the bytes it
  got in user memory, a call that writes fetches its bytes there.
\<close>

definition argfd :: "nat \<Rightarrow> nat \<Rightarrow> 'e pkst_scheme \<Rightarrow> ((nat \<times> nat) option, 'e pkst_scheme) res" where
  "argfd a n s =
     bnd (argint a n s) (\<lambda>r s.
     case r of
       None \<Rightarrow> Ok None s
     | Some w \<Rightarrow>
         let fd = sint w in
         if fd < 0 \<or> fd \<ge> int NOFILE then Ok None s
         else with_myproc a (\<lambda>i s.
           Ok (map_option (\<lambda>f. (nat fd, f)) (ofile (prc i s) ! nat fd)) s) s)"

definition set_ofile :: "nat \<Rightarrow> nat \<Rightarrow> nat option \<Rightarrow> 'e pkst_scheme \<Rightarrow> 'e pkst_scheme" where
  "set_ofile i fd f s = upd_proc i (\<lambda>p. p\<lparr>ofile := (ofile p)[fd := f]\<rparr>) s"

definition fdalloc :: "nat \<Rightarrow> nat \<Rightarrow> 'e pkst_scheme \<Rightarrow> (nat option, 'e pkst_scheme) res" where
  "fdalloc a f s =
     with_myproc a (\<lambda>i s.
       case find (\<lambda>fd. ofile (prc i s) ! fd = None) [0..<NOFILE] of
         None \<Rightarrow> Ok None s
       | Some fd \<Rightarrow> Ok (Some fd) (set_ofile i fd (Some f) s)) s"

definition sys_dup :: "nat \<Rightarrow> 'e okst_scheme \<Rightarrow> (int, 'e okst_scheme) res" where
  "sys_dup a s =
     need (argfd a 0 s) (\<lambda>(_, f) s.
     need (fdalloc a f s) (\<lambda>fd s.
     bnd (filedup a f s) (\<lambda>_ s. Ok (int fd) s)))"

definition sys_read :: "'e okst_scheme devtab \<Rightarrow> nat \<Rightarrow> 'e okst_scheme \<Rightarrow> (int, 'e okst_scheme) res" where
  "sys_read dv a s =
     need (argfd a 0 s) (\<lambda>(_, f) s.
     need (argint a 2 s) (\<lambda>n s.
     need (argptr a 1 (sint n) s) (\<lambda>p s.
     bnd (fileread dv a f (sint n) s) (\<lambda>(r, d) s.
     bnd (deliver a p d s) (\<lambda>_ s. Ok r s)))))"

definition sys_write :: "'e okst_scheme devtab \<Rightarrow> nat \<Rightarrow> 'e okst_scheme \<Rightarrow> (int, 'e okst_scheme) res" where
  "sys_write dv a s =
     need (argfd a 0 s) (\<lambda>(_, f) s.
     need (argint a 2 s) (\<lambda>n s.
     need (argptr a 1 (sint n) s) (\<lambda>p s.
     bnd (fetch a p (nat (sint n)) s) (\<lambda>d s. filewrite dv a f d (sint n) s))))"

definition sys_close :: "nat \<Rightarrow> 'e okst_scheme \<Rightarrow> (int, 'e okst_scheme) res" where
  "sys_close a s =
     need (argfd a 0 s) (\<lambda>(fd, f) s.
     bnd (with_myproc a (\<lambda>i s. Ok () (set_ofile i fd None s)) s) (\<lambda>_ s.
     bnd (fileclose a f s) (\<lambda>_ s. Ok 0 s)))"

text \<open>\<^verbatim>\<open>struct stat\<close> has two bytes of padding after \<^verbatim>\<open>type\<close> and after \<^verbatim>\<open>nlink\<close>, which no assignment writes.\<close>

definition bytes16 :: "16 word \<Rightarrow> u8 list" where
  "bytes16 w = [ucast w, ucast (drop_bit 8 w)]"

definition put_stat :: "nat \<Rightarrow> u32 \<Rightarrow> stat \<Rightarrow> 'e mkst_scheme \<Rightarrow> (unit, 'e mkst_scheme) res" where
  "put_stat a p st s =
     bnd (deliver a (p + 4) (bytes32 (st_dev st)) s) (\<lambda>_ s.
     bnd (deliver a (p + 8) (bytes32 (st_ino st)) s) (\<lambda>_ s.
     bnd (deliver a p (bytes16 (st_type st)) s) (\<lambda>_ s.
     bnd (deliver a (p + 12) (bytes16 (st_nlink st)) s) (\<lambda>_ s.
     deliver a (p + 16) (bytes32 (st_size st)) s))))"

definition sys_fstat :: "nat \<Rightarrow> 'e okst_scheme \<Rightarrow> (int, 'e okst_scheme) res" where
  "sys_fstat a s =
     need (argfd a 0 s) (\<lambda>(_, f) s.
     need (argptr a 1 20 s) (\<lambda>p s.
     bnd (filestat a f s) (\<lambda>(r, st) s.
     bnd (case st of None \<Rightarrow> Ok () s | Some st \<Rightarrow> put_stat a p st s) (\<lambda>_ s. Ok r s))))"

text \<open>\<^verbatim>\<open>end_op(); return r;\<close> and \<^verbatim>\<open>iunlockput(ip); end_op(); return -1;\<close>\<close>

definition finish_op :: "nat \<Rightarrow> int \<Rightarrow> 'e lkst_scheme \<Rightarrow> (int, 'e lkst_scheme) res" where
  "finish_op a r s = bnd (end_op a s) (\<lambda>_ s. Ok r s)"

definition give_up :: "nat \<Rightarrow> nat \<Rightarrow> 'e fkst_scheme \<Rightarrow> (int, 'e fkst_scheme) res" where
  "give_up a ip s = bnd (iunlockput a ip s) (\<lambda>_ s. finish_op a (-1) s)"

definition add_nlink :: "nat \<Rightarrow> 16 word \<Rightarrow> 'e fkst_scheme \<Rightarrow> 'e fkst_scheme" where
  "add_nlink ip d s = upd_ino ip (\<lambda>p. p\<lparr>i_nlink := i_nlink p + d\<rparr>) s"

definition sys_link_bad :: "nat \<Rightarrow> nat \<Rightarrow> 'e fkst_scheme \<Rightarrow> (int, 'e fkst_scheme) res" where
  "sys_link_bad a ip s =
     bnd (ilock a ip s) (\<lambda>_ s.
     bnd (iupdate a ip (add_nlink ip (-1) s)) (\<lambda>_ s. give_up a ip s))"

definition sys_link :: "'e okst_scheme devtab \<Rightarrow> nat \<Rightarrow> 'e okst_scheme \<Rightarrow> (int, 'e okst_scheme) res" where
  "sys_link dv a s =
     need (argstr a 0 s) (\<lambda>old s.
     need (argstr a 1 s) (\<lambda>new s.
     bnd (begin_op a s) (\<lambda>_ s.
     bnd (namei dv a old s) (\<lambda>r s.
     case r of
       None \<Rightarrow> finish_op a (-1) s
     | Some ip \<Rightarrow>
         bnd (ilock a ip s) (\<lambda>_ s.
         if i_type (ino ip s) = T_DIR then give_up a ip s
         else
           bnd (iupdate a ip (add_nlink ip 1 s)) (\<lambda>_ s.
           bnd (iunlock a ip s) (\<lambda>_ s.
           bnd (nameiparent dv a new s) (\<lambda>r s.
           case r of
             None \<Rightarrow> sys_link_bad a ip s
           | Some (dp, name) \<Rightarrow>
               bnd (ilock a dp s) (\<lambda>_ s.
               bnd (if i_dev (ino dp s) \<noteq> i_dev (ino ip s) then Ok (-1) s
                    else dirlink dv a dp name (i_inum (ino ip s)) s) (\<lambda>r s.
               bnd (iunlockput a dp s) (\<lambda>_ s.
               if r < 0 then sys_link_bad a ip s
               else bnd (iput a ip s) (\<lambda>_ s. finish_op a 0 s))))))))))))"

definition isdirempty_one :: "'e fkst_scheme devtab \<Rightarrow> nat \<Rightarrow> nat \<Rightarrow> nat \<Rightarrow> 'e fkst_scheme
    \<Rightarrow> (bool option, 'e fkst_scheme) res" where
  "isdirempty_one dv a dp off s =
     bnd (readi dv a dp (word_of_nat off) 16 s) (\<lambda>(n, d) s.
     if n \<noteq> 16 then Panic ''isdirempty: readi''
     else if de_inum (dirent_of d) \<noteq> 0 then Ok (Some False) s else Ok None s)"

definition isdirempty :: "'e fkst_scheme devtab \<Rightarrow> nat \<Rightarrow> nat \<Rightarrow> 'e fkst_scheme \<Rightarrow> (bool, 'e fkst_scheme) res" where
  "isdirempty dv a dp s =
     bnd (findR (drop 2 (chunks 16 (unat (i_size (ino dp s))))) (isdirempty_one dv a dp) s) (\<lambda>r s.
     Ok (case r of Some b \<Rightarrow> b | None \<Rightarrow> True) s)"

definition dot :: "u8 list" where "dot = [46]"
definition dotdot :: "u8 list" where "dotdot = [46, 46]"

text \<open>\<^verbatim>\<open>sys_unlink\<close> from the point where the entry has been found, with both inodes locked.\<close>

definition unlink_entry :: "'e fkst_scheme devtab \<Rightarrow> nat \<Rightarrow> nat \<Rightarrow> nat \<Rightarrow> u32 \<Rightarrow> 'e fkst_scheme
    \<Rightarrow> (int, 'e fkst_scheme) res" where
  "unlink_entry dv a dp ip off s =
     bnd (writei dv a dp (replicate 16 0) off 16 s) (\<lambda>n s.
     if n \<noteq> 16 then Panic ''unlink: writei''
     else
       bnd (if i_type (ino ip s) = T_DIR then iupdate a dp (add_nlink dp (-1) s) else Ok () s) (\<lambda>_ s.
       bnd (iunlockput a dp s) (\<lambda>_ s.
       bnd (iupdate a ip (add_nlink ip (-1) s)) (\<lambda>_ s.
       bnd (iunlockput a ip s) (\<lambda>_ s. finish_op a 0 s)))))"

definition sys_unlink :: "'e okst_scheme devtab \<Rightarrow> nat \<Rightarrow> 'e okst_scheme \<Rightarrow> (int, 'e okst_scheme) res" where
  "sys_unlink dv a s =
     need (argstr a 0 s) (\<lambda>path s.
     bnd (begin_op a s) (\<lambda>_ s.
     bnd (nameiparent dv a path s) (\<lambda>r s.
     case r of
       None \<Rightarrow> finish_op a (-1) s
     | Some (dp, name) \<Rightarrow>
         bnd (ilock a dp s) (\<lambda>_ s.
         if namecmp name dot = 0 \<or> namecmp name dotdot = 0 then give_up a dp s
         else
           bnd (dirlookup dv a dp name s) (\<lambda>r s.
           case r of
             None \<Rightarrow> give_up a dp s
           | Some (ip, off) \<Rightarrow>
               bnd (ilock a ip s) (\<lambda>_ s.
               if sint (i_nlink (ino ip s)) < 1 then Panic ''unlink: nlink < 1''
               else
                 bnd (if i_type (ino ip s) = T_DIR then isdirempty dv a ip s else Ok True s) (\<lambda>e s.
                 if e then unlink_entry dv a dp ip off s
                 else bnd (iunlockput a ip s) (\<lambda>_ s. give_up a dp s))))))))"

text \<open>The new inode of \<^verbatim>\<open>create\<close>, with its entries \<^verbatim>\<open>.\<close> and \<^verbatim>\<open>..\<close> when it is a directory.\<close>

definition create_dots :: "'e fkst_scheme devtab \<Rightarrow> nat \<Rightarrow> nat \<Rightarrow> nat \<Rightarrow> 'e fkst_scheme
    \<Rightarrow> (unit, 'e fkst_scheme) res" where
  "create_dots dv a dp ip s =
     bnd (iupdate a dp (add_nlink dp 1 s)) (\<lambda>_ s.
     bnd (dirlink dv a ip dot (i_inum (ino ip s)) s) (\<lambda>r s.
     if r < 0 then Panic ''create dots''
     else bnd (dirlink dv a ip dotdot (i_inum (ino dp s)) s) (\<lambda>r s.
       if r < 0 then Panic ''create dots'' else Ok () s)))"

definition create :: "'e fkst_scheme devtab \<Rightarrow> nat \<Rightarrow> u8 list \<Rightarrow> 16 word \<Rightarrow> 16 word \<Rightarrow> 16 word \<Rightarrow> 'e fkst_scheme
    \<Rightarrow> (nat option, 'e fkst_scheme) res" where
  "create dv a path ty mj mn s =
     bnd (nameiparent dv a path s) (\<lambda>r s.
     case r of
       None \<Rightarrow> Ok None s
     | Some (dp, name) \<Rightarrow>
         bnd (ilock a dp s) (\<lambda>_ s.
         bnd (dirlookup dv a dp name s) (\<lambda>r s.
         case r of
           Some (ip, _) \<Rightarrow>
             bnd (iunlockput a dp s) (\<lambda>_ s.
             bnd (ilock a ip s) (\<lambda>_ s.
             if ty = T_FILE \<and> i_type (ino ip s) = T_FILE then Ok (Some ip) s
             else bnd (iunlockput a ip s) (\<lambda>_ s. Ok None s)))
         | None \<Rightarrow>
             bnd (ialloc a (i_dev (ino dp s)) ty s) (\<lambda>ip s.
             bnd (ilock a ip s) (\<lambda>_ s.
             bnd (iupdate a ip (upd_ino ip (\<lambda>p. p\<lparr>i_major := mj, i_minor := mn, i_nlink := 1\<rparr>) s)) (\<lambda>_ s.
             bnd (if ty = T_DIR then create_dots dv a dp ip s else Ok () s) (\<lambda>_ s.
             bnd (dirlink dv a dp name (i_inum (ino ip s)) s) (\<lambda>r s.
             if r < 0 then Panic ''create: dirlink''
             else bnd (iunlockput a dp s) (\<lambda>_ s. Ok (Some ip) s)))))))))"

definition O_RDONLY :: u32 where "O_RDONLY = 0x000"
definition O_WRONLY :: u32 where "O_WRONLY = 0x001"
definition O_RDWR :: u32 where "O_RDWR = 0x002"
definition O_CREATE :: u32 where "O_CREATE = 0x200"

text \<open>The inode \<^verbatim>\<open>sys_open\<close> opens, locked; None after \<^verbatim>\<open>end_op()\<close> when it returns -1.\<close>

definition open_inode :: "'e okst_scheme devtab \<Rightarrow> nat \<Rightarrow> u8 list \<Rightarrow> u32 \<Rightarrow> 'e okst_scheme
    \<Rightarrow> (nat option, 'e okst_scheme) res" where
  "open_inode dv a path omode s =
     (if omode AND O_CREATE \<noteq> 0 then
        bnd (create dv a path T_FILE 0 0 s) (\<lambda>r s.
        case r of None \<Rightarrow> bnd (end_op a s) (\<lambda>_ s. Ok None s) | Some ip \<Rightarrow> Ok (Some ip) s)
      else
        bnd (namei dv a path s) (\<lambda>r s.
        case r of
          None \<Rightarrow> bnd (end_op a s) (\<lambda>_ s. Ok None s)
        | Some ip \<Rightarrow>
            bnd (ilock a ip s) (\<lambda>_ s.
            if i_type (ino ip s) = T_DIR \<and> omode \<noteq> O_RDONLY
            then bnd (iunlockput a ip s) (\<lambda>_ s. bnd (end_op a s) (\<lambda>_ s. Ok None s))
            else Ok (Some ip) s)))"

definition open_file :: "nat \<Rightarrow> u32 \<Rightarrow> kfile \<Rightarrow> kfile" where
  "open_file ip omode f = f\<lparr>f_type := FD_INODE, f_ip := ip, f_off := 0,
     f_readable := (omode AND O_WRONLY = 0),
     f_writable := (omode AND O_WRONLY \<noteq> 0 \<or> omode AND O_RDWR \<noteq> 0)\<rparr>"

definition sys_open :: "'e okst_scheme devtab \<Rightarrow> nat \<Rightarrow> 'e okst_scheme \<Rightarrow> (int, 'e okst_scheme) res" where
  "sys_open dv a s =
     need (argstr a 0 s) (\<lambda>path s.
     need (argint a 1 s) (\<lambda>omode s.
     bnd (begin_op a s) (\<lambda>_ s.
     need (open_inode dv a path omode s) (\<lambda>ip s.
     bnd (filealloc a s) (\<lambda>f s.
     case f of
       None \<Rightarrow> give_up a ip s
     | Some f \<Rightarrow>
         bnd (fdalloc a f s) (\<lambda>fd s.
         case fd of
           None \<Rightarrow> bnd (fileclose a f s) (\<lambda>_ s. give_up a ip s)
         | Some fd \<Rightarrow>
             bnd (iunlock a ip s) (\<lambda>_ s.
             bnd (end_op a s) (\<lambda>_ s. Ok (int fd) (upd_file f (open_file ip omode) s)))))))))"

text \<open>\<^verbatim>\<open>sys_mkdir\<close> and \<^verbatim>\<open>sys_mknod\<close> open a transaction before they read their arguments.\<close>

definition need_op :: "nat \<Rightarrow> ('v option, 'e lkst_scheme) res \<Rightarrow> ('v \<Rightarrow> 'e lkst_scheme \<Rightarrow> (int, 'e lkst_scheme) res)
    \<Rightarrow> (int, 'e lkst_scheme) res" where
  "need_op a m f = bnd m (\<lambda>r s. case r of None \<Rightarrow> finish_op a (-1) s | Some v \<Rightarrow> f v s)"

definition sys_mkdir :: "'e okst_scheme devtab \<Rightarrow> nat \<Rightarrow> 'e okst_scheme \<Rightarrow> (int, 'e okst_scheme) res" where
  "sys_mkdir dv a s =
     bnd (begin_op a s) (\<lambda>_ s.
     need_op a (argstr a 0 s) (\<lambda>path s.
     need_op a (create dv a path T_DIR 0 0 s) (\<lambda>ip s.
     bnd (iunlockput a ip s) (\<lambda>_ s. finish_op a 0 s))))"

definition sys_mknod :: "'e okst_scheme devtab \<Rightarrow> nat \<Rightarrow> 'e okst_scheme \<Rightarrow> (int, 'e okst_scheme) res" where
  "sys_mknod dv a s =
     bnd (begin_op a s) (\<lambda>_ s.
     need_op a (argstr a 0 s) (\<lambda>path s.
     need_op a (argint a 1 s) (\<lambda>mj s.
     need_op a (argint a 2 s) (\<lambda>mn s.
     need_op a (create dv a path T_DEV (ucast mj) (ucast mn) s) (\<lambda>ip s.
     bnd (iunlockput a ip s) (\<lambda>_ s. finish_op a 0 s))))))"

definition sys_chdir :: "'e okst_scheme devtab \<Rightarrow> nat \<Rightarrow> 'e okst_scheme \<Rightarrow> (int, 'e okst_scheme) res" where
  "sys_chdir dv a s =
     with_myproc a (\<lambda>me s.
       bnd (begin_op a s) (\<lambda>_ s.
       need_op a (argstr a 0 s) (\<lambda>path s.
       need_op a (namei dv a path s) (\<lambda>ip s.
       bnd (ilock a ip s) (\<lambda>_ s.
       if i_type (ino ip s) \<noteq> T_DIR then give_up a ip s
       else
         bnd (iunlock a ip s) (\<lambda>_ s.
         case cwd (prc me s) of
           None \<Rightarrow> Panic null_deref
         | Some c \<Rightarrow>
             bnd (iput a c s) (\<lambda>_ s.
             bnd (end_op a s) (\<lambda>_ s. Ok 0 (upd_proc me (\<lambda>p. p\<lparr>cwd := Some ip\<rparr>) s))))))))) s"

definition sys_pipe :: "nat \<Rightarrow> 'e okst_scheme \<Rightarrow> (int, 'e okst_scheme) res" where
  "sys_pipe a s =
     need (argptr a 0 8 s) (\<lambda>p s.
     need (pipealloc a s) (\<lambda>(rf, wf) s.
     bnd (fdalloc a rf s) (\<lambda>fd0 s.
     bnd (case fd0 of None \<Rightarrow> Ok None s | Some _ \<Rightarrow> fdalloc a wf s) (\<lambda>fd1 s.
     case (fd0, fd1) of
       (Some d0, Some d1) \<Rightarrow>
         bnd (deliver a p (bytes32 (word_of_nat d0)) s) (\<lambda>_ s.
         bnd (deliver a (p + 4) (bytes32 (word_of_nat d1)) s) (\<lambda>_ s. Ok 0 s))
     | _ \<Rightarrow>
         bnd (case fd0 of None \<Rightarrow> Ok () s
              | Some d0 \<Rightarrow> with_myproc a (\<lambda>i s. Ok () (set_ofile i d0 None s)) s) (\<lambda>_ s.
         bnd (fileclose a rf s) (\<lambda>_ s.
         bnd (fileclose a wf s) (\<lambda>_ s. Ok (-1) s)))))))"

end
