(* ===== verification/Exec.thy ===== *)
theory Exec
  imports Sysfile
begin

text \<open>
  Program loading: \<^verbatim>\<open>loaduvm\<close> of \<^verbatim>\<open>src/vm.c\<close>, \<^verbatim>\<open>src/exec.c\<close>, the formats of \<^verbatim>\<open>src/elf.h\<close>, and \<^verbatim>\<open>sys_exec\<close>
  of \<^verbatim>\<open>src/sysfile.c\<close>. The argument strings are values; the code keeps pointers to them.
\<close>

section \<open>ELF\<close>

definition ELF_MAGIC :: u32 where "ELF_MAGIC = 0x464C457F"
definition ELF_PROG_LOAD :: u32 where "ELF_PROG_LOAD = 1"

record elfhdr =
  e_magic :: u32
  e_entry :: u32
  e_phoff :: u32
  e_phnum :: "16 word"

definition elfhdr_of :: "u8 list \<Rightarrow> elfhdr" where
  "elfhdr_of d = \<lparr>e_magic = get32 d 0, e_entry = get32 d 24, e_phoff = get32 d 28, e_phnum = get16 d 44\<rparr>"

record proghdr =
  ph_type :: u32
  ph_off :: u32
  ph_vaddr :: u32
  ph_filesz :: u32
  ph_memsz :: u32

definition proghdr_of :: "u8 list \<Rightarrow> proghdr" where
  "proghdr_of d = \<lparr>ph_type = get32 d 0, ph_off = get32 d 4, ph_vaddr = get32 d 8, ph_filesz = get32 d 16,
     ph_memsz = get32 d 20\<rparr>"

section \<open>Loading\<close>

definition loaduvm_page :: "'e fkst_scheme devtab \<Rightarrow> nat \<Rightarrow> u32 \<Rightarrow> u32 \<Rightarrow> nat \<Rightarrow> u32 \<Rightarrow> u32 \<Rightarrow> nat \<Rightarrow> 'e fkst_scheme
    \<Rightarrow> (unit option, 'e fkst_scheme) res" where
  "loaduvm_page dv a pgd addr ip offset z i s =
     bnd (walkpgdir a pgd (addr + word_of_nat i) False s) (\<lambda>pte s.
     if pte = 0 then Panic ''loaduvm: address should exist''
     else
       let pa = PTE_ADDR (rd32 pte s);
           n = (if z - word_of_nat i < PGSIZE then z - word_of_nat i else PGSIZE) in
       bnd (readi dv a ip (offset + word_of_nat i) n s) (\<lambda>(r, d) s.
       let s = s\<lparr>pmem := store_list (pmem s) (P2V pa) d\<rparr> in
       if word_of_int r \<noteq> n then Ok (Some ()) s else Ok None s))"

definition loaduvm :: "'e fkst_scheme devtab \<Rightarrow> nat \<Rightarrow> u32 \<Rightarrow> u32 \<Rightarrow> nat \<Rightarrow> u32 \<Rightarrow> u32 \<Rightarrow> 'e fkst_scheme
    \<Rightarrow> (int, 'e fkst_scheme) res" where
  "loaduvm dv a pgd addr ip offset z s =
     (if addr mod PGSIZE \<noteq> 0 then Panic ''loaduvm: addr must be page aligned''
      else bnd (findR (chunks (unat PGSIZE) (unat z)) (loaduvm_page dv a pgd addr ip offset z) s) (\<lambda>r s.
        Ok (case r of None \<Rightarrow> 0 | Some _ \<Rightarrow> -1) s))"

text \<open>The loop over the program headers: the size of the image, or None for \<^verbatim>\<open>goto bad\<close>.\<close>

fun exec_load :: "'e fkst_scheme devtab \<Rightarrow> nat \<Rightarrow> nat \<Rightarrow> u32 \<Rightarrow> nat \<Rightarrow> u32 \<Rightarrow> u32 \<Rightarrow> 'e fkst_scheme
    \<Rightarrow> (u32 option, 'e fkst_scheme) res" where
  "exec_load dv a ip pgd 0 off z s = Ok (Some z) s"
| "exec_load dv a ip pgd (Suc k) off z s =
     bnd (readi dv a ip off 32 s) (\<lambda>(r, d) s.
     let ph = proghdr_of d in
     if r \<noteq> 32 then Ok None s
     else if ph_type ph \<noteq> ELF_PROG_LOAD then exec_load dv a ip pgd k (off + 32) z s
     else if ph_memsz ph < ph_filesz ph then Ok None s
     else if ph_vaddr ph + ph_memsz ph < ph_vaddr ph then Ok None s
     else
       bnd (allocuvm a pgd z (ph_vaddr ph + ph_memsz ph) s) (\<lambda>z s.
       if z = 0 then Ok None s
       else if ph_vaddr ph mod PGSIZE \<noteq> 0 then Ok None s
       else
         bnd (loaduvm dv a pgd (ph_vaddr ph) ip (ph_off ph) (ph_filesz ph) s) (\<lambda>r s.
         if r < 0 then Ok None s else exec_load dv a ip pgd k (off + 32) z s)))"

definition MAXARG :: nat where "MAXARG = 32"

text \<open>
  The loop that pushes the argument strings: the stack pointer and the addresses of the strings,
  or None for \<^verbatim>\<open>goto bad\<close>.
\<close>

fun push_args :: "nat \<Rightarrow> u32 \<Rightarrow> u8 list list \<Rightarrow> nat \<Rightarrow> u32 \<Rightarrow> 'e mkst_scheme
    \<Rightarrow> ((u32 \<times> u32 list) option, 'e mkst_scheme) res" where
  "push_args a pgd [] argc sp s = Ok (Some (sp, [])) s"
| "push_args a pgd (x # xs) argc sp s =
     (if argc \<ge> MAXARG then Ok None s
      else
        let sp = (sp - (word_of_nat (length x) + 1)) AND NOT 3 in
        bnd (copyout a pgd sp (x @ [0]) s) (\<lambda>r s.
        if r < 0 then Ok None s
        else bnd (push_args a pgd xs (Suc argc) sp s) (\<lambda>r s.
          Ok (map_option (\<lambda>(e, us). (e, sp # us)) r) s)))"

definition exec_stack :: "u32 \<Rightarrow> u32 list \<Rightarrow> u32 list" where
  "exec_stack sp us =
     [0xFFFFFFFF, word_of_nat (length us), sp - word_of_nat (length us + 1) * 4] @ us @ [0]"

definition exec_bad :: "nat \<Rightarrow> u32 \<Rightarrow> nat option \<Rightarrow> 'e fkst_scheme \<Rightarrow> (int, 'e fkst_scheme) res" where
  "exec_bad a pgd ip s =
     bnd (if pgd \<noteq> 0 then freevm a pgd s else Ok () s) (\<lambda>_ s.
     case ip of None \<Rightarrow> Ok (-1) s | Some ip \<Rightarrow> give_up a ip s)"

definition path_base :: "u8 list \<Rightarrow> u8 list" where
  "path_base path = rev (takeWhile (\<lambda>c. c \<noteq> slash) (rev path))"

text \<open>The end of \<^verbatim>\<open>exec\<close>: the new name, class and image of the calling process.\<close>

definition exec_commit :: "nat \<Rightarrow> nat \<Rightarrow> u8 list \<Rightarrow> u32 \<Rightarrow> u32 \<Rightarrow> u32 \<Rightarrow> u32 \<Rightarrow> 'e pkst_scheme
    \<Rightarrow> (int, 'e pkst_scheme) res" where
  "exec_commit a me path pgd z entry sp s =
     (let s = upd_proc me (\<lambda>p. p\<lparr>pname := map (\<lambda>c. char_of (unat c)) (take 15 (path_base path))\<rparr>) s;
          s = (if pid (prc me s) = 1 \<or> pid (prc me s) = 2
               then upd_proc me (\<lambda>p. p\<lparr>sched_class := 2, sched_level := 1\<rparr>) s else s);
          old = pgdir (prc me s);
          s = upd_proc me (\<lambda>p. p\<lparr>pgdir := pgd, sz := z, tf := (tf p)\<lparr>tf_eip := entry, tf_esp := sp\<rparr>\<rparr>) s
      in bnd (switchuvm a (Some me) s) (\<lambda>_ s.
         bnd (freevm a old s) (\<lambda>_ s. Ok 0 s)))"

definition exec_image :: "nat \<Rightarrow> nat \<Rightarrow> u8 list \<Rightarrow> u8 list list \<Rightarrow> u32 \<Rightarrow> u32 \<Rightarrow> u32 \<Rightarrow> 'e fkst_scheme
    \<Rightarrow> (int, 'e fkst_scheme) res" where
  "exec_image a me path argv pgd z entry s =
     (let z = PGROUNDUP z in
      bnd (allocuvm a pgd z (z + 2 * PGSIZE) s) (\<lambda>z s.
      if z = 0 then exec_bad a pgd None s
      else
        bnd (clearpteu a pgd (z - 2 * PGSIZE) s) (\<lambda>_ s.
        bnd (push_args a pgd argv 0 z s) (\<lambda>r s.
        case r of
          None \<Rightarrow> exec_bad a pgd None s
        | Some (sp, us) \<Rightarrow>
            let st = exec_stack sp us; sp = sp - word_of_nat (length st) * 4 in
            bnd (copyout a pgd sp (concat (map bytes32 st)) s) (\<lambda>r s.
            if r < 0 then exec_bad a pgd None s
            else exec_commit a me path pgd z entry sp s)))))"

definition exec_fail_msg :: string where "exec_fail_msg = ''exec: fail'' @ newline"

definition exec :: "'e okst_scheme devtab \<Rightarrow> nat \<Rightarrow> u8 list \<Rightarrow> u8 list list \<Rightarrow> 'e okst_scheme
    \<Rightarrow> (int, 'e okst_scheme) res" where
  "exec dv a path argv s =
     with_myproc a (\<lambda>me s.
       bnd (begin_op a s) (\<lambda>_ s.
       bnd (namei dv a path s) (\<lambda>r s.
       case r of
         None \<Rightarrow> bnd (end_op a s) (\<lambda>_ s. bnd (cprintf a exec_fail_msg [] s) (\<lambda>_ s. Ok (-1) s))
       | Some ip \<Rightarrow>
           bnd (ilock a ip s) (\<lambda>_ s.
           bnd (readi dv a ip 0 52 s) (\<lambda>(r, d) s.
           let elf = elfhdr_of d in
           if r \<noteq> 52 then exec_bad a 0 (Some ip) s
           else if e_magic elf \<noteq> ELF_MAGIC then exec_bad a 0 (Some ip) s
           else
             bnd (setupkvm a s) (\<lambda>pgd s.
             if pgd = 0 then exec_bad a 0 (Some ip) s
             else
               bnd (exec_load dv a ip pgd (unat (e_phnum elf)) (e_phoff elf) 0 s) (\<lambda>r s.
               case r of
                 None \<Rightarrow> exec_bad a pgd (Some ip) s
               | Some z \<Rightarrow>
                   bnd (iunlockput a ip s) (\<lambda>_ s.
                   bnd (end_op a s) (\<lambda>_ s.
                   exec_image a me path argv pgd z (e_entry elf) s))))))))) s"

text \<open>The arguments of \<^verbatim>\<open>sys_exec\<close>, from the \<open>i\<close>-th on; \<open>k\<close> is what is left of the array.\<close>

fun exec_args :: "nat \<Rightarrow> u32 \<Rightarrow> nat \<Rightarrow> 'e pkst_scheme \<Rightarrow> (u8 list list option, 'e pkst_scheme) res" where
  "exec_args a uargv 0 s = Ok None s"
| "exec_args a uargv (Suc k) s =
     bnd (fetchint a uargv s) (\<lambda>r s.
     case r of
       None \<Rightarrow> Ok None s
     | Some uarg \<Rightarrow>
         if uarg = 0 then Ok (Some []) s
         else
           bnd (fetchstr a uarg s) (\<lambda>r s.
           case r of
             None \<Rightarrow> Ok None s
           | Some x \<Rightarrow>
               bnd (exec_args a (uargv + 4) k s) (\<lambda>r s. Ok (map_option (\<lambda>xs. x # xs) r) s)))"

definition sys_exec :: "'e okst_scheme devtab \<Rightarrow> nat \<Rightarrow> 'e okst_scheme \<Rightarrow> (int, 'e okst_scheme) res" where
  "sys_exec dv a s =
     need (argstr a 0 s) (\<lambda>path s.
     need (argint a 1 s) (\<lambda>uargv s.
     need (exec_args a uargv MAXARG s) (\<lambda>argv s. exec dv a path argv s)))"

end
