(* ===== verification/Proc_Life.thy ===== *)
theory Proc_Life
  imports Sysfile
begin

text \<open>
  The life of a process, \<^verbatim>\<open>src/proc.c\<close>: \<^verbatim>\<open>userinit\<close>, \<^verbatim>\<open>fork\<close>, \<^verbatim>\<open>forkret\<close> and \<^verbatim>\<open>exit\<close>, which need the file
  system. The image of \<^verbatim>\<open>src/initcode.S\<close>, which the linker places in the kernel, is given by its
  address and size.
\<close>

record xkst = okst +
  fork_first :: bool

definition zero_tf :: trapframe where
  "zero_tf = \<lparr>tf_edi = 0, tf_esi = 0, tf_ebp = 0, tf_oesp = 0, tf_ebx = 0, tf_edx = 0, tf_ecx = 0,
     tf_eax = 0, tf_gs = 0, tf_fs = 0, tf_es = 0, tf_ds = 0, tf_trapno = 0, tf_err = 0, tf_eip = 0,
     tf_cs = 0, tf_eflags = 0, tf_esp = 0, tf_ss = 0\<rparr>"

definition SEG_UCODE :: u32 where "SEG_UCODE = 3"
definition SEG_UDATA :: u32 where "SEG_UDATA = 4"
definition DPL_USER :: u32 where "DPL_USER = 3"
definition FL_IF :: u32 where "FL_IF = 0x200"

definition init_tf :: trapframe where
  "init_tf = zero_tf\<lparr>tf_cs := push_bit 3 SEG_UCODE OR DPL_USER, tf_ds := push_bit 3 SEG_UDATA OR DPL_USER,
     tf_es := push_bit 3 SEG_UDATA OR DPL_USER, tf_ss := push_bit 3 SEG_UDATA OR DPL_USER,
     tf_eflags := FL_IF, tf_esp := PGSIZE, tf_eip := 0\<rparr>"

definition userinit :: "'e okst_scheme devtab \<Rightarrow> nat \<Rightarrow> u32 \<Rightarrow> u32 \<Rightarrow> 'e okst_scheme \<Rightarrow> (unit, 'e okst_scheme) res" where
  "userinit dv a init_start init_size s =
     bnd (allocproc a s) (\<lambda>r s.
     case r of
       None \<Rightarrow> Panic null_deref
     | Some i \<Rightarrow>
         let s = (upd_proc i (\<lambda>p. p\<lparr>sched_class := 2, sched_level := 1\<rparr>) s)\<lparr>initproc := Some i\<rparr> in
         bnd (setupkvm a s) (\<lambda>d s.
         let s = upd_proc i (\<lambda>p. p\<lparr>pgdir := d\<rparr>) s in
         if d = 0 then Panic ''userinit: out of memory?''
         else
           bnd (inituvm a d init_start init_size s) (\<lambda>_ s.
           let s = upd_proc i (\<lambda>p. p\<lparr>sz := PGSIZE, tf := init_tf, pname := ''initcode''\<rparr>) s in
           bnd (namei dv a [slash] s) (\<lambda>c s.
           bnd (acquire a PtableLock (upd_proc i (\<lambda>p. p\<lparr>cwd := c\<rparr>) s)) (\<lambda>_ s.
           bnd (make_runnable a i s) (\<lambda>_ s. release a PtableLock s))))))"

definition fork_file :: "nat \<Rightarrow> nat \<Rightarrow> nat \<Rightarrow> nat \<Rightarrow> 'e okst_scheme \<Rightarrow> (unit, 'e okst_scheme) res" where
  "fork_file a me np k s =
     (case ofile (prc me s) ! k of
        None \<Rightarrow> Ok () s
      | Some f \<Rightarrow> bnd (filedup a f s) (\<lambda>f s. Ok () (set_ofile np k (Some f) s)))"

text \<open>\<^verbatim>\<open>fork\<close> stamps \<^verbatim>\<open>last_run\<close> together with the arrival of the child.\<close>

definition fork_ready :: "nat \<Rightarrow> nat \<Rightarrow> 'e pkst_scheme \<Rightarrow> (unit, 'e pkst_scheme) res" where
  "fork_ready a np s =
     bnd (acquire a PtableLock s) (\<lambda>_ s.
     let s = upd_proc np (\<lambda>p. p\<lparr>state := RUNNABLE\<rparr>) s in
     bnd (acquire a TicksLock s) (\<lambda>_ s.
     let s = upd_proc np (\<lambda>p. p\<lparr>arrival_time := sint (ticks s), waited_ticks := 0,
               last_run := sint (ticks s)\<rparr>) s in
     bnd (release a TicksLock s) (\<lambda>_ s. release a PtableLock (count_add 1 np s))))"

text \<open>\<^verbatim>\<open>fork\<close> once the address space is copied, and from the point where the child has a slot.\<close>

definition fork_finish :: "nat \<Rightarrow> nat \<Rightarrow> nat \<Rightarrow> 'e okst_scheme \<Rightarrow> (int, 'e okst_scheme) res" where
  "fork_finish a me np s =
     bnd (forR [0..<NOFILE] (fork_file a me np) s) (\<lambda>_ s.
     bnd (case cwd (prc me s) of None \<Rightarrow> Panic null_deref | Some c \<Rightarrow> idup a c s) (\<lambda>c s.
     let s = upd_proc np (\<lambda>p. p\<lparr>cwd := Some c, pname := take 15 (pname (prc me s))\<rparr>) s;
         n = pid (prc np s) in
     bnd (fork_ready a np s) (\<lambda>_ s. Ok n s)))"

definition fork_copy :: "nat \<Rightarrow> nat \<Rightarrow> nat \<Rightarrow> 'e okst_scheme \<Rightarrow> (int, 'e okst_scheme) res" where
  "fork_copy a me np s =
     bnd (copyuvm a (pgdir (prc me s)) (sz (prc me s)) s) (\<lambda>d s.
     let s = upd_proc np (\<lambda>p. p\<lparr>pgdir := d\<rparr>) s in
     if d = 0 then
       bnd (kfree a (kstack (prc np s)) s) (\<lambda>_ s.
       Ok (-1) (upd_proc np (\<lambda>p. p\<lparr>kstack := 0, state := UNUSED\<rparr>) s))
     else
       let cp = prc me s in
       fork_finish a me np
         (upd_proc np (\<lambda>p. p\<lparr>sz := sz cp, parent := Some me, tf := (tf cp)\<lparr>tf_eax := 0\<rparr>\<rparr>) s))"

definition fork :: "nat \<Rightarrow> 'e okst_scheme \<Rightarrow> (int, 'e okst_scheme) res" where
  "fork a s =
     with_myproc a (\<lambda>me s.
       bnd (allocproc a s) (\<lambda>r s.
       case r of None \<Rightarrow> Ok (-1) s | Some np \<Rightarrow> fork_copy a me np s)) s"

definition forkret :: "nat \<Rightarrow> 'e xkst_scheme \<Rightarrow> (unit, 'e xkst_scheme) res" where
  "forkret a s =
     bnd (release a PtableLock s) (\<lambda>_ s.
     if fork_first s then
       bnd (iinit a ROOTDEV (s\<lparr>fork_first := False\<rparr>)) (\<lambda>_ s. initlog a ROOTDEV s)
     else Ok () s)"

definition close_fd :: "nat \<Rightarrow> nat \<Rightarrow> nat \<Rightarrow> 'e okst_scheme \<Rightarrow> (unit, 'e okst_scheme) res" where
  "close_fd a me fd s =
     (case ofile (prc me s) ! fd of
        None \<Rightarrow> Ok () s
      | Some f \<Rightarrow> bnd (fileclose a f s) (\<lambda>_ s. Ok () (set_ofile me fd None s)))"

definition proc_chan :: "nat option \<Rightarrow> chan option" where
  "proc_chan p = map_option ChProc p"

definition abandon :: "nat \<Rightarrow> nat \<Rightarrow> nat \<Rightarrow> 'e pkst_scheme \<Rightarrow> (unit, 'e pkst_scheme) res" where
  "abandon a me i s =
     (if parent (prc i s) = Some me then
        let s = upd_proc i (\<lambda>p. p\<lparr>parent := initproc s\<rparr>) s in
        if state (prc i s) = ZOMBIE then wakeup1 a (proc_chan (initproc s)) s else Ok () s
      else Ok () s)"

text \<open>\<^verbatim>\<open>exit\<close> from \<^verbatim>\<open>acquire(&ptable.lock)\<close> on.\<close>

definition exit_zombie :: "nat \<Rightarrow> nat \<Rightarrow> 'e pkst_scheme \<Rightarrow> ('a, 'e pkst_scheme) res" where
  "exit_zombie a me s =
     bnd (acquire a PtableLock s) (\<lambda>_ s.
     bnd (wakeup1 a (proc_chan (parent (prc me s))) s) (\<lambda>_ s.
     bnd (forR [0..<NPROC] (abandon a me) s) (\<lambda>_ s.
     sched a InExit (upd_proc me (\<lambda>p. p\<lparr>state := ZOMBIE\<rparr>) s))))"

definition exit :: "nat \<Rightarrow> 'e okst_scheme \<Rightarrow> ('a, 'e okst_scheme) res" where
  "exit a s =
     bnd (myproc a s) (\<lambda>p s.
     if p = initproc s then Panic ''init exiting''
     else case p of
       None \<Rightarrow> Panic null_deref
     | Some me \<Rightarrow>
         bnd (forR [0..<NOFILE] (close_fd a me) s) (\<lambda>_ s.
         bnd (begin_op a s) (\<lambda>_ s.
         bnd (case cwd (prc me s) of None \<Rightarrow> Panic null_deref | Some c \<Rightarrow> iput a c s) (\<lambda>_ s.
         bnd (end_op a s) (\<lambda>_ s.
         exit_zombie a me (upd_proc me (\<lambda>p. p\<lparr>cwd := None\<rparr>) s))))))"

definition exit_resume :: "nat \<Rightarrow> bool \<Rightarrow> 'e pkst_scheme \<Rightarrow> ('a, 'e pkst_scheme) res" where
  "exit_resume a intena s = bnd (sched_resume a intena s) (\<lambda>_ s. Panic ''zombie exit'')"

end
