(* ===== verification/Console.thy ===== *)
theory Console
  imports Proc_Life
begin

text \<open>
  Console input, output and the screen, \<^verbatim>\<open>src/console.c\<close> from \<^verbatim>\<open>cgaputc\<close> on, and the character sources of
  \<^verbatim>\<open>src/uart.c\<close>. What the code prints is the sequence of characters it hands to the serial port; the
  screen they also go to is a state machine of its own. \<^verbatim>\<open>consoleintr\<close> takes the characters that
  its argument \<^verbatim>\<open>getc\<close> yields before the first negative value.
\<close>

section \<open>The screen\<close>

definition BACKSPACE :: int where "BACKSPACE = 0x100"

record screen =
  crt :: "16 word list"
  cursor :: int

definition scroll :: "screen \<Rightarrow> screen" where
  "scroll d =
     (let n = nat (cursor d - 80); c = drop 80 (take (24 * 80) (crt d)) @ drop (23 * 80) (crt d)
      in d\<lparr>crt := take n c @ replicate (24 * 80 - n) 0 @ drop (24 * 80) c, cursor := cursor d - 80\<rparr>)"

definition cgaputc :: "int \<Rightarrow> screen \<Rightarrow> screen option" where
  "cgaputc c d =
     (let pos = cursor d;
          d = (if c = 10 then d\<lparr>cursor := pos + (80 - pos mod 80)\<rparr>
               else if c = BACKSPACE then (if pos > 0 then d\<lparr>cursor := pos - 1\<rparr> else d)
               else d\<lparr>crt := (crt d)[nat pos := (word_of_int c AND 0xFF) OR 0x0700], cursor := pos + 1\<rparr>)
      in if cursor d < 0 \<or> cursor d > 25 * 80 then None
         else
           let d = (if cursor d div 80 \<ge> 24 then scroll d else d)
           in Some (d\<lparr>crt := (crt d)[nat (cursor d) := 0x0720]\<rparr>))"

section \<open>Output\<close>

definition uart_chars :: "int \<Rightarrow> string" where
  "uart_chars c = (if c = BACKSPACE then [CHR 0x08, CHR '' '', CHR 0x08] else [char_of c])"

definition consputc :: "int \<Rightarrow> 'e ckst_scheme \<Rightarrow> 'e ckst_scheme" where
  "consputc c s = consputs (uart_chars c) s"

text \<open>
  \<^verbatim>\<open>uartputc\<close>: how often it polls the status register before it sends, given the values the register
  would return, and \<^verbatim>\<open>uartgetc\<close>.
\<close>

fun uart_polls :: "nat \<Rightarrow> u8 list \<Rightarrow> nat" where
  "uart_polls 0 st = 0"
| "uart_polls (Suc n) [] = 0"
| "uart_polls (Suc n) (x # st) = (if x AND 0x20 \<noteq> 0 then 0 else Suc (uart_polls n st))"

definition uartputc :: "bool \<Rightarrow> u8 list \<Rightarrow> int \<Rightarrow> nat \<times> u8 option" where
  "uartputc uart st c = (if \<not> uart then (0, None) else (uart_polls 128 st, Some (word_of_int c)))"

definition uartgetc :: "bool \<Rightarrow> u8 \<Rightarrow> u8 \<Rightarrow> int" where
  "uartgetc uart st data =
     (if \<not> uart then -1 else if st AND 0x01 = 0 then -1 else uint data)"

section \<open>Input\<close>

definition INPUT_BUF :: nat where "INPUT_BUF = 128"

record ikst = xkst +
  inbuf :: "u8 list"
  in_r :: u32
  in_w :: u32
  in_e :: u32

function kill_line :: "'e ikst_scheme \<Rightarrow> 'e ikst_scheme" where
  "kill_line s =
     (if in_e s \<noteq> in_w s \<and> inbuf s ! (unat (in_e s - 1) mod INPUT_BUF) \<noteq> 10
      then kill_line (consputc BACKSPACE (s\<lparr>in_e := in_e s - 1\<rparr>)) else s)"
  by pat_completeness auto
termination
proof (relation "measure (\<lambda>s. unat (in_e s - in_w s))")
  fix s :: "'e ikst_scheme"
  assume "in_e s \<noteq> in_w s \<and> inbuf s ! (unat (in_e s - 1) mod INPUT_BUF) \<noteq> 10"
  then have n: "in_e s - in_w s \<noteq> 0" by simp
  have e: "in_e s - 1 - in_w s = in_e s - in_w s - 1" by simp
  have "unat (in_e s - in_w s - 1) < unat (in_e s - in_w s)"
    using n by (simp add: unat_minus_one unat_gt_0)
  then show "(consputc BACKSPACE (s\<lparr>in_e := in_e s - 1\<rparr>), s) \<in> measure (\<lambda>s. unat (in_e s - in_w s))"
    by (simp add: consputc_def consputs_def e)
qed simp

declare kill_line.simps [simp del]

text \<open>The body of the loop of \<^verbatim>\<open>consoleintr\<close> for one character, but for the flag of control-P.\<close>

definition console_char :: "nat \<Rightarrow> int \<Rightarrow> 'e ikst_scheme \<Rightarrow> (unit, 'e ikst_scheme) res" where
  "console_char a c s =
     (if c = 16 then Ok () s
      else if c = 21 then Ok () (kill_line s)
      else if c = 8 \<or> c = 0x7F then
        Ok () (if in_e s \<noteq> in_w s then consputc BACKSPACE (s\<lparr>in_e := in_e s - 1\<rparr>) else s)
      else if c \<noteq> 0 \<and> in_e s - in_r s < word_of_nat INPUT_BUF then
        let c = (if c = 13 then 10 else c);
            s = s\<lparr>inbuf := (inbuf s)[unat (in_e s) mod INPUT_BUF := word_of_int c], in_e := in_e s + 1\<rparr>;
            s = consputc c s
        in if c = 10 \<or> c = 4 \<or> in_e s = in_r s + word_of_nat INPUT_BUF
           then wakeup a ChInput (s\<lparr>in_w := in_e s\<rparr>) else Ok () s
      else Ok () s)"

definition consoleintr :: "nat \<Rightarrow> (nat \<Rightarrow> u32 list) \<Rightarrow> int list \<Rightarrow> 'e ikst_scheme \<Rightarrow> (unit, 'e ikst_scheme) res" where
  "consoleintr a pcs cs s =
     bnd (acquire a ConsLock s) (\<lambda>_ s.
     bnd (forR cs (console_char a) s) (\<lambda>_ s.
     bnd (release a ConsLock s) (\<lambda>_ s.
     if 16 \<in> set cs then procdump a pcs s else Ok () s)))"

text \<open>
  \<^verbatim>\<open>consoleread\<close>: \<open>tgt\<close> is \<^verbatim>\<open>target\<close>, \<open>k\<close> the number of bytes still wanted and \<open>acc\<close> the bytes already
  stored at \<^verbatim>\<open>dst\<close>. The loop is entered with \<^verbatim>\<open>cons.lock\<close> held.
\<close>

definition consoleread_end :: "nat \<Rightarrow> nat \<Rightarrow> int \<Rightarrow> u8 list \<Rightarrow> 'e ikst_scheme \<Rightarrow> (int \<times> u8 list, 'e ikst_scheme) res" where
  "consoleread_end a ip r acc s =
     bnd (release a ConsLock s) (\<lambda>_ s. bnd (ilock a ip s) (\<lambda>_ s. Ok (r, acc) s))"

fun consoleread_loop :: "nat \<Rightarrow> nat \<Rightarrow> int \<Rightarrow> nat \<Rightarrow> u8 list \<Rightarrow> 'e ikst_scheme
    \<Rightarrow> (int \<times> u8 list, 'e ikst_scheme) res" where
  "consoleread_loop a ip tgt 0 acc s = consoleread_end a ip tgt acc s"
| "consoleread_loop a ip tgt (Suc k) acc s =
     (if in_r s = in_w s then
        with_myproc a (\<lambda>i s.
          if killed (prc i s) then consoleread_end a ip (-1) acc s
          else sleep a ChInput ConsLock s) s
      else
        let c = inbuf s ! (unat (in_r s) mod INPUT_BUF); s = s\<lparr>in_r := in_r s + 1\<rparr> in
        if c = 4 then
          consoleread_end a ip (tgt - int (Suc k)) acc
            (if int (Suc k) < tgt then s\<lparr>in_r := in_r s - 1\<rparr> else s)
        else if c = 10 then consoleread_end a ip (tgt - int k) (acc @ [c]) s
        else consoleread_loop a ip tgt k (acc @ [c]) s)"

definition consoleread :: "nat \<Rightarrow> nat \<Rightarrow> int \<Rightarrow> 'e ikst_scheme \<Rightarrow> (int \<times> u8 list, 'e ikst_scheme) res" where
  "consoleread a ip n s =
     bnd (iunlock a ip s) (\<lambda>_ s.
     bnd (acquire a ConsLock s) (\<lambda>_ s.
     if n > 0 then consoleread_loop a ip n (nat n) [] s else consoleread_end a ip 0 [] s))"

definition consoleread_resume :: "nat \<Rightarrow> nat \<Rightarrow> nat \<Rightarrow> int \<Rightarrow> nat \<Rightarrow> u8 list \<Rightarrow> bool \<Rightarrow> 'e ikst_scheme
    \<Rightarrow> (int \<times> u8 list, 'e ikst_scheme) res" where
  "consoleread_resume a i ip tgt k acc intena s =
     bnd (sleep_resume a i ConsLock intena s) (\<lambda>_ s. consoleread_loop a ip tgt k acc s)"

definition consolewrite :: "nat \<Rightarrow> nat \<Rightarrow> u8 list \<Rightarrow> 'e ikst_scheme \<Rightarrow> (int, 'e ikst_scheme) res" where
  "consolewrite a ip buf s =
     bnd (iunlock a ip s) (\<lambda>_ s.
     bnd (acquire a ConsLock s) (\<lambda>_ s.
     let s = fold (\<lambda>c. consputc (uint c)) buf s in
     bnd (release a ConsLock s) (\<lambda>_ s.
     bnd (ilock a ip s) (\<lambda>_ s. Ok (int (length buf)) s))))"

definition CONSOLE :: nat where "CONSOLE = 1"

text \<open>The device table after \<^verbatim>\<open>consoleinit\<close>, and the rest of its work.\<close>

definition devsw :: "'e ikst_scheme devtab" where
  "devsw m = (if m = CONSOLE then \<lparr>dv_read = Some consoleread, dv_write = Some consolewrite\<rparr>
              else \<lparr>dv_read = None, dv_write = None\<rparr>)"

definition consoleinit :: "'e ckst_scheme \<Rightarrow> 'e ckst_scheme" where
  "consoleinit s = s\<lparr>mach := initlock ConsLock ''console'' (mach s), cons_locking := True\<rparr>"

end
