(* ===== verification/Syscall.thy ===== *)
theory Syscall
  imports Exec Console
begin

text \<open>
  The process calls of \<^verbatim>\<open>src/sysproc.c\<close> and the dispatch of \<^verbatim>\<open>src/syscall.c\<close>. The loop of \<^verbatim>\<open>sys_sleep\<close>
  is entered with \<^verbatim>\<open>tickslock\<close> held, at the start and after every wake-up.
\<close>

section \<open>Process calls\<close>

definition sys_fork :: "nat \<Rightarrow> 'e okst_scheme \<Rightarrow> (int, 'e okst_scheme) res" where
  "sys_fork a s = fork a s"

definition sys_exit :: "nat \<Rightarrow> 'e okst_scheme \<Rightarrow> (int, 'e okst_scheme) res" where
  "sys_exit a s = bnd (exit a s) (\<lambda>_ :: unit. \<lambda>s. Ok 0 s)"

definition sys_wait :: "nat \<Rightarrow> 'e pkst_scheme \<Rightarrow> (int, 'e pkst_scheme) res" where
  "sys_wait a s = wait a s"

definition sys_kill :: "nat \<Rightarrow> 'e pkst_scheme \<Rightarrow> (int, 'e pkst_scheme) res" where
  "sys_kill a s = need (argint a 0 s) (\<lambda>n s. kill a (sint n) s)"

definition sys_getpid :: "nat \<Rightarrow> 'e pkst_scheme \<Rightarrow> (int, 'e pkst_scheme) res" where
  "sys_getpid a s = with_myproc a (\<lambda>i s. Ok (pid (prc i s)) s) s"

definition sys_sbrk :: "nat \<Rightarrow> 'e pkst_scheme \<Rightarrow> (int, 'e pkst_scheme) res" where
  "sys_sbrk a s =
     need (argint a 0 s) (\<lambda>n s.
     with_myproc a (\<lambda>i s.
       let addr = sint (sz (prc i s)) in
       bnd (growproc a (sint n) s) (\<lambda>r s. Ok (if r < 0 then -1 else addr) s)) s)"

definition sys_sleep_loop :: "nat \<Rightarrow> u32 \<Rightarrow> u32 \<Rightarrow> 'e pkst_scheme \<Rightarrow> (int, 'e pkst_scheme) res" where
  "sys_sleep_loop a n ticks0 s =
     (if ticks s - ticks0 < n then
        with_myproc a (\<lambda>i s.
          if killed (prc i s) then bnd (release a TicksLock s) (\<lambda>_ s. Ok (-1) s)
          else sleep a ChTicks TicksLock s) s
      else bnd (release a TicksLock s) (\<lambda>_ s. Ok 0 s))"

definition sys_sleep :: "nat \<Rightarrow> 'e pkst_scheme \<Rightarrow> (int, 'e pkst_scheme) res" where
  "sys_sleep a s =
     need (argint a 0 s) (\<lambda>n s.
     bnd (acquire a TicksLock s) (\<lambda>_ s. sys_sleep_loop a n (ticks s) s))"

definition sys_sleep_resume :: "nat \<Rightarrow> nat \<Rightarrow> u32 \<Rightarrow> u32 \<Rightarrow> bool \<Rightarrow> 'e pkst_scheme \<Rightarrow> (int, 'e pkst_scheme) res" where
  "sys_sleep_resume a i n ticks0 intena s =
     bnd (sleep_resume a i TicksLock intena s) (\<lambda>_ s. sys_sleep_loop a n ticks0 s)"

definition sys_uptime :: "nat \<Rightarrow> 'e pkst_scheme \<Rightarrow> (int, 'e pkst_scheme) res" where
  "sys_uptime a s =
     bnd (acquire a TicksLock s) (\<lambda>_ s.
     let x = ticks s in bnd (release a TicksLock s) (\<lambda>_ s. Ok (sint x) s))"

definition sys_set_deadline_for_process :: "nat \<Rightarrow> 'e pkst_scheme \<Rightarrow> (int, 'e pkst_scheme) res" where
  "sys_set_deadline_for_process a s =
     need (argint a 0 s) (\<lambda>n s.
     need (argint a 1 s) (\<lambda>d s. set_deadline_for_process a (sint n) (sint d) s))"

definition sys_change_sched_level :: "nat \<Rightarrow> 'e pkst_scheme \<Rightarrow> (int, 'e pkst_scheme) res" where
  "sys_change_sched_level a s =
     need (argint a 0 s) (\<lambda>n s.
     need (argint a 1 s) (\<lambda>t s. change_sched_level a (sint n) (sint t) s))"

definition sys_print_sched_info :: "nat \<Rightarrow> 'e pkst_scheme \<Rightarrow> (int, 'e pkst_scheme) res" where
  "sys_print_sched_info a s = print_sched_info a s"

definition sys_update_wait_time :: "nat \<Rightarrow> 'e pkst_scheme \<Rightarrow> (int, 'e pkst_scheme) res" where
  "sys_update_wait_time a s =
     need (argint a 0 s) (\<lambda>n s. update_wait_time a (sint n) s)"

definition sys_is_higher_waiting :: "nat \<Rightarrow> 'e pkst_scheme \<Rightarrow> (int, 'e pkst_scheme) res" where
  "sys_is_higher_waiting a s = is_higher_waiting a s"

section \<open>Dispatch\<close>

text \<open>The table \<^verbatim>\<open>syscalls\<close>; its entries 0, 22 and 24 are null.\<close>

definition syscalls :: "nat \<Rightarrow> (nat \<Rightarrow> 'e ikst_scheme \<Rightarrow> (int, 'e ikst_scheme) res) option" where
  "syscalls n =
     (if n = 1 then Some sys_fork else if n = 2 then Some sys_exit else if n = 3 then Some sys_wait
      else if n = 4 then Some sys_pipe else if n = 5 then Some (sys_read devsw)
      else if n = 6 then Some sys_kill else if n = 7 then Some (sys_exec devsw)
      else if n = 8 then Some sys_fstat else if n = 9 then Some (sys_chdir devsw)
      else if n = 10 then Some sys_dup else if n = 11 then Some sys_getpid
      else if n = 12 then Some sys_sbrk else if n = 13 then Some sys_sleep
      else if n = 14 then Some sys_uptime else if n = 15 then Some (sys_open devsw)
      else if n = 16 then Some (sys_write devsw) else if n = 17 then Some (sys_mknod devsw)
      else if n = 18 then Some (sys_unlink devsw) else if n = 19 then Some (sys_link devsw)
      else if n = 20 then Some (sys_mkdir devsw) else if n = 21 then Some sys_close
      else if n = 23 then Some sys_change_sched_level else if n = 25 then Some sys_print_sched_info
      else if n = 26 then Some sys_update_wait_time else if n = 27 then Some sys_is_higher_waiting
      else if n = 28 then Some sys_set_deadline_for_process
      else None)"

definition set_eax :: "nat \<Rightarrow> int \<Rightarrow> 'e pkst_scheme \<Rightarrow> 'e pkst_scheme" where
  "set_eax i v s = upd_proc i (\<lambda>p. p\<lparr>tf := (tf p)\<lparr>tf_eax := word_of_int v\<rparr>\<rparr>) s"

definition unknown_call_fmt :: string where
  "unknown_call_fmt = ''%d %s: unknown sys call %d'' @ newline"

definition syscall :: "nat \<Rightarrow> 'e ikst_scheme \<Rightarrow> (unit, 'e ikst_scheme) res" where
  "syscall a s =
     with_myproc a (\<lambda>i s.
       let num = sint (tf_eax (tf (prc i s))) in
       case (if num > 0 \<and> num < 29 then syscalls (nat num) else None) of
         Some f \<Rightarrow> bnd (f a s) (\<lambda>r s. Ok () (set_eax i r s))
       | None \<Rightarrow>
           bnd (cprintf a unknown_call_fmt [pint (pid (prc i s)), PStr (Some (pname (prc i s))), pint num] s)
             (\<lambda>_ s. Ok () (set_eax i (-1) s))) s"

end
