(* ===== verification/Kbd.thy ===== *)
theory Kbd
  imports Xv6_Prelude
begin

unbundle bit_operations_syntax

text \<open>
  The keyboard, \<^verbatim>\<open>src/kbd.c\<close> and the tables of \<^verbatim>\<open>src/kbd.h\<close>. A table lists its leading entries; the
  other entries are zero but for the keypad and cursor keys.
\<close>

definition SHIFT :: u32 where "SHIFT = 1"
definition CTL :: u32 where "CTL = 2"
definition ALT :: u32 where "ALT = 4"
definition CAPSLOCK :: u32 where "CAPSLOCK = 8"
definition NUMLOCK :: u32 where "NUMLOCK = 16"
definition SCROLLLOCK :: u32 where "SCROLLLOCK = 32"
definition E0ESC :: u32 where "E0ESC = 64"

definition shiftcode :: "nat \<Rightarrow> u32" where
  "shiftcode k = (if k = 0x1D \<or> k = 0x9D then CTL else if k = 0x2A \<or> k = 0x36 then SHIFT
     else if k = 0x38 \<or> k = 0xB8 then ALT else 0)"

definition togglecode :: "nat \<Rightarrow> u32" where
  "togglecode k = (if k = 0x3A then CAPSLOCK else if k = 0x45 then NUMLOCK
     else if k = 0x46 then SCROLLLOCK else 0)"

definition codes :: "string \<Rightarrow> nat list" where
  "codes cs = map of_char cs"

text \<open>The entries from 0x00 on; NO is 0.\<close>

definition keypad :: "nat list" where
  "keypad = replicate 13 0 @ codes ''789-456+1230.'' @ replicate 4 0"

definition normal_head :: "nat list" where
  "normal_head = [0, 0x1B] @ codes ''1234567890-='' @ [8, 9] @ codes ''qwertyuiop[]'' @ [10, 0] @
     codes ''asdfghjkl;'' @ [39, 96, 0, 92] @ codes ''zxcvbnm,./'' @ [0, 42, 0, 32] @ keypad"

definition shift_head :: "nat list" where
  "shift_head = [0, 0x1B] @ codes ''!@#$%^&*()_+'' @ [8, 9] @ codes ''QWERTYUIOP{}'' @ [10, 0] @
     codes ''ASDFGHJKL:'' @ [34, 126, 0, 124] @ codes ''ZXCVBNM<>?'' @ [0, 42, 0, 32] @ keypad"

definition ctl :: "string \<Rightarrow> nat list" where
  "ctl cs = map (\<lambda>c. (of_char c + 192) mod 256) cs"

definition ctl_head :: "nat list" where
  "ctl_head = replicate 16 0 @ ctl ''QWERTYUIOP'' @ [0, 0, 13, 0] @ ctl ''ASDFGHJKL'' @
     [0, 0, 0, 0] @ ctl [CHR 0x5C] @ ctl ''ZXCVBNM'' @ [0, 0] @ ctl ''/'' @ [0, 0]"

definition extended :: "nat \<Rightarrow> nat \<Rightarrow> nat \<Rightarrow> nat" where
  "extended enter slash k =
     (if k = 0x9C then enter else if k = 0xB5 then slash
      else if k = 0xC8 then 0xE2 else if k = 0xD0 then 0xE3
      else if k = 0xC9 then 0xE6 else if k = 0xD1 then 0xE7
      else if k = 0xCB then 0xE4 else if k = 0xCD then 0xE5
      else if k = 0x97 then 0xE0 else if k = 0xCF then 0xE1
      else if k = 0xD2 then 0xE8 else if k = 0xD3 then 0xE9 else 0)"

definition normalmap :: "nat \<Rightarrow> nat" where
  "normalmap k = (if k < length normal_head then normal_head ! k else extended 10 47 k)"

definition shiftmap :: "nat \<Rightarrow> nat" where
  "shiftmap k = (if k < length shift_head then shift_head ! k else extended 10 47 k)"

definition ctlmap :: "nat \<Rightarrow> nat" where
  "ctlmap k = (if k < length ctl_head then ctl_head ! k else extended 13 239 k)"

definition charcode :: "u32 \<Rightarrow> nat \<Rightarrow> nat" where
  "charcode m = (if m = 0 then normalmap else if m = 1 then shiftmap else ctlmap)"

definition caps :: "nat \<Rightarrow> nat" where
  "caps c = (if 97 \<le> c \<and> c \<le> 122 then c - 32 else if 65 \<le> c \<and> c \<le> 90 then c + 32 else c)"

text \<open>\<open>kbdgetc shift st data\<close>: the result and the new value of the static variable \<^verbatim>\<open>shift\<close>.\<close>

definition kbdgetc :: "u32 \<Rightarrow> u8 \<Rightarrow> u8 \<Rightarrow> int \<times> u32" where
  "kbdgetc shift st byte =
     (if st AND 1 = 0 then (-1, shift)
      else if byte = 0xE0 then (0, shift OR E0ESC)
      else if byte AND 0x80 \<noteq> 0 then
        let d = (if shift AND E0ESC \<noteq> 0 then byte else byte AND 0x7F)
        in (0, shift AND NOT (shiftcode (unat d) OR E0ESC))
      else
        let d = (if shift AND E0ESC \<noteq> 0 then byte OR 0x80 else byte);
            shift = (if shift AND E0ESC \<noteq> 0 then shift AND NOT E0ESC else shift);
            shift = shift OR shiftcode (unat d);
            shift = shift XOR togglecode (unat d);
            c = charcode (shift AND (CTL OR SHIFT)) (unat d)
        in (int (if shift AND CAPSLOCK \<noteq> 0 then caps c else c), shift))"

text \<open>The characters \<^verbatim>\<open>consoleintr\<close> gets from a sequence of scan codes.\<close>

fun kbd_chars :: "u32 \<Rightarrow> u8 list \<Rightarrow> int list" where
  "kbd_chars shift [] = []"
| "kbd_chars shift (b # bs) = (let (c, shift') = kbdgetc shift 1 b in c # kbd_chars shift' bs)"

end
