(* ===== verification/Trap.thy ===== *)
theory Trap
  imports Syscall Kbd
begin

text \<open>
  Traps and interrupts, \<^verbatim>\<open>src/trap.c\<close>. \<^verbatim>\<open>trap\<close> is split where it may give up the CPU: in \<^verbatim>\<open>yield\<close> and in
  \<^verbatim>\<open>is_higher_waiting\<close>; what follows is a definition of its own. \<open>dev\<close> is what the interrupting device
  delivers (scan codes with the keyboard state, or characters), \<open>cr2\<close> the faulting address. The
  acknowledgement of the interrupt controller and the disk interrupt of \<^verbatim>\<open>src/memide.c\<close> do nothing here.
\<close>

definition T_SYSCALL :: u32 where "T_SYSCALL = 64"
definition T_IRQ0 :: u32 where "T_IRQ0 = 32"
definition IRQ_TIMER :: u32 where "IRQ_TIMER = 0"
definition IRQ_KBD :: u32 where "IRQ_KBD = 1"
definition IRQ_COM1 :: u32 where "IRQ_COM1 = 4"
definition IRQ_IDE :: u32 where "IRQ_IDE = 14"
definition IRQ_SPURIOUS :: u32 where "IRQ_SPURIOUS = 31"
definition Time_Quantum :: int where "Time_Quantum = 30"
definition Unit_Quantum_length_ms :: int where "Unit_Quantum_length_ms = 10"

section \<open>Vectors\<close>

definition STS_IG32 :: u32 where "STS_IG32 = 0xE"
definition STS_TG32 :: u32 where "STS_TG32 = 0xF"
definition SEG_KCODE :: u32 where "SEG_KCODE = 1"

record gatedesc =
  g_off :: u32
  g_cs :: u32
  g_type :: u32
  g_dpl :: u32
  g_p :: bool

definition SETGATE :: "bool \<Rightarrow> u32 \<Rightarrow> u32 \<Rightarrow> u32 \<Rightarrow> gatedesc" where
  "SETGATE istrap sel offs d =
     \<lparr>g_off = offs, g_cs = sel, g_type = (if istrap then STS_TG32 else STS_IG32), g_dpl = d, g_p = True\<rparr>"

text \<open>\<^verbatim>\<open>vectors\<close> is the table of entry points in the generated file \<^verbatim>\<open>vectors.S\<close>.\<close>

definition tvinit :: "(nat \<Rightarrow> u32) \<Rightarrow> 'e kst_scheme \<Rightarrow> gatedesc list \<times> 'e kst_scheme" where
  "tvinit vectors s =
     (let idt = map (\<lambda>i. SETGATE False (push_bit 3 SEG_KCODE) (vectors i) 0) [0..<256];
          idt = idt[unat T_SYSCALL := SETGATE True (push_bit 3 SEG_KCODE) (vectors (unat T_SYSCALL)) DPL_USER]
      in (idt, s\<lparr>mach := initlock TicksLock ''time'' (mach s)\<rparr>))"

section \<open>Interrupts\<close>

definition trap_timer :: "nat \<Rightarrow> 'e pkst_scheme \<Rightarrow> (unit, 'e pkst_scheme) res" where
  "trap_timer a s =
     bnd (onM (mycpu a) s) (\<lambda>c s.
     if c = 0 then
       bnd (acquire a TicksLock s) (\<lambda>_ s.
       let s = s\<lparr>ticks := ticks s + 1\<rparr>; osTicks = sint (ticks s) in
       bnd (wakeup a ChTicks s) (\<lambda>_ s.
       bnd (release a TicksLock s) (\<lambda>_ s.
       bnd (update_wait_time a osTicks s) (\<lambda>_ s. Ok () s))))
     else Ok () s)"

definition user_mode :: "trapframe \<Rightarrow> bool" where
  "user_mode t \<longleftrightarrow> tf_cs t AND 3 = DPL_USER"

definition spurious_fmt :: string where
  "spurious_fmt = ''cpu%d: spurious interrupt at %x:%x'' @ newline"

definition kernel_trap_fmt :: string where
  "kernel_trap_fmt = ''unexpected trap %d from cpu %d eip %x (cr2=0x%x)'' @ newline"

definition user_trap_fmt :: string where
  "user_trap_fmt = ''pid %d %s: trap %d err %d on cpu %d eip 0x%x addr 0x%x--kill proc'' @ newline"

definition trap_spurious :: "nat \<Rightarrow> trapframe \<Rightarrow> 'e ckst_scheme \<Rightarrow> (unit, 'e ckst_scheme) res" where
  "trap_spurious a t s =
     bnd (onM (mycpu a) s) (\<lambda>c s.
     cprintf a spurious_fmt [PInt (word_of_nat c), PInt (tf_cs t), PInt (tf_eip t)] s)"

definition trap_fault :: "nat \<Rightarrow> u32 \<Rightarrow> trapframe \<Rightarrow> 'e pkst_scheme \<Rightarrow> (unit, 'e pkst_scheme) res" where
  "trap_fault a cr2 t s =
     bnd (myproc a s) (\<lambda>p s.
     bnd (onM (mycpu a) s) (\<lambda>c s.
     case (if tf_cs t AND 3 = 0 then None else p) of
       None \<Rightarrow>
         bnd (cprintf a kernel_trap_fmt [PInt (tf_trapno t), PInt (word_of_nat c), PInt (tf_eip t), PInt cr2] s)
           (\<lambda>_ s. Panic ''trap'')
     | Some i \<Rightarrow>
         bnd (cprintf a user_trap_fmt [pint (pid (prc i s)), PStr (Some (pname (prc i s))), PInt (tf_trapno t),
               PInt (tf_err t), PInt (word_of_nat c), PInt (tf_eip t), PInt cr2] s)
           (\<lambda>_ s. Ok () (upd_proc i (\<lambda>p. p\<lparr>killed := True\<rparr>) s))))"

definition trap_cause :: "nat \<Rightarrow> (nat \<Rightarrow> u32 list) \<Rightarrow> int list \<Rightarrow> u32 \<Rightarrow> trapframe \<Rightarrow> 'e ikst_scheme
    \<Rightarrow> (unit, 'e ikst_scheme) res" where
  "trap_cause a pcs dev cr2 t s =
     (let n = tf_trapno t in
      if n = T_IRQ0 + IRQ_TIMER then trap_timer a s
      else if n = T_IRQ0 + IRQ_IDE then Ok () s
      else if n = T_IRQ0 + IRQ_IDE + 1 then Ok () s
      else if n = T_IRQ0 + IRQ_KBD then consoleintr a pcs dev s
      else if n = T_IRQ0 + IRQ_COM1 then consoleintr a pcs dev s
      else if n = T_IRQ0 + 7 \<or> n = T_IRQ0 + IRQ_SPURIOUS then trap_spurious a t s
      else trap_fault a cr2 t s)"

section \<open>The trap handler\<close>

text \<open>\<^verbatim>\<open>if (myproc() && myproc()->killed && (tf->cs & 3) == DPL_USER) exit();\<close>\<close>

definition exit_if_killed :: "nat \<Rightarrow> trapframe \<Rightarrow> 'e okst_scheme \<Rightarrow> (unit, 'e okst_scheme) res" where
  "exit_if_killed a t s =
     bnd (myproc a s) (\<lambda>p s.
     case p of
       None \<Rightarrow> Ok () s
     | Some i \<Rightarrow> if killed (prc i s) \<and> user_mode t then exit a s else Ok () s)"

definition tick_fields :: "proc \<Rightarrow> proc" where
  "tick_fields p =
     (let p = p\<lparr>consecutive_run := consecutive_run p + 1, runnig_time := runnig_time p + 1\<rparr>
      in if consecutive_run p > max_consecutive_run p
         then p\<lparr>max_consecutive_run := consecutive_run p\<rparr> else p)"

definition rr_yield_fmt :: string where
  "rr_yield_fmt = ''RR proc %d  yielded, RR ticks: %d '' @ newline"

definition charge_tick :: "nat \<Rightarrow> nat \<Rightarrow> 'e pkst_scheme \<Rightarrow> (unit, 'e pkst_scheme) res" where
  "charge_tick a i s =
     (let s = upd_proc i tick_fields s in
      if sched_class (prc i s) = 2 \<and> sched_level (prc i s) = 1 then
        let s = upd_proc i (\<lambda>p. p\<lparr>rr_ticks := rr_ticks p + 1\<rparr>) s in
        if rr_ticks (prc i s) \<ge> Time_Quantum div Unit_Quantum_length_ms then
          bnd (cprintf a rr_yield_fmt [pint (pid (prc i s)), pint (rr_ticks (prc i s))] s) (\<lambda>_ s.
          yield a FromTrap s)
        else Ok () s
      else if sched_class (prc i s) = 2 \<and> sched_level (prc i s) = 2 then
        bnd (is_higher_waiting a s) (\<lambda>r s. if r \<noteq> 0 then yield a FromTrap s else Ok () s)
      else Ok () s)"

definition trap_tick :: "nat \<Rightarrow> trapframe \<Rightarrow> 'e pkst_scheme \<Rightarrow> (unit, 'e pkst_scheme) res" where
  "trap_tick a t s =
     bnd (myproc a s) (\<lambda>p s.
     case p of
       None \<Rightarrow> Ok () s
     | Some i \<Rightarrow>
         if state (prc i s) = RUNNING \<and> tf_trapno t = T_IRQ0 + IRQ_TIMER then charge_tick a i s
         else Ok () s)"

definition trap_syscall :: "nat \<Rightarrow> trapframe \<Rightarrow> 'e ikst_scheme \<Rightarrow> (unit, 'e ikst_scheme) res" where
  "trap_syscall a t s =
     with_myproc a (\<lambda>i s.
       if killed (prc i s) then exit a s
       else
         bnd (syscall a (upd_proc i (\<lambda>p. p\<lparr>tf := t\<rparr>) s)) (\<lambda>_ s.
         with_myproc a (\<lambda>i s. if killed (prc i s) then exit a s else Ok () s) s)) s"

definition trap :: "nat \<Rightarrow> (nat \<Rightarrow> u32 list) \<Rightarrow> int list \<Rightarrow> u32 \<Rightarrow> trapframe \<Rightarrow> 'e ikst_scheme
    \<Rightarrow> (unit, 'e ikst_scheme) res" where
  "trap a pcs dev cr2 t s =
     (if tf_trapno t = T_SYSCALL then trap_syscall a t s
      else
        bnd (trap_cause a pcs dev cr2 t s) (\<lambda>_ s.
        bnd (exit_if_killed a t s) (\<lambda>_ s.
        bnd (trap_tick a t s) (\<lambda>_ s. exit_if_killed a t s))))"

definition trap_after_yield :: "nat \<Rightarrow> trapframe \<Rightarrow> bool \<Rightarrow> 'e okst_scheme \<Rightarrow> (unit, 'e okst_scheme) res" where
  "trap_after_yield a t intena s = bnd (yield_resume a intena s) (\<lambda>_ s. exit_if_killed a t s)"

definition trap_after_higher :: "nat \<Rightarrow> trapframe \<Rightarrow> bool \<Rightarrow> 'e okst_scheme \<Rightarrow> (unit, 'e okst_scheme) res" where
  "trap_after_higher a t intena s =
     bnd (is_higher_waiting_resume a intena s) (\<lambda>r s.
     if r \<noteq> 0 then yield a FromTrap s else exit_if_killed a t s)"

end
