(* ===== verification/Proc_Ops.thy ===== *)
theory Proc_Ops
  imports Proc_Switch
begin

text \<open>
  The effects of allocation, of the scheduling class interface and of aging, and that they keep
  the invariant of the process table. \<^verbatim>\<open>change_sched_level\<close> keeps it only for processes of class 2,
  and returns with the lock held when the process already has the level asked for.
\<close>

section \<open>Allocation\<close>

lemma find_unused: "find_proc (\<lambda>p. state p = UNUSED) ps 0 = Some i \<Longrightarrow> i < length ps \<and> state (ps ! i) = UNUSED"
  using find_proc_0 by blast

definition embryo :: "nat \<Rightarrow> 'e pkst_scheme \<Rightarrow> 'e pkst_scheme" where
  "embryo i s = (upd_proc i (alloc_fields (nextpid s)) s)\<lparr>nextpid := nextpid s + 1\<rparr>"

lemma embryo_fields [simp]:
  "mach (embryo i s) = mach s" "nextpid (embryo i s) = nextpid s + 1"
  "ptab (embryo i s) = (ptab s)[i := alloc_fields (nextpid s) (prc i s)]"
  "count_edf (embryo i s) = count_edf s" "count_rr (embryo i s) = count_rr s"
  "count_fcfs (embryo i s) = count_fcfs s" "ticks (embryo i s) = ticks s"
  "kmem_use_lock (embryo i s) = kmem_use_lock s" "freelist (embryo i s) = freelist s"
  "pmem (embryo i s) = pmem s" "cons_locking (embryo i s) = cons_locking s"
  "(embryo i s)\<lparr>mach := m\<rparr> = embryo i (s\<lparr>mach := m\<rparr>)" "locks_free (embryo i s) x = locks_free s x"
  by (simp_all add: embryo_def proc_simps locks_free_def upd_proc_def)

lemma crit_embryo [simp]: "crit a m (embryo i s) = crit a m s"
  by (simp add: crit_def)

lemma sched_inv_embryo:
  assumes inv: "sched_inv s" and i: "i < NPROC" and u: "state (prc i s) = UNUSED"
  shows "sched_inv (embryo i s)"
proof -
  have len: "length (ptab s) = NPROC" using inv by (rule sched_inv_length)
  let ?p = "alloc_fields (nextpid s) (prc i s)"
  have nr: "\<not> edf_ready ?p \<and> \<not> rr_ready ?p \<and> \<not> fcfs_ready ?p"
    by (rule tally_not_runnable) (simp add: alloc_fields_def)
  have or: "\<not> edf_ready (prc i s) \<and> \<not> rr_ready (prc i s) \<and> \<not> fcfs_ready (prc i s)"
    by (rule tally_not_runnable) (simp add: u)
  have counts: "counts_ok (embryo i s)"
    using inv nr or i len by (simp add: sched_inv_def counts_ok_def cnt_update)
  have pids: "pids_ok (embryo i s)"
    unfolding pids_ok_def
  proof (intro conjI allI impI)
    show "0 < nextpid (embryo i s)" using inv by (simp add: sched_inv_def pids_ok_def)
  next
    fix j assume "j < length (ptab (embryo i s))"
    then show "0 \<le> pid (prc j (embryo i s))" "pid (prc j (embryo i s)) < nextpid (embryo i s)"
      "state (prc j (embryo i s)) \<noteq> UNUSED \<Longrightarrow> 0 < pid (prc j (embryo i s))"
      using inv by (auto simp: sched_inv_def pids_ok_def nth_upd alloc_fields_def)
  next
    fix j k assume jk: "j < length (ptab (embryo i s))" "k < length (ptab (embryo i s))"
      "j \<noteq> k \<and> 0 < pid (prc j (embryo i s))"
    have old: "\<And>x. x < NPROC \<Longrightarrow> pid (prc x s) < nextpid s"
      "j \<noteq> k \<Longrightarrow> 0 < pid (prc j s) \<Longrightarrow> pid (prc j s) \<noteq> pid (prc k s)"
      using inv jk by (simp_all add: sched_inv_def pids_ok_def)
    show "pid (prc j (embryo i s)) \<noteq> pid (prc k (embryo i s))"
      using jk old(1) [of j] old(1) [of k] old(2) len
      by (cases "j = i"; cases "k = i") (simp_all add: nth_upd alloc_fields_def)
  qed
  have "class_ok ?p" by (simp add: alloc_fields_def class_ok_def)
  then show ?thesis
    using inv counts pids by (auto simp: sched_inv_def nth_upd)
qed

text \<open>The last step of \<^verbatim>\<open>allocproc\<close>: with a stack, or without.\<close>

definition with_stack :: "nat \<Rightarrow> u32 \<Rightarrow> 'e pkst_scheme \<Rightarrow> 'e pkst_scheme" where
  "with_stack i v s =
     (if v = 0 then upd_proc i (\<lambda>p. p\<lparr>kstack := 0, state := UNUSED\<rparr>) s
      else upd_proc i (\<lambda>p. p\<lparr>kstack := v, kctxt := AtForkret\<rparr>) s)"

lemma allocproc_ok:
  assumes q: "quiet a s"
  shows "allocproc a s =
    (case find_proc (\<lambda>p. state p = UNUSED) (ptab s) 0 of
       None \<Rightarrow> Ok None (settled a s)
     | Some i \<Rightarrow> Ok (if freelist s = 0 then None else Some i)
         (with_stack i (freelist s) (ksettle a (kalloced (embryo i (settled a s))))))"
proof (cases "find_proc (\<lambda>p. state p = UNUSED) (ptab s) 0")
  case None
  then show ?thesis
    using q crit_release [OF crit_acquired [OF q]] by (simp add: allocproc_def quiet_acquire settled_def)
next
  case (Some i)
  let ?s = "s\<lparr>mach := acq a PtableLock (mach s)\<rparr>"
  have c: "crit a (mach s) (embryo i ?s)" using crit_acquired [OF q] by simp
  have e: "(upd_proc i (alloc_fields (nextpid s)) ?s)\<lparr>nextpid := nextpid s + 1\<rparr> = embryo i ?s"
    by (simp add: embryo_def)
  have rel: "release a PtableLock (embryo i ?s) = Ok () (embryo i (settled a s))"
    using crit_release [OF c] by (simp add: settled_def)
  have "can_kmem a (embryo i (settled a s))"
    using q by (simp add: can_kmem_def settled_def quiet_def locks_free_def)
  then have "kalloc a (embryo i (settled a s)) = Ok (freelist s) (ksettle a (kalloced (embryo i (settled a s))))"
    by (simp add: kalloc_ok) (simp add: settled_def)
  moreover have "(\<lambda>p :: proc. p\<lparr>state := UNUSED\<rparr>) \<circ> (\<lambda>p. p\<lparr>kstack := 0\<rparr>) = (\<lambda>p. p\<lparr>kstack := 0, state := UNUSED\<rparr>)"
    "(\<lambda>p :: proc. p\<lparr>kctxt := AtForkret\<rparr>) \<circ> (\<lambda>p. p\<lparr>kstack := v\<rparr>) = (\<lambda>p. p\<lparr>kstack := v, kctxt := AtForkret\<rparr>)" for v
    by auto
  ultimately show ?thesis
    using Some q rel e by (simp add: allocproc_def quiet_acquire Let_def with_stack_def proc_simps)
qed

lemma sched_inv_kalloc [simp]: "sched_inv (ksettle a (kalloced s)) = sched_inv s"
  by (simp add: sched_inv_def counts_ok_def pids_ok_def ksettle_def kalloced_def)

lemma sched_inv_settled [simp]: "sched_inv (settled a s) = sched_inv s"
  by (simp add: settled_def)

lemma prc_kalloc [simp]: "ptab (ksettle a (kalloced s)) = ptab s" "ptab (settled a s) = ptab s"
  by (simp_all add: ksettle_def kalloced_def settled_def)

lemma sched_inv_with_stack:
  assumes "sched_inv s" "i < NPROC" "state (prc i s) = EMBRYO"
  shows "sched_inv (with_stack i v s)"
proof -
  have "class_ok (prc i s)" using assms by (simp add: sched_inv_def)
  then show ?thesis
    using assms unfolding with_stack_def
    by (auto intro!: sched_inv_same same_tallyI simp: class_ok_def)
qed

lemma sched_inv_allocproc:
  assumes "sched_inv s" "find_proc (\<lambda>p. state p = UNUSED) (ptab s) 0 = Some i"
  shows "sched_inv (with_stack i v (ksettle a (kalloced (embryo i (settled a s)))))"
proof -
  have i: "i < NPROC" "state (prc i s) = UNUSED"
    using find_unused [OF assms(2)] sched_inv_length [OF assms(1)] by simp_all
  then have "sched_inv (embryo i (settled a s))"
    using assms(1) by (intro sched_inv_embryo) simp_all
  then show ?thesis
    using i sched_inv_length [OF assms(1)]
    by (intro sched_inv_with_stack) (simp_all add: alloc_fields_def)
qed

section \<open>The scheduling class interface\<close>

definition to_edf :: "nat \<Rightarrow> int \<Rightarrow> 'e pkst_scheme \<Rightarrow> 'e pkst_scheme" where
  "to_edf i dl s =
     upd_proc i (\<lambda>p. p\<lparr>sched_level := 0, sched_class := 1, deadline := dl\<rparr>)
       (if state (prc i s) = RUNNABLE then
          (if sched_level (prc i s) = 1 then s\<lparr>count_rr := count_rr s - 1, count_edf := count_edf s + 1\<rparr>
           else if sched_level (prc i s) = 2 then s\<lparr>count_fcfs := count_fcfs s - 1, count_edf := count_edf s + 1\<rparr>
           else s)
        else s)"

definition to_level :: "nat \<Rightarrow> int \<Rightarrow> 'e pkst_scheme \<Rightarrow> 'e pkst_scheme" where
  "to_level i target s =
     upd_proc i (\<lambda>p. p\<lparr>sched_level := (if target = 2 then 2 else 1)\<rparr>)
       (if state (prc i s) = RUNNABLE then
          (if sched_level (prc i s) = 1 then s\<lparr>count_rr := count_rr s - 1, count_fcfs := count_fcfs s + 1\<rparr>
           else s\<lparr>count_fcfs := count_fcfs s - 1, count_rr := count_rr s + 1\<rparr>)
        else s)"

definition deadline_msg :: "int \<Rightarrow> int \<Rightarrow> string" where
  "deadline_msg n dl = formatted deadline_fmt [pint n, pint dl]"

definition level_msg :: "int \<Rightarrow> int \<Rightarrow> int \<Rightarrow> string" where
  "level_msg n from target = formatted level_fmt [pint n, pint from, pint target]"

definition same_level_msg :: string where
  "same_level_msg = formatted ''Process is already in target level!'' []"

lemma class_upd_fields [simp]:
  "mach (to_edf i dl s) = mach s" "mach (to_level i t s) = mach s"
  "ticks (to_edf i dl s) = ticks s" "ticks (to_level i t s) = ticks s"
  "ptab (to_edf i dl s) = (ptab s)[i := (prc i s)\<lparr>sched_level := 0, sched_class := 1, deadline := dl\<rparr>]"
  "ptab (to_level i t s) = (ptab s)[i := (prc i s)\<lparr>sched_level := (if t = 2 then 2 else 1)\<rparr>]"
  "(to_edf i dl s)\<lparr>mach := m\<rparr> = to_edf i dl (s\<lparr>mach := m\<rparr>)"
  "(to_level i t s)\<lparr>mach := m\<rparr> = to_level i t (s\<lparr>mach := m\<rparr>)"
  "crit a x (to_edf i dl s) = crit a x s" "crit a x (to_level i t s) = crit a x s"
  by (simp_all add: to_edf_def to_level_def proc_simps crit_def locks_free_def upd_proc_def)

lemma consputs_proc_fields [simp]:
  "ptab (consputs t s) = ptab s" "ticks (consputs t s) = ticks s" "nextpid (consputs t s) = nextpid s"
  "count_edf (consputs t s) = count_edf s" "count_rr (consputs t s) = count_rr s"
  "count_fcfs (consputs t s) = count_fcfs s"
  by (simp_all add: consputs_def)

lemma set_deadline_ok:
  assumes q: "quiet a s" and dl: "0 \<le> dl"
  shows "set_deadline_for_process a n dl s =
    (case find_proc (\<lambda>p. pid p = n) (ptab s) 0 of
       None \<Rightarrow> Ok (- 1) (settled a s)
     | Some i \<Rightarrow> Ok 0 (consputs (deadline_msg n dl) (to_edf i dl (settled a s))))"
proof (cases "find_proc (\<lambda>p. pid p = n) (ptab s) 0")
  case None
  then show ?thesis
    using q dl crit_release [OF crit_acquired [OF q]]
    by (simp add: set_deadline_for_process_def quiet_acquire settled_def)
next
  case (Some i)
  let ?s = "s\<lparr>mach := acq a PtableLock (mach s)\<rparr>"
  have c: "crit a (mach s) (to_edf i dl ?s)" using crit_acquired [OF q] by simp
  then have c2: "crit a (mach s) (consputs (deadline_msg n dl) (to_edf i dl ?s))" by simp
  have i: "i < length (ptab s)" using find_proc_0 [OF Some] by simp
  have "deadline (prc i (to_edf i dl ?s)) = dl" using i by simp
  then have "set_deadline_for_process a n dl s =
      bnd (cprintf a deadline_fmt [pint n, pint dl] (to_edf i dl ?s)) (\<lambda>_ s.
      bnd (release a PtableLock s) (\<lambda>_ s. Ok 0 s))"
    using Some q dl by (simp add: set_deadline_for_process_def quiet_acquire Let_def to_edf_def)
  also have "\<dots> = Ok 0 ((consputs (deadline_msg n dl) (to_edf i dl ?s))\<lparr>mach := settle a (mach s)\<rparr>)"
    using crit_release [OF c2] by (simp add: crit_cprintf [OF c] deadline_msg_def [symmetric])
  finally show ?thesis using Some by (simp add: settled_def consputs_mach)
qed

lemma change_level_ok:
  assumes q: "quiet a s" and tt: "target = 1 \<or> target = 2"
  shows "change_sched_level a n target s =
    (case find_proc (\<lambda>p. pid p = n) (ptab s) 0 of
       None \<Rightarrow> Ok (- 1) (settled a s)
     | Some i \<Rightarrow>
         if sched_level (prc i s) = target
         then Ok (- 1) (consputs same_level_msg (s\<lparr>mach := acq a PtableLock (mach s)\<rparr>))
         else Ok 0 (consputs (level_msg n (sched_level (prc i s)) target) (to_level i target (settled a s))))"
proof (cases "find_proc (\<lambda>p. pid p = n) (ptab s) 0")
  case None
  then show ?thesis
    using q tt crit_release [OF crit_acquired [OF q]]
    by (auto simp: change_sched_level_def quiet_acquire settled_def)
next
  case (Some i)
  let ?s = "s\<lparr>mach := acq a PtableLock (mach s)\<rparr>"
  have c0: "crit a (mach s) ?s" by (rule crit_acquired [OF q])
  show ?thesis
  proof (cases "sched_level (prc i s) = target")
    case True
    then show ?thesis
      using Some q tt by (auto simp: change_sched_level_def quiet_acquire crit_cprintf [OF c0] same_level_msg_def)
  next
    case False
    let ?msg = "level_msg n (sched_level (prc i s)) target"
    let ?t = "if state (prc i s) = RUNNABLE then
        (if sched_level (prc i s) = 1 then ?s\<lparr>count_rr := count_rr s - 1, count_fcfs := count_fcfs s + 1\<rparr>
         else ?s\<lparr>count_fcfs := count_fcfs s - 1, count_rr := count_rr s + 1\<rparr>) else ?s"
    let ?u = "upd_proc i (\<lambda>p. p\<lparr>sched_level := (if target = 2 then 2 else 1)\<rparr>) (consputs ?msg ?t)"
    have c: "crit a (mach s) ?t" using c0 by (simp add: crit_def locks_free_def)
    have c2: "crit a (mach s) ?u" using c by simp
    have "?u = consputs ?msg (to_level i target ?s)"
      by (simp add: to_level_def upd_proc_def consputs_def)
    moreover have "change_sched_level a n target s = bnd (release a PtableLock ?u) (\<lambda>_ s. Ok 0 s)"
      using Some q tt False crit_cprintf [OF c, folded level_msg_def]
      by (auto simp: change_sched_level_def quiet_acquire Let_def level_msg_def)
    ultimately show ?thesis
      using Some False crit_release [OF c2] by (simp add: settled_def consputs_mach)
  qed
qed

lemma sched_inv_to_edf:
  assumes inv: "sched_inv s" and i: "i < NPROC"
  shows "sched_inv (to_edf i dl s)"
proof -
  have len: "length (ptab s) = NPROC" using inv by (rule sched_inv_length)
  let ?q = "(prc i s)\<lparr>sched_level := 0, sched_class := 1, deadline := dl\<rparr>"
  have q: "edf_ready ?q = (state (prc i s) = RUNNABLE)" "\<not> rr_ready ?q" "\<not> fcfs_ready ?q" "class_ok ?q"
    by (simp_all add: edf_ready_def rr_ready_def fcfs_ready_def class_ok_def)
  have "state (prc i s) \<noteq> UNUSED \<Longrightarrow> class_ok (prc i s)" using inv i by (simp add: sched_inv_def)
  then have "counts_ok (to_edf i dl s)"
    using inv i len q
    by (auto simp: sched_inv_def counts_ok_def to_edf_def proc_simps cnt_update edf_ready_def rr_ready_def
        fcfs_ready_def class_ok_def)
  moreover have "pids_ok (to_edf i dl s)"
    using inv by (auto simp: sched_inv_def pids_ok_def to_edf_def proc_simps nth_upd)
  ultimately show ?thesis
    using inv q by (auto simp: sched_inv_def nth_upd)
qed

lemma sched_inv_to_level:
  assumes inv: "sched_inv s" and i: "i < NPROC" and t: "target = 1 \<or> target = 2"
    and cl: "sched_class (prc i s) = 2" and ne: "sched_level (prc i s) \<noteq> target"
    and st: "state (prc i s) \<noteq> UNUSED"
  shows "sched_inv (to_level i target s)"
proof -
  have len: "length (ptab s) = NPROC" using inv by (rule sched_inv_length)
  have ok: "class_ok (prc i s)" using inv i st by (simp add: sched_inv_def)
  have "counts_ok (to_level i target s)"
    using inv i len ok cl ne t
    by (auto simp: sched_inv_def counts_ok_def to_level_def proc_simps cnt_update edf_ready_def rr_ready_def
        fcfs_ready_def class_ok_def)
  moreover have "pids_ok (to_level i target s)"
    using inv by (auto simp: sched_inv_def pids_ok_def to_level_def proc_simps nth_upd)
  moreover have "class_ok ((prc i s)\<lparr>sched_level := (if target = 2 then 2 else 1)\<rparr>)"
    using cl by (simp add: class_ok_def)
  ultimately show ?thesis
    using inv by (auto simp: sched_inv_def nth_upd)
qed

section \<open>Aging\<close>

lemma find_pid:
  assumes "pids_ok s" "i < length (ptab s)" "0 < pid (prc i s)"
  shows "find_proc (\<lambda>p. pid p = pid (prc i s)) (ptab s) 0 = Some i"
proof (cases "find_proc (\<lambda>p. pid p = pid (prc i s)) (ptab s) 0")
  case None
  then show ?thesis using assms(2) by (auto simp: find_proc_None)
next
  case (Some j)
  then have "j < length (ptab s)" "pid (prc j s) = pid (prc i s)" using find_proc_0 by blast+
  then have "j = i" using assms unfolding pids_ok_def by metis
  then show ?thesis using Some by simp
qed

lemma acq_settle [simp]: "acq a l (settle a m) = acq a l m"
proof (cases "cpu_ix a m")
  case (Some k)
  then show ?thesis
    using cpu_ix_SomeD [OF Some] by (intro mach_eqI) (auto simp: acq_def push_def settle_def)
qed (simp add: acq_def push_def settle_def)

text \<open>What \<^verbatim>\<open>update_wait_time\<close> does to one slot.\<close>

definition too_old :: "int \<Rightarrow> proc \<Rightarrow> bool" where
  "too_old osTicks p \<longleftrightarrow> fcfs_ready p \<and> osTicks - arrival_time p \<ge> AGING_THRESHOLD"

definition aged :: "int \<Rightarrow> nat \<Rightarrow> 'e pkst_scheme \<Rightarrow> 'e pkst_scheme" where
  "aged osTicks i s =
     (if state (prc i s) = RUNNABLE then
        let s' = upd_proc i (\<lambda>p. p\<lparr>waited_ticks := osTicks - arrival_time p\<rparr>) s in
        if too_old osTicks (prc i s)
        then upd_proc i (\<lambda>p. p\<lparr>arrival_time := osTicks\<rparr>)
               (consputs (level_msg (pid (prc i s)) 2 1) (to_level i 1 s'))
        else s'
      else s)"

lemma age_proc_ok:
  assumes c: "crit a m s" and inv: "sched_inv s" and i: "i < NPROC"
  shows "age_proc a osTicks i s = Ok () (aged osTicks i s)"
proof (cases "state (prc i s) = RUNNABLE \<and> too_old osTicks (prc i s)")
  case True
  let ?s = "upd_proc i (\<lambda>p. p\<lparr>waited_ticks := osTicks - arrival_time p\<rparr>) s"
  have len: "length (ptab s) = NPROC" using inv by (rule sched_inv_length)
  have inv': "sched_inv ?s" by (rule sched_inv_quiet_upd [OF inv]) (simp_all add: same_ids_def)
  have c': "crit a m ?s" using c by simp
  note rel = crit_release [OF c'] and q = quiet_settle [OF c']
  let ?t = "?s\<lparr>mach := settle a m\<rparr>"
  have p: "prc i ?t = (prc i s)\<lparr>waited_ticks := osTicks - arrival_time (prc i s)\<rparr>"
    using i len by (simp add: proc_simps)
  have "0 < pid (prc i s)" using inv i True len by (simp add: sched_inv_def pids_ok_def)
  moreover have "pids_ok ?t" using inv' by (simp add: sched_inv_def pids_ok_def)
  ultimately have "find_proc (\<lambda>p. pid p = pid (prc i s)) (ptab ?t) 0 = Some i"
    using find_pid [of ?t i] i len p by (simp add: proc_simps(10))
  then have ch: "change_sched_level a (pid (prc i s)) 1 ?t =
      Ok 0 (consputs (level_msg (pid (prc i s)) 2 1) (to_level i 1 ?t))"
    using change_level_ok [OF q, of 1 "pid (prc i s)"] True p
    by (simp add: too_old_def fcfs_ready_def) (simp add: crit_def c [unfolded crit_def] settled_def)
  have m: "mach s = acq a PtableLock m" "cpu_ready a m" using c by (simp_all add: crit_def)
  have ac: "acquire a PtableLock (consputs t (to_level i 1 ?t)) =
      Ok () ((consputs t (to_level i 1 ?t))\<lparr>mach := mach s\<rparr>)" for t
    using q m by (simp add: acquire_kst quiet_def locks_free_def)
  have same: "s\<lparr>mach := acq a PtableLock m\<rparr> = s" using m by simp
  show ?thesis
    using True rel ch ac p m
    by (simp add: age_proc_def aged_def Let_def too_old_def fcfs_ready_def proc_simps(1-17) consputs_mach)
       (simp add: proc_simps same)
next
  case False
  then show ?thesis
    using i sched_inv_length [OF inv]
    by (auto simp: age_proc_def aged_def Let_def too_old_def fcfs_ready_def proc_simps)
qed

lemma crit_aged [simp]: "crit a m (aged osTicks i s) = crit a m s"
  by (simp add: aged_def Let_def)

lemma sched_inv_aged:
  assumes inv: "sched_inv s" and i: "i < NPROC"
  shows "sched_inv (aged osTicks i s)"
proof -
  let ?s = "upd_proc i (\<lambda>p. p\<lparr>waited_ticks := osTicks - arrival_time p\<rparr>) s"
  have inv': "sched_inv ?s" by (rule sched_inv_quiet_upd [OF inv]) (simp_all add: same_ids_def)
  have p: "prc i ?s = (prc i s)\<lparr>waited_ticks := osTicks - arrival_time (prc i s)\<rparr>"
    using i sched_inv_length [OF inv] by (simp add: proc_simps)
  have "sched_inv (upd_proc i (\<lambda>p. p\<lparr>arrival_time := osTicks\<rparr>) (consputs t (to_level i 1 ?s)))"
    if "too_old osTicks (prc i s)" for t
  proof (rule sched_inv_quiet_upd)
    show "sched_inv (consputs t (to_level i 1 ?s))"
      unfolding sched_inv_consputs
      by (rule sched_inv_to_level [OF inv' i]) (use that p in \<open>auto simp: too_old_def fcfs_ready_def\<close>)
  qed (simp_all add: same_ids_def)
  then show ?thesis using inv inv' by (simp add: aged_def Let_def)
qed

definition all_aged :: "int \<Rightarrow> 'e pkst_scheme \<Rightarrow> 'e pkst_scheme" where
  "all_aged osTicks s = fold (aged osTicks) [0..<NPROC] s"

lemma aged_mach: "(aged osTicks i s)\<lparr>mach := m\<rparr> = aged osTicks i (s\<lparr>mach := m\<rparr>)"
  by (simp add: aged_def Let_def proc_simps consputs_mach)

lemma all_aged_mach: "(all_aged osTicks s)\<lparr>mach := m\<rparr> = all_aged osTicks (s\<lparr>mach := m\<rparr>)"
proof -
  have "(fold (aged osTicks) is s)\<lparr>mach := m\<rparr> = fold (aged osTicks) is (s\<lparr>mach := m\<rparr>)" for "is"
    by (induction "is" arbitrary: s) (simp_all add: aged_mach)
  then show ?thesis by (simp add: all_aged_def)
qed

lemma sched_inv_all_aged: "sched_inv s \<Longrightarrow> sched_inv (all_aged osTicks s)"
proof -
  have "sched_inv (fold (aged osTicks) is s)" if "sched_inv s" "set is \<subseteq> {0..<NPROC}" for "is" and s :: "'a pkst_scheme"
    using that by (induction "is" arbitrary: s) (auto simp: sched_inv_aged)
  then show "sched_inv s \<Longrightarrow> sched_inv (all_aged osTicks s)" by (simp add: all_aged_def)
qed

lemma update_wait_time_ok:
  assumes q: "quiet a s" and inv: "sched_inv s"
  shows "update_wait_time a osTicks s = Ok 0 (all_aged osTicks (settled a s))"
proof -
  let ?s = "s\<lparr>mach := acq a PtableLock (mach s)\<rparr>"
  have c: "crit a (mach s) ?s" by (rule crit_acquired [OF q])
  have "forR [0..<NPROC] (age_proc a osTicks) ?s = Ok () (all_aged osTicks ?s) \<and>
      (crit a (mach s) (all_aged osTicks ?s) \<and> sched_inv (all_aged osTicks ?s))"
    unfolding all_aged_def
    by (rule forR_fold [where P = "\<lambda>t. crit a (mach s) t \<and> sched_inv t"])
       (use c inv in \<open>auto simp: age_proc_ok sched_inv_aged\<close>)
  then show ?thesis
    using q crit_release [of a "mach s" "all_aged osTicks ?s"]
    by (simp add: update_wait_time_def quiet_acquire all_aged_mach settled_def)
qed

text \<open>The effect of a whole pass on one process.\<close>

definition age_fields :: "int \<Rightarrow> proc \<Rightarrow> proc" where
  "age_fields osTicks p =
     (if state p \<noteq> RUNNABLE then p
      else if too_old osTicks p
      then p\<lparr>waited_ticks := osTicks - arrival_time p, sched_level := 1, arrival_time := osTicks\<rparr>
      else p\<lparr>waited_ticks := osTicks - arrival_time p\<rparr>)"

lemma aged_ptab: "ptab (aged osTicks i s) = (ptab s)[i := age_fields osTicks (prc i s)]"
proof (cases "i < length (ptab s)")
  case True
  then show ?thesis
    by (auto simp: aged_def age_fields_def Let_def proc_simps too_old_def fcfs_ready_def)
qed (auto simp: aged_def Let_def proc_simps list_update_beyond)

lemma all_aged_ptab:
  assumes "length (ptab s) = NPROC"
  shows "ptab (all_aged osTicks s) = map (age_fields osTicks) (ptab s)"
proof -
  have "length (ptab (fold (aged osTicks) is s)) = length (ptab s) \<and> (\<forall>j < length (ptab s).
      prc j (fold (aged osTicks) is s) = (if j \<in> set is then age_fields osTicks (prc j s) else prc j s))"
    if "distinct is" for "is"
    using that by (induction "is" arbitrary: s) (auto simp: aged_ptab nth_upd)
  from this [of "[0..<NPROC]"] show ?thesis
    using assms by (intro nth_equalityI) (simp_all add: all_aged_def)
qed

end
