(* ===== verification/Kernel_Frame.thy ===== *)
theory Kernel_Frame
  imports Trap Proc_Ops
begin

text \<open>
  What the kernel code below the process table leaves alone. \<open>view\<close> is the part of the state that
  the scheduler's invariant is about, with the process that runs on the CPU. \<open>keeps\<close> says that an
  operation that returns leaves the view as it was and does not give up the CPU: it holds of the
  locks, the page allocator, the page tables, the console output and the reference counts.
\<close>

named_theorems view_simps \<open>updates that leave the view alone\<close>
named_theorems keep_ops \<open>operations that leave the view alone\<close>

type_synonym pview = "nat option \<times> proc list \<times> int \<times> int \<times> int \<times> int \<times> nat option"

definition view :: "nat \<Rightarrow> 'e pkst_scheme \<Rightarrow> pview" where
  "view a s = (cur a (mach s), ptab s, count_edf s, count_rr s, count_fcfs s, nextpid s, initproc s)"

definition keeps :: "nat \<Rightarrow> pview \<Rightarrow> ('a, 'e pkst_scheme) res \<Rightarrow> bool" where
  "keeps a v m \<longleftrightarrow> (case m of Ok r t \<Rightarrow> view a t = v | Panic msg \<Rightarrow> True | Spin l t \<Rightarrow> True | Off t \<Rightarrow> False)"

lemma keeps_outcome [simp]:
  "keeps a v (Ok r t) = (view a t = v)" "keeps a v (Panic msg)" "keeps a v (Spin l t)"
  by (simp_all add: keeps_def)

lemma keeps_bnd:
  "keeps a v m \<Longrightarrow> (\<And>r t. m = Ok r t \<Longrightarrow> view a t = v \<Longrightarrow> keeps a v (f r t)) \<Longrightarrow> keeps a v (bnd m f)"
  by (cases m) (auto simp: keeps_def)

lemma keeps_forR:
  "view a s = v \<Longrightarrow> (\<And>i t. view a t = v \<Longrightarrow> keeps a v (f i t)) \<Longrightarrow> keeps a v (forR is f s)"
  by (induction "is" arbitrary: s) (auto intro!: keeps_bnd)

lemma keeps_findR:
  "view a s = v \<Longrightarrow> (\<And>i t. view a t = v \<Longrightarrow> keeps a v (f i t)) \<Longrightarrow> keeps a v (findR is f s)"
  by (induction "is" arbitrary: s) (auto intro!: keeps_bnd split: option.split)

lemma keeps_if: "(b \<Longrightarrow> keeps a v x) \<Longrightarrow> (\<not> b \<Longrightarrow> keeps a v y) \<Longrightarrow> keeps a v (if b then x else y)"
  by simp

lemma keeps_option:
  "(\<And>x. k = Some x \<Longrightarrow> keeps a v (g x)) \<Longrightarrow> (k = None \<Longrightarrow> keeps a v n) \<Longrightarrow>
   keeps a v (case k of None \<Rightarrow> n | Some x \<Rightarrow> g x)"
  by (cases k) auto

lemma keeps_prod: "(\<And>x y. k = (x, y) \<Longrightarrow> keeps a v (g x y)) \<Longrightarrow> keeps a v (case k of (x, y) \<Rightarrow> g x y)"
  by (cases k) auto

lemma keeps_let: "keeps a v (f x) \<Longrightarrow> keeps a v (let y = x in f y)"
  by simp

lemmas keep_intros = keeps_bnd keeps_forR keeps_findR keeps_if keeps_option keeps_prod keeps_let

section \<open>The machine\<close>

definition procs_of :: "mach \<Rightarrow> (nat \<times> nat option) list" where
  "procs_of m = map (\<lambda>c. (cpu_apicid c, cpu_proc c)) (cpus m)"

lemma scan_procs:
  "map (\<lambda>c. (cpu_apicid c, cpu_proc c)) cs = map (\<lambda>c. (cpu_apicid c, cpu_proc c)) ds \<Longrightarrow>
   scan_apicid a cs k = scan_apicid a ds k"
proof (induction cs arbitrary: ds k)
  case (Cons c cs)
  then show ?case by (cases ds) auto
qed simp

lemma cur_procs:
  assumes "procs_of m = procs_of m'" shows "cur a m = cur a m'"
proof -
  have ix: "cpu_ix a m = cpu_ix a m'" by (rule scan_procs [OF assms [unfolded procs_of_def]])
  have len: "length (cpus m) = length (cpus m')"
    by (rule map_eq_imp_length_eq [OF assms [unfolded procs_of_def]])
  have "cpu_proc (cpus m ! i) = cpu_proc (cpus m' ! i)" if "i < length (cpus m)" for i
  proof -
    have "procs_of m ! i = procs_of m' ! i" using assms by simp
    then show ?thesis using that len by (simp add: procs_of_def)
  qed
  then show ?thesis using ix cpu_ix_SomeD [of a m] by (auto simp: cur_def split: option.split)
qed

lemma procs_upd [simp]:
  "procs_of (set_if a b m) = procs_of m" "procs_of (set_lock l b c m) = procs_of m"
  "procs_of (initlock l nm m) = procs_of m" "procs_of (m\<lparr>cr3 := x\<rparr>) = procs_of m"
  by (simp_all add: procs_of_def initlock_def)

lemma procs_upd_cpu:
  "cpu_apicid (f (cpus m ! i)) = cpu_apicid (cpus m ! i) \<Longrightarrow> cpu_proc (f (cpus m ! i)) = cpu_proc (cpus m ! i) \<Longrightarrow>
   procs_of (upd_cpu i f m) = procs_of m"
  by (cases "i < length (cpus m)")
     (simp_all add: procs_of_def upd_cpu_def map_update list_update_same_conv list_update_beyond)

lemma procs_pushcli: "pushcli a m = Ok r m' \<Longrightarrow> procs_of m' = procs_of m"
  by (auto simp: pushcli_def mycpu_def Let_def procs_upd_cpu bnd_eq_Ok split: if_splits option.splits)

lemma procs_popcli: "popcli a m = Ok r m' \<Longrightarrow> procs_of m' = procs_of m"
  by (auto simp: popcli_def mycpu_def Let_def procs_upd_cpu bnd_eq_Ok split: if_splits option.splits)

lemma procs_mycpu: "mycpu a m = Ok r m' \<Longrightarrow> m' = m"
  by (auto simp: mycpu_def split: if_splits option.splits)

lemma procs_holding: "holding a l m = Ok r m' \<Longrightarrow> procs_of m' = procs_of m"
  by (auto simp: holding_def bnd_eq_Ok split: if_splits
      dest!: procs_pushcli procs_popcli procs_mycpu)

lemma procs_acquire: "acquire_m a l m = Ok r m' \<Longrightarrow> procs_of m' = procs_of m"
  by (auto simp: acquire_m_def acquire_spin_def bnd_eq_Ok split: if_splits
      dest!: procs_pushcli procs_holding procs_mycpu)

lemma procs_release: "release_m a l m = Ok r m' \<Longrightarrow> procs_of m' = procs_of m"
  by (auto simp: release_m_def bnd_eq_Ok split: if_splits dest!: procs_popcli procs_holding)

lemma myproc_cur: "myproc_m a m = Ok p m' \<Longrightarrow> procs_of m' = procs_of m \<and> p = cur a m"
proof -
  assume "myproc_m a m = Ok p m'"
  then obtain m1 i where m1: "pushcli a m = Ok () m1" "mycpu a m1 = Ok i m1" "popcli a m1 = Ok () m'"
    "p = cpu_proc (cpus m1 ! i)"
    by (auto simp: myproc_m_def bnd_eq_Ok Let_def dest: procs_mycpu)
  then have "cpu_ix a m1 = Some i" by (auto simp: mycpu_def split: if_splits option.splits)
  then have "p = cur a m1" using m1 by (simp add: cur_def)
  then show ?thesis using procs_pushcli [OF m1(1)] procs_popcli [OF m1(3)] cur_procs by metis
qed

lemma machine_never_off:
  "pushcli a m \<noteq> Off x" "popcli a m \<noteq> Off x" "mycpu a m \<noteq> Off x" "holding a l m \<noteq> Off x"
  "acquire_m a l m \<noteq> Off x" "release_m a l m \<noteq> Off x" "myproc_m a m \<noteq> Off x"
proof -
  have my: "mycpu b k \<noteq> Off y" for b k y by (simp add: mycpu_def split: option.split)
  have bo: "bnd p f = Off y \<longleftrightarrow> p = Off y \<or> (\<exists>r t. p = Ok r t \<and> f r t = Off y)"
    for p :: "('b, mach) res" and f :: "'b \<Rightarrow> mach \<Rightarrow> ('c, mach) res" and y
    by (cases p) auto
  have pu: "pushcli b k \<noteq> Off y" for b k y by (simp add: pushcli_def Let_def bo my)
  have po: "popcli b k \<noteq> Off y" for b k y by (auto simp: popcli_def Let_def bo my split: if_splits)
  have ho: "holding b l k \<noteq> Off y" for b l k y
    by (auto simp: holding_def bo my pu po split: if_splits)
  have ac: "acquire_m b l k \<noteq> Off y" for b l k y
    by (auto simp: acquire_m_def acquire_spin_def bo my pu ho split: if_splits)
  have re: "release_m b l k \<noteq> Off y" for b l k y
    by (auto simp: release_m_def bo ho po split: if_splits)
  have mp: "myproc_m b k \<noteq> Off y" for b k y
    by (auto simp: myproc_m_def Let_def bo my pu po)
  show "pushcli a m \<noteq> Off x" "popcli a m \<noteq> Off x" "mycpu a m \<noteq> Off x" "holding a l m \<noteq> Off x"
    "acquire_m a l m \<noteq> Off x" "release_m a l m \<noteq> Off x" "myproc_m a m \<noteq> Off x"
    by (rule pu po my ho ac re mp)+
qed

lemma view_mach: "procs_of m = procs_of (mach s) \<Longrightarrow> view a (s\<lparr>mach := m\<rparr>) = view a s"
  using cur_procs [of m "mach s" a] by (simp add: view_def)

lemma keeps_onM:
  assumes "\<And>r m. g (mach s) = Ok r m \<Longrightarrow> procs_of m = procs_of (mach s)" "\<And>m. g (mach s) \<noteq> Off m"
  shows "keeps a (view a s) (onM g s)"
  using assms view_mach by (auto simp: onM_def keeps_def split: res.split)

lemma keeps_machine [keep_ops]:
  "view a s = v \<Longrightarrow> keeps a v (acquire b l s)" "view a s = v \<Longrightarrow> keeps a v (release b l s)"
  "view a s = v \<Longrightarrow> keeps a v (myproc b s)" "view a s = v \<Longrightarrow> keeps a v (onM (mycpu b) s)"
  "view a s = v \<Longrightarrow> keeps a v (onM (pushcli b) s)" "view a s = v \<Longrightarrow> keeps a v (onM (popcli b) s)"
  "view a s = v \<Longrightarrow> keeps a v (onM (holding b l) s)"
  unfolding acquire_def release_def myproc_def
  by (auto intro!: keeps_onM simp: machine_never_off
      dest: procs_acquire procs_release myproc_cur procs_mycpu procs_pushcli procs_popcli procs_holding)

lemma myproc_me: "myproc a s = Ok p t \<Longrightarrow> p = cur a (mach s)"
  by (auto simp: myproc_def onM_def split: res.splits dest!: myproc_cur)

section \<open>Fields outside the view\<close>

lemma view_fields [view_simps]:
  "view a (s\<lparr>pmem := x1\<rparr>) = view a s" "view a (s\<lparr>freelist := x2\<rparr>) = view a s"
  "view a (s\<lparr>cons_out := x3\<rparr>) = view a s" "view a (s\<lparr>kpgdir := x4\<rparr>) = view a s"
  "view a (s\<lparr>ticks := x5\<rparr>) = view a s" "view a (consputs t s) = view a s"
  "view a (wr32 p w s) = view a s" "view a (lcr3 b w s) = view a s"
  by (simp_all add: view_def consputs_def wr32_def lcr3_def cur_procs [OF procs_upd(4)])

lemma view_sleeplocks [view_simps]:
  fixes s :: "'e skst_scheme"
  shows "view a (s\<lparr>slocks := x\<rparr>) = view a s" "view a (set_slock l b n s) = view a s"
    "view a (initsleeplock l nm s) = view a s"
  by (simp_all add: view_def set_slock_def initsleeplock_def cur_procs [OF procs_upd(3)])

lemma view_buffers [view_simps]:
  fixes s :: "'e bkst_scheme"
  shows "view a (s\<lparr>lru := x1\<rparr>) = view a s" "view a (s\<lparr>disk := x2\<rparr>) = view a s"
    "view a (s\<lparr>wtrace := x3\<rparr>) = view a s" "view a (upd_buf i f s) = view a s" "view a (set_data i d s) = view a s"
  by (simp_all add: view_def upd_buf_def set_data_def)

lemma view_files [view_simps]:
  "view a (upd_log fl s1) = view a s1" "view a (upd_ino i fi s2) = view a s2" "view a (s2\<lparr>sb := x\<rparr>) = view a s2"
  "view a (upd_pipe p fp s3) = view a s3" "view a (upd_file k ff s4) = view a s4"
  "view a (add_nlink i d s2) = view a s2"
  by (simp_all add: view_def upd_log_def upd_ino_def upd_pipe_def upd_file_def add_nlink_def)

lemma view_initlock [view_simps]: "view a (s\<lparr>mach := initlock l nm (mach s)\<rparr>) = view a s"
  by (rule view_mach) simp

lemma view_console [view_simps]:
  fixes s :: "'e ikst_scheme"
  shows "view a (s\<lparr>inbuf := x1\<rparr>) = view a s" "view a (s\<lparr>in_r := x2\<rparr>) = view a s" "view a (s\<lparr>in_w := x3\<rparr>) = view a s"
    "view a (s\<lparr>in_e := x4\<rparr>) = view a s" "view a (s\<lparr>fork_first := x5\<rparr>) = view a s" "view a (consputc c s) = view a s"
  by (simp_all add: view_def consputc_def consputs_def)

section \<open>Memory, page tables and output\<close>

lemma keeps_kmem [keep_ops]:
  assumes "view a s = v"
  shows "keeps a v (kfree b p s)" "keeps a v (kalloc b s)"
  using assms unfolding kfree_def kalloc_def kmem_acquire_def kmem_release_def
  by (auto intro!: keep_intros keep_ops simp: view_simps)

lemma keeps_cprintf [keep_ops]: "view a s = v \<Longrightarrow> keeps a v (cprintf b fmt args s)"
  unfolding cprintf_def by (auto intro!: keep_intros keep_ops simp: view_simps)

lemma keeps_cprintspaces [keep_ops]: "view a s = v \<Longrightarrow> keeps a v (cprintspaces b n s)"
  unfolding cprintspaces_def by (auto intro!: keep_intros keep_ops simp: view_simps)

lemma keeps_walkpgdir [keep_ops]: "view a s = v \<Longrightarrow> keeps a v (walkpgdir b d va al s)"
  unfolding walkpgdir_def by (auto intro!: keep_intros keep_ops simp: view_simps)

lemma keeps_mappages_loop: "view a s = v \<Longrightarrow> keeps a v (mappages_loop n b d va l pa perm s)"
  by (induction n arbitrary: va pa s) (auto intro!: keep_intros keep_ops simp: view_simps)

lemma keeps_deallocuvm_loop: "view a s = v \<Longrightarrow> keeps a v (deallocuvm_loop n b d va z s)"
  by (induction n arbitrary: va s) (auto intro!: keep_intros keep_ops simp: view_simps)

lemma keeps_vm [keep_ops]:
  assumes "view a s = v"
  shows "keeps a v (mappages b d va z pa perm s)" "keeps a v (deallocuvm b d old new s)"
    "keeps a v (clearpteu b d va s)"
  using assms unfolding mappages_def deallocuvm_def clearpteu_def
  by (auto intro!: keep_intros keep_ops keeps_mappages_loop keeps_deallocuvm_loop simp: view_simps)

lemma keeps_freevm [keep_ops]: "view a s = v \<Longrightarrow> keeps a v (freevm b d s)"
  unfolding freevm_def by (auto intro!: keep_intros keep_ops simp: view_simps)

lemma keeps_setupkvm [keep_ops]: "view a s = v \<Longrightarrow> keeps a v (setupkvm b s)"
  unfolding setupkvm_def by (auto intro!: keep_intros keep_ops simp: view_simps)

lemma keeps_allocuvm_loop: "view a s = v \<Longrightarrow> keeps a v (allocuvm_loop n b d va old new s)"
  by (induction n arbitrary: va s) (auto intro!: keep_intros keep_ops simp: view_simps)

lemma keeps_copyuvm_loop: "view a s = v \<Longrightarrow> keeps a v (copyuvm_loop n b d e va z s)"
  by (induction n arbitrary: va s) (auto intro!: keep_intros keep_ops simp: view_simps)

lemma keeps_uvm [keep_ops]:
  assumes "view a s = v"
  shows "keeps a v (allocuvm b d old new s)" "keeps a v (copyuvm b d z s)" "keeps a v (inituvm b d p z s)"
    "keeps a v (uva2ka b d va s)"
  using assms unfolding allocuvm_def copyuvm_def inituvm_def uva2ka_def
  by (auto intro!: keep_intros keep_ops keeps_allocuvm_loop keeps_copyuvm_loop simp: view_simps)

lemma keeps_copyout [keep_ops]: "view a s = v \<Longrightarrow> keeps a v (copyout b d va src s)"
proof (induction "length src" arbitrary: va src s rule: less_induct)
  case less
  then show ?case
    by (subst copyout.simps) (auto intro!: keep_intros keep_ops simp: view_simps page_rest_pos)
qed

section \<open>User memory and arguments\<close>

lemma view_uput: "uput b va cs s = Some t \<Longrightarrow> view a t = view a s"
  by (induction cs arbitrary: va s) (auto simp: view_simps split: option.splits)

lemma keeps_user [keep_ops]:
  assumes "view a s = v"
  shows "keeps a v (fetch b va n s)" "keeps a v (deliver b va d s)"
  using assms view_uput [of b va d s _ a] by (auto simp: fetch_def deliver_def split: option.split)

lemma keeps_ustr [keep_ops]: "view a s = v \<Longrightarrow> keeps a v (ustr b va n s)"
  by (induction n arbitrary: va s) (auto intro!: keep_intros simp: view_simps)

lemma keeps_with_myproc:
  "view a s = v \<Longrightarrow> (\<And>i t. view a t = v \<Longrightarrow> keeps a v (f i t)) \<Longrightarrow> keeps a v (with_myproc b f s)"
  unfolding with_myproc_def by (auto intro!: keep_intros keep_ops)

lemma keeps_fetchint [keep_ops]: "view a s = v \<Longrightarrow> keeps a v (fetchint b p s)"
  unfolding fetchint_def by (auto intro!: keep_intros keep_ops keeps_with_myproc)

lemma keeps_argint [keep_ops]: "view a s = v \<Longrightarrow> keeps a v (argint b n s)"
  unfolding argint_def by (auto intro!: keep_intros keep_ops keeps_with_myproc)

lemma keeps_args [keep_ops]:
  assumes "view a s = v"
  shows "keeps a v (fetchstr b p s)" "keeps a v (argptr b n len s)"
  using assms unfolding fetchstr_def argptr_def
  by (auto intro!: keep_intros keep_ops keeps_with_myproc)

lemma keeps_argstr [keep_ops]: "view a s = v \<Longrightarrow> keeps a v (argstr b n s)"
  unfolding argstr_def by (auto intro!: keep_intros keep_ops)

lemma keeps_argfd [keep_ops]: "view a s = v \<Longrightarrow> keeps a v (argfd b n s)"
  unfolding argfd_def by (auto intro!: keep_intros keep_ops keeps_with_myproc)

section \<open>Reference counts\<close>

lemma keeps_refs [keep_ops]:
  "view a s = v \<Longrightarrow> keeps a v (idup b i s)" "view a s = v \<Longrightarrow> keeps a v (iget b d n s)"
  "view a s' = v \<Longrightarrow> keeps a v (filedup b k s')" "view a s' = v \<Longrightarrow> keeps a v (filealloc b s')"
  unfolding idup_def iget_def filedup_def filealloc_def
  by (auto intro!: keep_intros keep_ops simp: view_simps)

lemma keeps_switchuvm [keep_ops]: "view a s = v \<Longrightarrow> keeps a v (switchuvm b p s)"
proof -
  have "view a (s\<lparr>mach := upd_cpu c (\<lambda>x. x\<lparr>cpu_esp0 := w\<rparr>) (mach s)\<rparr>) = view a s" for c w and s :: "'a pkst_scheme"
    by (rule view_mach) (simp add: procs_upd_cpu)
  then show "view a s = v \<Longrightarrow> keeps a v (switchuvm b p s)"
    unfolding switchuvm_def by (auto intro!: keep_intros keep_ops simp: view_simps)
qed

end
