(* ===== verification/Kernel_Inv.thy ===== *)
theory Kernel_Inv
  imports Kernel_Frame
begin

text \<open>
  The scheduler's invariant through the whole kernel. \<open>run_inv a me s\<close>: the invariant holds and
  process \<open>me\<close> runs on CPU \<open>a\<close>. \<open>safe a me m\<close>: if the outcome \<open>m\<close> is a return, \<open>run_inv\<close> holds again,
  and if it gave up the CPU the invariant holds there. Every operation a process can reach by a
  trap is shown safe, up to \<^verbatim>\<open>trap\<close> itself.
\<close>

named_theorems safe_ops \<open>operations that are safe\<close>

definition run_inv :: "nat \<Rightarrow> nat \<Rightarrow> 'e pkst_scheme \<Rightarrow> bool" where
  "run_inv a me s \<longleftrightarrow> sched_inv s \<and> me < NPROC \<and> cur a (mach s) = Some me \<and> state (prc me s) = RUNNING"

definition safe :: "nat \<Rightarrow> nat \<Rightarrow> ('a, 'e pkst_scheme) res \<Rightarrow> bool" where
  "safe a me m \<longleftrightarrow>
     (case m of Ok r t \<Rightarrow> run_inv a me t | Panic msg \<Rightarrow> True | Spin l t \<Rightarrow> True | Off t \<Rightarrow> sched_inv t)"

lemma safe_outcome [simp]:
  "safe a me (Ok r t) = run_inv a me t" "safe a me (Panic msg)" "safe a me (Spin l t)"
  "safe a me (Off t) = sched_inv t"
  by (simp_all add: safe_def)

lemma safe_bnd:
  "safe a me m \<Longrightarrow> (\<And>r t. m = Ok r t \<Longrightarrow> run_inv a me t \<Longrightarrow> safe a me (f r t)) \<Longrightarrow> safe a me (bnd m f)"
  by (cases m) auto

lemma safe_forR:
  "run_inv a me s \<Longrightarrow> (\<And>i t. i \<in> set is \<Longrightarrow> run_inv a me t \<Longrightarrow> safe a me (f i t)) \<Longrightarrow> safe a me (forR is f s)"
  by (induction "is" arbitrary: s) (auto intro!: safe_bnd)

lemma safe_findR:
  "run_inv a me s \<Longrightarrow> (\<And>i t. i \<in> set is \<Longrightarrow> run_inv a me t \<Longrightarrow> safe a me (f i t)) \<Longrightarrow> safe a me (findR is f s)"
  by (induction "is" arbitrary: s) (auto intro!: safe_bnd split: option.split)

lemma safe_if: "(b \<Longrightarrow> safe a me x) \<Longrightarrow> (\<not> b \<Longrightarrow> safe a me y) \<Longrightarrow> safe a me (if b then x else y)"
  by simp

lemma safe_option:
  "(\<And>x. k = Some x \<Longrightarrow> safe a me (g x)) \<Longrightarrow> (k = None \<Longrightarrow> safe a me n) \<Longrightarrow>
   safe a me (case k of None \<Rightarrow> n | Some x \<Rightarrow> g x)"
  by (cases k) auto

lemma safe_prod: "(\<And>x y. k = (x, y) \<Longrightarrow> safe a me (g x y)) \<Longrightarrow> safe a me (case k of (x, y) \<Rightarrow> g x y)"
  by (cases k) auto

lemma safe_let: "safe a me (f x) \<Longrightarrow> safe a me (let y = x in f y)"
  by simp

lemmas safe_intros = safe_bnd safe_forR safe_findR safe_if safe_option safe_prod safe_let

lemma sched_inv_view: "view a t = view a s \<Longrightarrow> sched_inv t = sched_inv s"
  by (simp add: view_def sched_inv_def counts_ok_def pids_ok_def)

lemma run_inv_view: "view a t = view a s \<Longrightarrow> run_inv a me t = run_inv a me s"
  using sched_inv_view [of a t s] by (simp add: run_inv_def view_def)

lemmas run_simps = view_simps [THEN run_inv_view]
lemmas inv_simps = view_simps [THEN sched_inv_view]

lemma keeps_safe: "keeps a (view a s) m \<Longrightarrow> run_inv a me s \<Longrightarrow> safe a me m"
  using run_inv_view by (auto simp: keeps_def safe_def split: res.splits)

lemmas keep_safe = keep_ops [OF refl, THEN keeps_safe]

lemma run_invD:
  "run_inv a me s \<Longrightarrow> sched_inv s \<and> me < NPROC \<and> cur a (mach s) = Some me \<and> state (prc me s) = RUNNING
     \<and> length (ptab s) = NPROC"
  by (simp add: run_inv_def sched_inv_length)

lemma safe_with_myproc:
  assumes "run_inv a me s" "\<And>t. run_inv a me t \<Longrightarrow> safe a me (f me t)"
  shows "safe a me (with_myproc a f s)"
proof -
  have "p = Some me" if "myproc a s = Ok p t" for p t
    using myproc_me [OF that] assms(1) by (simp add: run_inv_def)
  then show ?thesis
    using assms unfolding with_myproc_def
    by (intro safe_bnd keep_safe) (auto split: option.split)
qed

section \<open>Updates of the table\<close>

lemma run_inv_upd:
  assumes "run_inv a me s" "\<And>p. state (f p) = state p" "\<And>p. same_ids (f p) p"
  shows "run_inv a me (upd_proc i f s)"
proof -
  have "state (prc me (upd_proc i f s)) = state (prc me s)"
    using assms run_invD [OF assms(1)] by (simp add: proc_simps nth_upd)
  then show ?thesis
    using assms sched_inv_quiet_upd [of s f i] by (simp add: run_inv_def proc_simps)
qed

lemma run_inv_ofile [simp]: "run_inv a me s \<Longrightarrow> run_inv a me (set_ofile i fd f s)"
  unfolding set_ofile_def by (rule run_inv_upd) (simp_all add: same_ids_def)

lemma run_inv_eax [simp]: "run_inv a me s \<Longrightarrow> run_inv a me (set_eax i v s)"
  unfolding set_eax_def by (rule run_inv_upd) (simp_all add: same_ids_def)

text \<open>A process other than the running one becomes runnable.\<close>

lemma run_inv_enter:
  assumes r: "run_inv a me s" and i: "i < NPROC" "state (prc i s) \<notin> {RUNNABLE, RUNNING, UNUSED}"
    and f: "state (f (prc i s)) = RUNNABLE" "same_ids (f (prc i s)) (prc i s)"
  shows "run_inv a me (count_add 1 i (upd_proc i f s))"
proof -
  have "i \<noteq> me" using i run_invD [OF r] by auto
  then show ?thesis
    using assms sched_inv_enter [of s i f] run_invD [OF r] by (simp add: run_inv_def proc_simps)
qed

lemma view_upd: "view a t = view a s \<Longrightarrow> view a (upd_proc i f t) = view a (upd_proc i f s)"
  by (simp add: view_def proc_simps)

lemma view_count: "view a t = view a s \<Longrightarrow> view a (count_add d i t) = view a (count_add d i s)"
  by (simp add: view_def proc_simps count_add_counts)

lemma keepsD: "keeps a v m \<Longrightarrow> m = Ok r t \<Longrightarrow> view a t = v"
  by (simp add: keeps_def)

lemmas keep_view = keep_ops [OF refl, THEN keepsD]

text \<open>An update between taking and releasing a lock.\<close>

lemma locked_update:
  assumes "bnd (acquire b l s) (\<lambda>_ s. release b l (upd_proc i (f s) s)) = Ok () t"
  shows "\<exists>x. view a t = view a (upd_proc i (f x) s)"
proof -
  obtain s1 where s1: "acquire b l s = Ok () s1" "release b l (upd_proc i (f s1) s1) = Ok () t"
    using assms by (auto simp: bnd_eq_Ok)
  have "view a t = view a (upd_proc i (f s1) s1)" using s1(2) by (rule keep_view)
  moreover have "view a s1 = view a s" using s1(1) by (rule keep_view)
  then have "view a (upd_proc i (f s1) s1) = view a (upd_proc i (f s1) s)" by (rule view_upd)
  ultimately have "view a t = view a (upd_proc i (f s1) s)" by (rule trans)
  then show ?thesis by blast
qed

lemma bnd_never_off: "bnd m f = Off t \<longleftrightarrow> m = Off t \<or> (\<exists>r s. m = Ok r s \<and> f r s = Off t)"
  by (cases m) auto

lemma locks_never_off [simp]: "acquire a l s \<noteq> Off t" "release a l s \<noteq> Off t" "myproc a s \<noteq> Off t"
  by (auto simp: acquire_def release_def myproc_def onM_def machine_never_off split: res.split)

section \<open>Waking, killing, yielding, sleeping\<close>

lemma make_runnable_view:
  assumes "make_runnable b i s = Ok () t"
  shows "\<exists>x. view a t = view a (count_add 1 i (upd_proc i
    (\<lambda>p. p\<lparr>state := RUNNABLE, arrival_time := x, waited_ticks := 0\<rparr>) s))"
proof -
  let ?f = "\<lambda>p :: proc. p\<lparr>state := RUNNABLE\<rparr>"
  obtain s1 where s1: "stamp_arrival b i (upd_proc i ?f s) = Ok () s1" "t = count_add 1 i s1"
    using assms by (auto simp: make_runnable_def bnd_eq_Ok)
  obtain y where "view a s1 = view a (upd_proc i (\<lambda>p. p\<lparr>arrival_time := y, waited_ticks := 0\<rparr>)
      (upd_proc i ?f s))"
    using locked_update [OF s1(1) [unfolded stamp_arrival_def], of a] by blast
  moreover have "(\<lambda>p. p\<lparr>arrival_time := y, waited_ticks := 0\<rparr>) \<circ> ?f =
      (\<lambda>p. p\<lparr>state := RUNNABLE, arrival_time := y, waited_ticks := 0\<rparr>)" for y
    by (rule ext) simp
  ultimately have "view a s1 = view a (upd_proc i
      (\<lambda>p. p\<lparr>state := RUNNABLE, arrival_time := y, waited_ticks := 0\<rparr>) s)"
    by (simp only: upd_proc_twice)
  then show ?thesis unfolding s1(2) by (intro exI [of _ y] view_count)
qed

lemma make_runnable_never_off: "make_runnable b i s \<noteq> Off t"
  by (auto simp: make_runnable_def stamp_arrival_def bnd_never_off)

lemma safe_make_runnable:
  assumes r: "run_inv a me s" and i: "i < NPROC" "state (prc i s) = SLEEPING"
  shows "safe a me (make_runnable a i s)"
proof (cases "make_runnable a i s")
  case (Ok u t)
  obtain x where x: "view a t = view a (count_add 1 i (upd_proc i
      (\<lambda>p. p\<lparr>state := RUNNABLE, arrival_time := x, waited_ticks := 0\<rparr>) s))"
    using make_runnable_view [of a i s t a] Ok by (cases u) blast
  have "run_inv a me (count_add 1 i (upd_proc i
      (\<lambda>p. p\<lparr>state := RUNNABLE, arrival_time := x, waited_ticks := 0\<rparr>) s))"
    by (rule run_inv_enter [OF r i(1)]) (simp_all add: i(2) same_ids_def)
  then show ?thesis using Ok run_inv_view [OF x] by simp
qed (simp_all add: make_runnable_never_off)

lemma safe_wakeup1 [safe_ops]: "run_inv a me s \<Longrightarrow> safe a me (wakeup1 a ch s)"
  unfolding wakeup1_def by (auto intro!: safe_intros safe_make_runnable)

lemma safe_wakeup [safe_ops]: "run_inv a me s \<Longrightarrow> safe a me (wakeup a ch s)"
  unfolding wakeup_def by (auto intro!: safe_intros keep_safe safe_ops)

lemma run_inv_killed [simp]: "run_inv a me s \<Longrightarrow> run_inv a me (upd_proc i (\<lambda>p. p\<lparr>killed := True\<rparr>) s)"
  by (rule run_inv_upd) (simp_all add: same_ids_def)

lemma run_find: "find_proc P (ptab s) 0 = Some i \<Longrightarrow> run_inv a me s \<Longrightarrow> i < NPROC"
  using find_proc_0 [of P "ptab s" i] run_invD [of a me s] by simp

lemma safe_kill [safe_ops]: "run_inv a me s \<Longrightarrow> safe a me (kill a n s)"
  unfolding kill_def
  by (auto intro!: safe_intros keep_safe safe_make_runnable dest: run_find)

text \<open>Steps that leave the view alone, on the way to \<^verbatim>\<open>sched\<close>.\<close>

lemma safe_keep_bnd:
  "keeps a v m \<Longrightarrow> (\<And>r t. m = Ok r t \<Longrightarrow> view a t = v \<Longrightarrow> safe a me (f r t)) \<Longrightarrow> safe a me (bnd m f)"
  by (cases m) (auto simp: keeps_def)

lemma safe_sched:
  fixes s :: "'e pkst_scheme"
  assumes "sched_inv s" shows "safe a me (sched a ret s :: ('r, 'e pkst_scheme) res)"
proof -
  have inv: "sched_inv (upd_proc i (\<lambda>p. p\<lparr>kctxt := ret b\<rparr>) t)" if "view a t = view a s" for i b and t :: "'e pkst_scheme"
    using assms sched_inv_view [OF that] by (intro sched_inv_quiet_upd) (simp_all add: same_ids_def)
  show ?thesis
    unfolding sched_def Let_def
    by (rule safe_keep_bnd [of a "view a s"], rule keep_ops, rule refl,
        rule safe_keep_bnd [of a "view a s"], rule keep_ops, assumption, rule safe_if, simp,
        rule safe_keep_bnd [of a "view a s"], rule keep_ops, assumption)
       (auto split: option.split intro!: inv)
qed

text \<open>The running process stops running, and is not counted.\<close>

lemma sched_inv_stop:
  assumes r: "run_inv a me s" and f: "state (f (prc me s)) \<notin> {RUNNABLE, UNUSED}" "same_ids (f (prc me s)) (prc me s)"
  shows "sched_inv (upd_proc me f s)"
proof (rule sched_inv_same)
  show "sched_inv s" "same_tally (f (prc me s)) (prc me s)" "pid (f (prc me s)) = pid (prc me s)"
    using f run_invD [OF r] by (auto simp: same_ids_def intro!: same_tallyI)
  show "state (prc me s) \<noteq> UNUSED \<and> class_ok (f (prc me s))"
    using f run_invD [OF r] by (simp add: sched_inv_def same_ids_def class_ok_def)
qed

lemma keeps_swap_locks: "view a s = v \<Longrightarrow>
    keeps a v (if lk \<noteq> l then bnd (acquire b l s) (\<lambda>_ s. release b lk s) else Ok () s)"
  by (auto intro!: keep_intros keep_ops)

lemma safe_sleep [safe_ops]:
  fixes s :: "'e pkst_scheme"
  assumes r: "run_inv a me s" shows "safe a me (sleep a ch lk s :: ('r, 'e pkst_scheme) res)"
proof -
  let ?v = "view a s"
  let ?g = "\<lambda>p :: proc. p\<lparr>pchan := Some ch\<rparr>" and ?h = "\<lambda>p :: proc. p\<lparr>consecutive_run := 0, state := SLEEPING\<rparr>"
  have go: "safe a me (let s = upd_proc me ?g t; s = (if state (prc me s) = RUNNABLE then count_add (- 1) me s else s);
      s = upd_proc me ?h s in sched a (InSleep lk) s)" if "view a t = ?v" for t :: "'e pkst_scheme"
  proof -
    have t: "run_inv a me t" using r run_inv_view [OF that] by simp
    then have "state (prc me (upd_proc me ?g t)) = RUNNING" using run_invD [OF t] by (simp add: proc_simps)
    moreover have "sched_inv (upd_proc me (?h \<circ> ?g) t)"
      by (rule sched_inv_stop [OF t]) (simp_all add: same_ids_def)
    ultimately show ?thesis by (simp add: Let_def safe_sched upd_proc_twice)
  qed
  show ?thesis
    unfolding sleep_def
  proof (rule safe_keep_bnd [of a ?v])
    show "keeps a ?v (myproc a s)" by (rule keep_ops) simp
    fix p t
    assume "myproc a s = Ok p t" and t: "view a t = ?v"
    then have "p = Some me" using myproc_me r by (auto simp: run_inv_def)
    then show "safe a me (case p of None \<Rightarrow> Panic ''sleep''
      | Some i \<Rightarrow> bnd (if lk \<noteq> PtableLock then bnd (acquire a PtableLock t) (\<lambda>_ s. release a lk s) else Ok () t)
          (\<lambda>_ s. let s = upd_proc i ?g s; s = (if state (prc i s) = RUNNABLE then count_add (- 1) i s else s);
             s = upd_proc i ?h s in sched a (InSleep lk) s))"
      by (simp only: option.case) (rule safe_keep_bnd [OF keeps_swap_locks [OF t]], rule go)
  qed
qed

lemma safe_yield [safe_ops]:
  fixes s :: "'e pkst_scheme"
  assumes r: "run_inv a me s" shows "safe a me (yield a k s :: ('r, 'e pkst_scheme) res)"
proof -
  let ?g = "\<lambda>p :: proc. p\<lparr>state := RUNNABLE\<rparr>"
  let ?h = "\<lambda>(s :: 'e pkst_scheme) (p :: proc). p\<lparr>arrival_time := sint (ticks s), waited_ticks := 0, consecutive_run := 0\<rparr>"
  have go: "safe a me (bnd (acquire a TicksLock (upd_proc me ?g t)) (\<lambda>_ s.
      bnd (release a TicksLock (upd_proc me (?h s) s)) (\<lambda>_ s. sched a (InYield k) (count_add 1 me s))))"
    if t: "run_inv a me t" for t :: "'e pkst_scheme"
  proof -
    have inv: "sched_inv (count_add 1 me (upd_proc me (?h u \<circ> ?g) t))" for u :: "'e pkst_scheme"
      using run_invD [OF t] by (intro sched_inv_enter) (auto simp: same_ids_def)
    show ?thesis
    proof (rule safe_keep_bnd [of a "view a (upd_proc me ?g t)"])
      show "keeps a (view a (upd_proc me ?g t)) (acquire a TicksLock (upd_proc me ?g t))" by (rule keep_ops) simp
      fix r and u :: "'e pkst_scheme" assume "view a u = view a (upd_proc me ?g t)"
      then have u: "view a (upd_proc me (?h u) u) = view a (upd_proc me (?h u) (upd_proc me ?g t))" by (rule view_upd)
      show "safe a me (bnd (release a TicksLock (upd_proc me (?h u) u)) (\<lambda>_ s. sched a (InYield k) (count_add 1 me s)))"
      proof (rule safe_keep_bnd [of a "view a (upd_proc me (?h u \<circ> ?g) t)"])
        show "keeps a (view a (upd_proc me (?h u \<circ> ?g) t)) (release a TicksLock (upd_proc me (?h u) u))"
          using u by (intro keep_ops) (simp only: upd_proc_twice)
        fix r and w :: "'e pkst_scheme" assume "view a w = view a (upd_proc me (?h u \<circ> ?g) t)"
        then have e: "view a (count_add 1 me w) = view a (count_add 1 me (upd_proc me (?h u \<circ> ?g) t))"
          by (rule view_count)
        have "sched_inv (count_add 1 me w)" unfolding sched_inv_view [OF e] by (rule inv)
        then show "safe a me (sched a (InYield k) (count_add 1 me w))" by (rule safe_sched)
      qed
    qed
  qed
  show ?thesis
    unfolding yield_def Let_def
    by (rule safe_bnd, rule keep_safe, rule r, rule safe_with_myproc, assumption, rule go)
qed

section \<open>Classes and aging\<close>

lemma run_inv_class:
  assumes r: "run_inv a me s" and inv: "sched_inv t"
    and t: "mach t = mach s" "ptab t = (ptab s)[i := q]" "state q = state (prc i s)"
  shows "run_inv a me t"
proof -
  have "state (prc me t) = state (prc me s)" using run_invD [OF r] t by (simp add: nth_upd)
  then show ?thesis using r inv t(1) by (simp add: run_inv_def)
qed

lemma run_inv_to_edf: "run_inv a me s \<Longrightarrow> i < NPROC \<Longrightarrow> run_inv a me (to_edf i dl s)"
  by (rule run_inv_class [where i = i and q = "(prc i s)\<lparr>sched_level := 0, sched_class := 1, deadline := dl\<rparr>"],
      assumption, rule sched_inv_to_edf) (simp_all add: run_inv_def)

lemma safe_set_deadline [safe_ops]: "run_inv a me s \<Longrightarrow> safe a me (set_deadline_for_process a n dl s)"
  unfolding set_deadline_for_process_def Let_def to_edf_def [symmetric]
  by (auto intro!: safe_intros keep_safe run_inv_to_edf dest: run_find)

lemma sched_inv_level_unused:
  assumes "sched_inv s" "state (prc i s) = UNUSED"
  shows "sched_inv (upd_proc i (\<lambda>p. p\<lparr>sched_level := l\<rparr>) s)"
  using assms by (intro sched_inv_same) (auto intro!: same_tallyI)

lemma run_inv_to_level:
  assumes r: "run_inv a me s" and i: "i < NPROC" and t: "target = 1 \<or> target = 2"
    and cl: "sched_class (prc i s) = 2" and ne: "sched_level (prc i s) \<noteq> target"
  shows "run_inv a me (to_level i target s)"
proof (rule run_inv_class [OF r, where i = i and q = "(prc i s)\<lparr>sched_level := (if target = 2 then 2 else 1)\<rparr>"])
  show "sched_inv (to_level i target s)"
  proof (cases "state (prc i s) = UNUSED")
    case True
    then show ?thesis using r sched_inv_level_unused [of s i] by (simp add: to_level_def run_inv_def)
  next
    case False
    then show ?thesis using assms by (intro sched_inv_to_level) (auto simp: run_inv_def)
  qed
qed simp_all

text \<open>The process with this id, if there is one, is not of class 1.\<close>

definition normal_class :: "int \<Rightarrow> 'e pkst_scheme \<Rightarrow> bool" where
  "normal_class n s \<longleftrightarrow> (\<forall>i. find_proc (\<lambda>p. pid p = n) (ptab s) 0 = Some i \<longrightarrow> sched_class (prc i s) = 2)"

lemma normal_class_view: "view a t = view a s \<Longrightarrow> normal_class n t = normal_class n s"
  by (simp add: normal_class_def view_def)

lemma to_level_twice:
  "upd_proc i (\<lambda>p. p\<lparr>sched_level := (if target = 2 then 2 else 1)\<rparr>)
     (if state (prc i s) = RUNNABLE
      then if sched_level (prc i s) = 1 then s\<lparr>count_rr := count_rr s - 1, count_fcfs := count_fcfs s + 1\<rparr>
           else s\<lparr>count_fcfs := count_fcfs s - 1, count_rr := count_rr s + 1\<rparr>
      else s) = to_level i target s"
  by (simp add: to_level_def)

lemma safe_level_tail:
  assumes "run_inv a me (upd_proc i f s)"
  shows "safe a me (bnd (cprintf a fmt args s) (\<lambda>_ s.
           bnd (release a PtableLock (upd_proc i f s)) (\<lambda>_ s. Ok r s)))"
proof (rule safe_keep_bnd)
  show "keeps a (view a s) (cprintf a fmt args s)" by (rule keep_ops) simp
  fix x t assume "view a t = view a s"
  then have e: "view a (upd_proc i f t) = view a (upd_proc i f s)" by (rule view_upd)
  have "run_inv a me (upd_proc i f t)" unfolding run_inv_view [OF e] by (rule assms)
  then show "safe a me (bnd (release a PtableLock (upd_proc i f t)) (\<lambda>_ s. Ok r s))"
    by (auto intro!: safe_intros keep_safe)
qed

lemma safe_change_level:
  assumes r: "run_inv a me s" and n: "normal_class n s"
  shows "safe a me (change_sched_level a n target s)"
proof (cases "target = 1 \<or> target = 2")
  case True
  then have ok: "\<not> (target \<noteq> 1 \<and> target \<noteq> 2)" by blast
  show ?thesis
    unfolding change_sched_level_def Let_def if_not_P [OF ok]
  proof (rule safe_keep_bnd [of a "view a s"])
    show "keeps a (view a s) (acquire a PtableLock s)" by (rule keep_ops) simp
    fix x t assume v: "view a t = view a s"
    have t: "run_inv a me t" "normal_class n t"
      using r n run_inv_view [OF v] normal_class_view [OF v] by simp_all
    have "run_inv a me (to_level i target t)"
      if "find_proc (\<lambda>p. pid p = n) (ptab t) 0 = Some i" "sched_level (prc i t) \<noteq> target" for i
      using that True t by (intro run_inv_to_level) (auto simp: normal_class_def dest: run_find)
    then show "safe a me (case find_proc (\<lambda>p. pid p = n) (ptab t) 0 of
        None \<Rightarrow> bnd (release a PtableLock t) (\<lambda>_ s. Ok (- 1) s)
      | Some i \<Rightarrow>
          if sched_level (prc i t) = target
          then bnd (cprintf a ''Process is already in target level!'' [] t) (\<lambda>_ s. Ok (- 1) s)
          else
            bnd (cprintf a level_fmt [pint n, pint (sched_level (prc i (if state (prc i t) = RUNNABLE
                then if sched_level (prc i t) = 1 then t\<lparr>count_rr := count_rr t - 1, count_fcfs := count_fcfs t + 1\<rparr>
                     else t\<lparr>count_fcfs := count_fcfs t - 1, count_rr := count_rr t + 1\<rparr> else t))), pint target]
                (if state (prc i t) = RUNNABLE
                then if sched_level (prc i t) = 1 then t\<lparr>count_rr := count_rr t - 1, count_fcfs := count_fcfs t + 1\<rparr>
                     else t\<lparr>count_fcfs := count_fcfs t - 1, count_rr := count_rr t + 1\<rparr> else t)) (\<lambda>_ s.
            bnd (release a PtableLock (upd_proc i (\<lambda>p. p\<lparr>sched_level := (if target = 2 then 2 else 1)\<rparr>) s)) (\<lambda>_ s. Ok 0 s)))"
      using t by (intro safe_option safe_if safe_level_tail) (auto intro!: safe_bnd keep_safe simp: to_level_twice)
  qed
next
  case False
  then show ?thesis
    using r unfolding change_sched_level_def by (auto intro!: safe_intros keep_safe)
qed

lemma normal_class_self:
  assumes "sched_inv s" "i < NPROC" "state (prc i s) \<noteq> UNUSED" "sched_class (prc i s) = 2"
  shows "normal_class (pid (prc i s)) s"
  using assms find_pid [of s i] by (simp add: normal_class_def sched_inv_def pids_ok_def)

lemma safe_age_proc [safe_ops]:
  assumes r: "run_inv a me s" and i: "i < NPROC"
  shows "safe a me (age_proc a osTicks i s)"
proof -
  let ?s = "upd_proc i (\<lambda>p. p\<lparr>waited_ticks := osTicks - arrival_time p\<rparr>) s"
  have s: "run_inv a me ?s" by (rule run_inv_upd [OF r]) (simp_all add: same_ids_def)
  have body: "safe a me (bnd (change_sched_level a (pid (prc i t)) 1 t) (\<lambda>_ s.
      bnd (acquire a PtableLock s) (\<lambda>_ s. Ok () (upd_proc i (\<lambda>p. p\<lparr>arrival_time := osTicks\<rparr>) s))))"
    if st: "state (prc i ?s) = RUNNABLE" "sched_class (prc i ?s) = 2" and t: "view a t = view a ?s" for t :: "'a pkst_scheme"
  proof -
    have rt: "run_inv a me t" using s run_inv_view [OF t] by simp
    moreover have "normal_class (pid (prc i t)) t"
      using st t run_invD [OF rt] i by (intro normal_class_self) (auto simp: view_def)
    ultimately show ?thesis
      by (auto intro!: safe_bnd safe_change_level keep_safe run_inv_upd simp: same_ids_def)
  qed
  have e: "state (prc i ?s) = state (prc i s)" using run_invD [OF r] i by (simp add: proc_simps)
  show ?thesis
    unfolding age_proc_def Let_def
    by (intro safe_if, rule safe_keep_bnd, rule keep_ops, rule refl, rule body) (simp_all add: s r e)
qed

lemma safe_update_wait_time [safe_ops]: "run_inv a me s \<Longrightarrow> safe a me (update_wait_time a osTicks s)"
  unfolding update_wait_time_def by (auto intro!: safe_intros keep_safe safe_ops)

lemma safe_is_higher_waiting [safe_ops]: "run_inv a me s \<Longrightarrow> safe a me (is_higher_waiting a s)"
  unfolding is_higher_waiting_def by (auto intro!: safe_intros safe_ops)

lemma safe_print_row [safe_ops]: "run_inv a me s \<Longrightarrow> safe a me (print_sched_row a p s)"
  unfolding print_sched_row_def str_cell_def int_cell_def
  by (auto intro!: safe_intros keep_safe)

lemma safe_listings [safe_ops]:
  assumes "run_inv a me s"
  shows "safe a me (print_sched_info a s)" "safe a me (procdump a pcs s)"
  using assms unfolding print_sched_info_def procdump_def
  by (auto intro!: safe_intros keep_safe safe_ops)

section \<open>Memory of a process, waiting for children\<close>

lemma run_inv_sz [simp]: "run_inv a me s \<Longrightarrow> run_inv a me (upd_proc i (\<lambda>p. p\<lparr>sz := z\<rparr>) s)"
  by (rule run_inv_upd) (simp_all add: same_ids_def)

lemma safe_growproc [safe_ops]: "run_inv a me s \<Longrightarrow> safe a me (growproc a n s)"
  unfolding growproc_def by (auto intro!: safe_intros safe_with_myproc keep_safe simp: Let_def)

definition reaped :: "proc \<Rightarrow> proc" where
  "reaped p = p\<lparr>pid := 0, parent := None, pname := '''', killed := False, state := UNUSED\<rparr>"

lemma reaped_fun: "(\<lambda>p. p\<lparr>pid := 0, parent := None, pname := '''', killed := False, state := UNUSED\<rparr>) = reaped"
  by (rule ext) (simp add: reaped_def)

lemma sched_inv_reap:
  assumes inv: "sched_inv s" and i: "i < NPROC" "state (prc i s) = ZOMBIE"
  shows "sched_inv (upd_proc i reaped s)"
proof -
  have len: "length (ptab s) = NPROC" using inv by (rule sched_inv_length)
  have "counts_ok (upd_proc i reaped s)"
    using inv i by (intro counts_same) (auto simp: sched_inv_def reaped_def intro!: same_tallyI)
  moreover have "pids_ok (upd_proc i reaped s)"
    using inv len by (auto simp: sched_inv_def pids_ok_def proc_simps nth_upd reaped_def)
  ultimately show ?thesis
    using inv inv_classes_upd [of s reaped i] by (simp add: sched_inv_def reaped_def) (simp add: proc_simps)
qed

lemma run_inv_reap:
  assumes r: "run_inv a me s" and i: "i < NPROC" "state (prc i s) = ZOMBIE"
  shows "run_inv a me (upd_proc i reaped s)"
proof -
  have "i \<noteq> me" using i run_invD [OF r] by auto
  then show ?thesis
    using sched_inv_reap [OF _ i] run_invD [OF r] by (simp add: run_inv_def proc_simps)
qed

lemma reap_freed:
  assumes r: "run_inv a me s" and i: "i < NPROC" "state (prc i s) = ZOMBIE"
  shows "safe a me (bnd (kfree a v s) (\<lambda>_ s.
      bnd (freevm a (pgdir (prc i (upd_proc i (\<lambda>p. p\<lparr>kstack := 0\<rparr>) s))) (upd_proc i (\<lambda>p. p\<lparr>kstack := 0\<rparr>) s)) (\<lambda>_ s.
      Ok x (upd_proc i reaped s))))"
proof (rule safe_keep_bnd)
  show "keeps a (view a s) (kfree a v s)" by (rule keep_ops) simp
  fix y t assume v: "view a t = view a s"
  let ?t = "upd_proc i (\<lambda>p. p\<lparr>kstack := 0\<rparr>) t"
  have rt: "run_inv a me t" using r run_inv_view [OF v] by simp
  have t: "run_inv a me ?t" by (rule run_inv_upd [OF rt]) (simp_all add: same_ids_def)
  have z: "state (prc i ?t) = ZOMBIE" using i v run_invD [OF rt] by (simp add: view_def proc_simps)
  show "safe a me (bnd (freevm a (pgdir (prc i ?t)) ?t) (\<lambda>_ s. Ok x (upd_proc i reaped s)))"
  proof (rule safe_keep_bnd)
    show "keeps a (view a ?t) (freevm a (pgdir (prc i ?t)) ?t)" by (rule keep_ops) simp
    fix y u assume w: "view a u = view a ?t"
    have "run_inv a me u" "state (prc i u) = ZOMBIE" using t z w run_inv_view [OF w] by (simp_all add: view_def)
    then show "safe a me (Ok x (upd_proc i reaped u))" using i(1) by (simp add: run_inv_reap)
  qed
qed

lemma safe_wait_scan:
  "run_inv a me s \<Longrightarrow> set is \<subseteq> {0..<NPROC} \<Longrightarrow> safe a me (wait_scan a p is k s)"
proof (induction "is" arbitrary: k)
  case (Cons i "is")
  then show ?case
    using reap_freed [of a me s i]
    by (auto simp: Let_def reaped_fun)
qed simp

lemma safe_wait_round: "run_inv a me s \<Longrightarrow> safe a me (wait_round a me s)"
  unfolding wait_round_def
  by (auto intro!: safe_intros safe_wait_scan keep_safe safe_ops split: option.split)

lemma safe_wait [safe_ops]: "run_inv a me s \<Longrightarrow> safe a me (wait a s)"
  unfolding wait_def by (auto intro!: safe_intros safe_with_myproc safe_wait_round keep_safe)

end
