(* ===== verification/Kernel_Safe.thy ===== *)
theory Kernel_Safe
  imports Kernel_Inv
begin

text \<open>
  The rest of the walk through the kernel: sleep locks, buffer cache, log, file system, pipes,
  files, console, system calls and traps are safe in the sense of \<open>Kernel_Inv\<close>.
\<close>

section \<open>Sleep locks, buffers, log\<close>

lemma safe_acquiresleep_loop [safe_ops]: "run_inv a me s \<Longrightarrow> safe a me (acquiresleep_loop a l s)"
  unfolding acquiresleep_loop_def
  by (auto intro!: safe_intros safe_with_myproc keep_safe safe_ops simp: run_simps)

lemma safe_sleeplocks [safe_ops]:
  assumes "run_inv a me s"
  shows "safe a me (acquiresleep a l s)" "safe a me (releasesleep a l s)" "safe a me (holdingsleep a l s)"
  using assms unfolding acquiresleep_def releasesleep_def holdingsleep_def
  by (auto intro!: safe_intros safe_with_myproc keep_safe safe_ops simp: run_simps)

lemma safe_iderw [safe_ops]: "run_inv a me s \<Longrightarrow> safe a me (iderw a i s)"
  unfolding iderw_def by (auto intro!: safe_intros safe_ops simp: run_simps)

lemma safe_bget [safe_ops]: "run_inv a me s \<Longrightarrow> safe a me (bget a dev n s)"
  unfolding bget_def by (auto intro!: safe_intros keep_safe safe_ops simp: run_simps)

lemma safe_bio [safe_ops]:
  assumes "run_inv a me s"
  shows "safe a me (bread a dev n s)" "safe a me (bwrite a i s)" "safe a me (brelse a i s)"
  using assms unfolding bread_def bwrite_def brelse_def
  by (auto intro!: safe_intros keep_safe safe_ops simp: run_simps)

lemma safe_log_steps [safe_ops]:
  assumes "run_inv a me s"
  shows "safe a me (install_one a k s)" "safe a me (write_log_one a k s)" "safe a me (read_head a s)"
    "safe a me (write_head a s)" "safe a me (begin_op_loop a s)"
  using assms unfolding install_one_def write_log_one_def read_head_def write_head_def begin_op_loop_def
  by (auto intro!: safe_intros keep_safe safe_ops simp: run_simps)

lemma safe_log_loops [safe_ops]:
  assumes "run_inv a me s"
  shows "safe a me (install_trans a s)" "safe a me (write_log a s)" "safe a me (begin_op a s)"
    "safe a me (log_write a i s)"
  using assms unfolding install_trans_def write_log_def begin_op_def log_write_def
  by (auto intro!: safe_intros keep_safe safe_ops simp: run_simps)

lemma safe_commit [safe_ops]:
  assumes "run_inv a me s"
  shows "safe a me (commit a s)" "safe a me (recover_from_log a s)"
  using assms unfolding commit_def recover_from_log_def
  by (auto intro!: safe_intros keep_safe safe_ops simp: run_simps)

lemma safe_end_op [safe_ops]: "run_inv a me s \<Longrightarrow> safe a me (end_op a s)"
  unfolding end_op_def by (auto intro!: safe_intros keep_safe safe_ops simp: run_simps)

section \<open>File system\<close>

lemma safe_blocks [safe_ops]:
  "run_inv a me s1 \<Longrightarrow> safe a me (readsb a dev s1)" "run_inv a me s2 \<Longrightarrow> safe a me (bzero a dev n s2)"
  "run_inv a me s3 \<Longrightarrow> safe a me (bfree a dev n s3)"
  unfolding readsb_def bzero_def bfree_def
  by (auto intro!: safe_intros keep_safe safe_ops simp: run_simps)

lemma safe_balloc [safe_ops]: "run_inv a me s \<Longrightarrow> safe a me (balloc a dev s)"
  unfolding balloc_def balloc_chunk_def by (auto intro!: safe_intros keep_safe safe_ops simp: run_simps)

lemma run_initsleeplocks: "run_inv a me s \<Longrightarrow> run_inv a me (fold (\<lambda>i. initsleeplock (k i) nm) is s)"
  by (induction "is" arbitrary: s) (simp_all add: run_simps)

lemma run_set_sb [simp]: "run_inv a me (sb_update f s) = run_inv a me s"
  by (rule run_inv_view) (simp add: view_def)

lemma safe_init [safe_ops]:
  "run_inv a me s \<Longrightarrow> safe a me (iinit a dev s)" "run_inv a me s' \<Longrightarrow> safe a me (initlog a dev s')"
  unfolding iinit_def initlog_def
  by (auto intro!: safe_intros keep_safe safe_ops run_initsleeplocks simp: run_simps)

lemma safe_inodes [safe_ops]:
  assumes "run_inv a me s"
  shows "safe a me (ialloc a dev ty s)" "safe a me (iupdate a i s)" "safe a me (ilock a i s)"
    "safe a me (iunlock a i s)" "safe a me (trunc_direct a i k s)" "safe a me (trunc_indirect a i b k s)"
  using assms unfolding ialloc_def ialloc_one_def iupdate_def ilock_def iunlock_def trunc_direct_def trunc_indirect_def
  by (auto intro!: safe_intros keep_safe safe_ops simp: run_simps)

lemma safe_itrunc [safe_ops]: "run_inv a me s \<Longrightarrow> safe a me (itrunc a i s)"
  unfolding itrunc_def by (auto intro!: safe_intros keep_safe safe_ops simp: run_simps)

lemma safe_iput [safe_ops]: "run_inv a me s \<Longrightarrow> safe a me (iput a i s)"
  unfolding iput_def by (auto intro!: safe_intros keep_safe safe_ops simp: run_simps)

lemma safe_iunlockput [safe_ops]: "run_inv a me s \<Longrightarrow> safe a me (iunlockput a i s)"
  unfolding iunlockput_def by (auto intro!: safe_intros keep_safe safe_ops simp: run_simps)

lemma safe_bmap [safe_ops]: "run_inv a me s \<Longrightarrow> safe a me (bmap a i bn s)"
  unfolding bmap_def by (auto intro!: safe_intros keep_safe safe_ops simp: run_simps)

lemma safe_readi_loop [safe_ops]: "run_inv a me s \<Longrightarrow> safe a me (readi_loop a i off r s)"
proof (induction "unat r" arbitrary: off r s rule: less_induct)
  case less
  then show ?case
    by (subst readi_loop.simps) (auto intro!: safe_intros keep_safe safe_ops simp: run_simps span_shrinks)
qed

lemma safe_writei_loop [safe_ops]: "run_inv a me s \<Longrightarrow> safe a me (writei_loop a i src off r s)"
proof (induction "unat r" arbitrary: src off r s rule: less_induct)
  case less
  then show ?case
    by (subst writei_loop.simps) (auto intro!: safe_intros keep_safe safe_ops simp: run_simps span_shrinks)
qed

text \<open>A device table whose functions are safe.\<close>

definition safe_dev :: "nat \<Rightarrow> nat \<Rightarrow> 'e fkst_scheme devtab \<Rightarrow> bool" where
  "safe_dev a me dv \<longleftrightarrow>
     (\<forall>m f s. dv_read (dv m) = Some f \<longrightarrow> run_inv a me s \<longrightarrow> (\<forall>i n. safe a me (f a i n s))) \<and>
     (\<forall>m f s. dv_write (dv m) = Some f \<longrightarrow> run_inv a me s \<longrightarrow> (\<forall>i d. safe a me (f a i d s)))"

lemma safe_content [safe_ops]:
  assumes "run_inv a me s" "safe_dev a me dv"
  shows "safe a me (readi dv a i off n s)" "safe a me (writei dv a i src off n s)"
  using assms unfolding readi_def writei_def safe_dev_def
  by (auto intro!: safe_intros keep_safe safe_ops simp: run_simps)

lemma safe_dirs [safe_ops]:
  assumes "run_inv a me s" "safe_dev a me dv"
  shows "safe a me (dirlookup dv a i nm s)" "safe a me (dirlink_probe dv a i k s)"
  using assms unfolding dirlookup_def dirlookup_one_def dirlink_probe_def
  by (auto intro!: safe_intros keep_safe safe_ops simp: run_simps)

lemma safe_dirlink [safe_ops]: "run_inv a me s \<Longrightarrow> safe_dev a me dv \<Longrightarrow> safe a me (dirlink dv a i nm n s)"
  unfolding dirlink_def by (auto intro!: safe_intros keep_safe safe_ops simp: run_simps)

lemma safe_namex_loop [safe_ops]:
  "run_inv a me s \<Longrightarrow> safe_dev a me dv \<Longrightarrow> safe a me (namex_loop dv a par i path nm s)"
proof (induction "length path" arbitrary: i path nm s rule: less_induct)
  case less
  then show ?case
    by (subst namex_loop.simps) (auto intro!: safe_intros keep_safe safe_ops simp: run_simps skipelem_shorter)
qed

lemma safe_namex [safe_ops]: "run_inv a me s \<Longrightarrow> safe_dev a me dv \<Longrightarrow> safe a me (namex dv a path par s)"
  unfolding namex_def by (auto intro!: safe_intros safe_with_myproc keep_safe safe_ops simp: run_simps)

lemma safe_names [safe_ops]:
  assumes "run_inv a me s" "safe_dev a me dv"
  shows "safe a me (namei dv a path s)" "safe a me (nameiparent dv a path s)"
  using assms unfolding namei_def nameiparent_def by (auto intro!: safe_intros safe_ops)

section \<open>Pipes and files\<close>

lemma safe_pipeclose [safe_ops]: "run_inv a me s \<Longrightarrow> safe a me (pipeclose a p w s)"
  unfolding pipeclose_def by (auto intro!: safe_intros keep_safe safe_ops simp: run_simps)

lemma safe_pipewrite_loop [safe_ops]: "run_inv a me s \<Longrightarrow> safe a me (pipewrite_loop a p src n s)"
  by (induction src arbitrary: s)
     (auto intro!: safe_intros safe_with_myproc keep_safe safe_ops simp: run_simps)

lemma safe_piperead_loop [safe_ops]: "run_inv a me s \<Longrightarrow> safe a me (piperead_loop a p n s)"
  unfolding piperead_loop_def
  by (auto intro!: safe_intros safe_with_myproc keep_safe safe_ops simp: run_simps)

lemma safe_pipes [safe_ops]:
  assumes "run_inv a me s"
  shows "safe a me (pipewrite a p src n s)" "safe a me (piperead a p n s)"
  using assms unfolding pipewrite_def piperead_def by (auto intro!: safe_intros keep_safe safe_ops)

lemma safe_ftype:
  "safe a me x \<Longrightarrow> safe a me y \<Longrightarrow> safe a me z \<Longrightarrow>
   safe a me (case k of FD_NONE \<Rightarrow> x | FD_PIPE \<Rightarrow> y | FD_INODE \<Rightarrow> z)"
  by (cases k) auto

lemma safe_fileclose [safe_ops]: "run_inv a me s \<Longrightarrow> safe a me (fileclose a i s)"
  unfolding fileclose_def by (auto intro!: safe_intros safe_ftype keep_safe safe_ops simp: run_simps)

lemma safe_filestat [safe_ops]: "run_inv a me s \<Longrightarrow> safe a me (filestat a i s)"
  unfolding filestat_def by (auto intro!: safe_intros keep_safe safe_ops simp: run_simps)

lemma safe_fileread [safe_ops]: "run_inv a me s \<Longrightarrow> safe_dev a me dv \<Longrightarrow> safe a me (fileread dv a i n s)"
  unfolding fileread_def by (auto intro!: safe_intros safe_ftype keep_safe safe_ops simp: run_simps)

lemma safe_filewrite_round [safe_ops]:
  "run_inv a me s \<Longrightarrow> safe_dev a me dv \<Longrightarrow> safe a me (filewrite_round dv a i src s)"
  unfolding filewrite_round_def by (auto intro!: safe_intros keep_safe safe_ops simp: run_simps)

lemma safe_filewrite_loop [safe_ops]:
  "run_inv a me s \<Longrightarrow> safe_dev a me dv \<Longrightarrow> safe a me (filewrite_loop dv a i src s)"
proof (induction "length src" arbitrary: src s rule: less_induct)
  case less
  then show ?case
    by (subst filewrite_loop.simps) (auto intro!: safe_intros safe_ops simp: write_max_pos)
qed

lemma safe_filewrite [safe_ops]: "run_inv a me s \<Longrightarrow> safe_dev a me dv \<Longrightarrow> safe a me (filewrite dv a i src n s)"
  unfolding filewrite_def by (auto intro!: safe_intros safe_ftype keep_safe safe_ops simp: run_simps)

lemma safe_pipealloc [safe_ops]: "run_inv a me s \<Longrightarrow> safe a me (pipealloc a s)"
  unfolding pipealloc_def by (auto intro!: safe_intros keep_safe safe_ops simp: run_simps)

section \<open>File system calls\<close>

lemma safe_need:
  "safe a me m \<Longrightarrow> (\<And>v t. run_inv a me t \<Longrightarrow> safe a me (f v t)) \<Longrightarrow> safe a me (need m f)"
  unfolding need_def by (auto intro!: safe_intros)

lemma safe_fdalloc [safe_ops]: "run_inv a me s \<Longrightarrow> safe a me (fdalloc a f s)"
  unfolding fdalloc_def by (auto intro!: safe_intros safe_with_myproc)

lemma safe_finish [safe_ops]:
  "run_inv a me s1 \<Longrightarrow> safe a me (finish_op a r s1)" "run_inv a me s2 \<Longrightarrow> safe a me (give_up a i s2)"
  unfolding finish_op_def give_up_def by (auto intro!: safe_intros safe_ops)

lemma safe_need_op:
  "safe a me m \<Longrightarrow> (\<And>v t. run_inv a me t \<Longrightarrow> safe a me (f v t)) \<Longrightarrow> safe a me (need_op a m f)"
  unfolding need_op_def by (auto intro!: safe_intros safe_ops)

lemmas call_intros = safe_intros safe_need safe_need_op safe_with_myproc keep_safe

lemma safe_put_stat [safe_ops]: "run_inv a me s \<Longrightarrow> safe a me (put_stat a p st s)"
  unfolding put_stat_def by (auto intro!: safe_intros keep_safe)

lemma safe_fd_calls [safe_ops]:
  assumes "run_inv a me s"
  shows "safe a me (sys_dup a s)" "safe a me (sys_close a s)" "safe a me (sys_fstat a s)" "safe a me (sys_pipe a s)"
  using assms unfolding sys_dup_def sys_close_def sys_fstat_def sys_pipe_def
  by (auto intro!: call_intros safe_ops)

lemma safe_rw_calls [safe_ops]:
  assumes "run_inv a me s" "safe_dev a me dv"
  shows "safe a me (sys_read dv a s)" "safe a me (sys_write dv a s)"
  using assms unfolding sys_read_def sys_write_def by (auto intro!: call_intros safe_ops)

lemma safe_link_bad [safe_ops]: "run_inv a me s \<Longrightarrow> safe a me (sys_link_bad a i s)"
  unfolding sys_link_bad_def by (auto intro!: safe_intros safe_ops simp: run_simps)

lemma safe_sys_link [safe_ops]: "run_inv a me s \<Longrightarrow> safe_dev a me dv \<Longrightarrow> safe a me (sys_link dv a s)"
  unfolding sys_link_def by (auto intro!: call_intros safe_ops simp: run_simps)

lemma safe_isdirempty [safe_ops]: "run_inv a me s \<Longrightarrow> safe_dev a me dv \<Longrightarrow> safe a me (isdirempty dv a i s)"
  unfolding isdirempty_def isdirempty_one_def by (auto intro!: safe_intros safe_ops)

lemma safe_unlink_entry [safe_ops]:
  "run_inv a me s \<Longrightarrow> safe_dev a me dv \<Longrightarrow> safe a me (unlink_entry dv a d i off s)"
  unfolding unlink_entry_def by (auto intro!: safe_intros safe_ops simp: run_simps)

lemma safe_sys_unlink [safe_ops]: "run_inv a me s \<Longrightarrow> safe_dev a me dv \<Longrightarrow> safe a me (sys_unlink dv a s)"
  unfolding sys_unlink_def by (auto intro!: call_intros safe_ops)

lemma safe_create_dots [safe_ops]: "run_inv a me s \<Longrightarrow> safe_dev a me dv \<Longrightarrow> safe a me (create_dots dv a d i s)"
  unfolding create_dots_def by (auto intro!: safe_intros safe_ops simp: run_simps)

lemma safe_create [safe_ops]: "run_inv a me s \<Longrightarrow> safe_dev a me dv \<Longrightarrow> safe a me (create dv a path ty mj mn s)"
  unfolding create_def by (auto intro!: safe_intros safe_ops simp: run_simps)

lemma safe_open_inode [safe_ops]:
  "run_inv a me s \<Longrightarrow> safe_dev a me dv \<Longrightarrow> safe a me (open_inode dv a path om s)"
  unfolding open_inode_def by (auto intro!: safe_intros safe_ops)

lemma safe_sys_open [safe_ops]: "run_inv a me s \<Longrightarrow> safe_dev a me dv \<Longrightarrow> safe a me (sys_open dv a s)"
  unfolding sys_open_def by (auto intro!: call_intros safe_ops simp: run_simps)

lemma run_inv_cwd [simp]: "run_inv a me s \<Longrightarrow> run_inv a me (upd_proc i (\<lambda>p. p\<lparr>cwd := c\<rparr>) s)"
  by (rule run_inv_upd) (simp_all add: same_ids_def)

lemma safe_path_calls [safe_ops]:
  assumes "run_inv a me s" "safe_dev a me dv"
  shows "safe a me (sys_mkdir dv a s)" "safe a me (sys_mknod dv a s)" "safe a me (sys_chdir dv a s)"
  using assms unfolding sys_mkdir_def sys_mknod_def sys_chdir_def
  by (auto intro!: call_intros safe_ops)

section \<open>Program loading\<close>

lemma safe_loaduvm [safe_ops]:
  "run_inv a me s \<Longrightarrow> safe_dev a me dv \<Longrightarrow> safe a me (loaduvm dv a d va i off z s)"
  unfolding loaduvm_def loaduvm_page_def by (auto intro!: call_intros safe_ops simp: run_simps)

lemma safe_exec_load [safe_ops]:
  "run_inv a me s \<Longrightarrow> safe_dev a me dv \<Longrightarrow> safe a me (exec_load dv a i d k off z s)"
  by (induction k arbitrary: off z s) (auto intro!: call_intros safe_ops)

lemma keeps_push_args: "view a s = v \<Longrightarrow> keeps a v (push_args b d xs n sp s)"
  by (induction xs arbitrary: n sp s) (auto intro!: keep_intros keep_ops simp: Let_def)

lemma safe_push_args [safe_ops]: "run_inv a me s \<Longrightarrow> safe a me (push_args b d xs n sp s)"
  by (rule keeps_safe, rule keeps_push_args) simp_all

lemma safe_exec_bad [safe_ops]: "run_inv a me s \<Longrightarrow> safe a me (exec_bad a d i s)"
  unfolding exec_bad_def by (auto intro!: call_intros safe_ops)

lemma run_inv_rr_class:
  assumes r: "run_inv a me s"
  shows "run_inv a me (upd_proc me (\<lambda>p. p\<lparr>sched_class := 2, sched_level := 1\<rparr>) s)"
proof -
  have "sched_inv (upd_proc me (\<lambda>p. p\<lparr>sched_class := 2, sched_level := 1\<rparr>) s)"
    using run_invD [OF r] by (intro sched_inv_same) (auto intro!: same_tallyI simp: class_ok_def)
  then show ?thesis using run_invD [OF r] by (simp add: run_inv_def proc_simps)
qed

lemma run_inv_exec [simp]:
  assumes "run_inv a me s"
  shows "run_inv a me (upd_proc i (\<lambda>p. p\<lparr>pname := nm\<rparr>) s)"
    "run_inv a me (upd_proc i (\<lambda>p. p\<lparr>pgdir := d, sz := z, tf := g (tf p)\<rparr>) s)"
  by (rule run_inv_upd [OF assms]; simp add: same_ids_def)+

lemma safe_exec_commit [safe_ops]: "run_inv a me s \<Longrightarrow> safe a me (exec_commit a me path d z e sp s)"
proof -
  assume r: "run_inv a me s"
  let ?s1 = "upd_proc me (\<lambda>p. p\<lparr>pname := map (\<lambda>c. char_of (unat c)) (take 15 (path_base path))\<rparr>) s"
  let ?s2 = "if pid (prc me ?s1) = 1 \<or> pid (prc me ?s1) = 2
    then upd_proc me (\<lambda>p. p\<lparr>sched_class := 2, sched_level := 1\<rparr>) ?s1 else ?s1"
  have "run_inv a me ?s2" using r by (simp add: run_inv_rr_class)
  then have "run_inv a me (upd_proc me (\<lambda>p. p\<lparr>pgdir := d, sz := z, tf := (tf p)\<lparr>tf_eip := e, tf_esp := sp\<rparr>\<rparr>) ?s2)"
    by (rule run_inv_exec)
  then show "safe a me (exec_commit a me path d z e sp s)"
    unfolding exec_commit_def Let_def by (intro safe_bnd keep_safe) auto
qed

lemma safe_exec_image [safe_ops]: "run_inv a me s \<Longrightarrow> safe a me (exec_image a me path argv d z e s)"
  unfolding exec_image_def by (auto intro!: call_intros safe_ops)

lemma safe_exec [safe_ops]: "run_inv a me s \<Longrightarrow> safe_dev a me dv \<Longrightarrow> safe a me (exec dv a path argv s)"
  unfolding exec_def by (auto intro!: call_intros safe_ops)

lemma safe_exec_args [safe_ops]: "run_inv a me s \<Longrightarrow> safe a me (exec_args a u k s)"
  by (induction k arbitrary: u s) (auto intro!: call_intros)

lemma safe_sys_exec [safe_ops]: "run_inv a me s \<Longrightarrow> safe_dev a me dv \<Longrightarrow> safe a me (sys_exec dv a s)"
  unfolding sys_exec_def by (auto intro!: call_intros safe_ops)

section \<open>Fork and exit\<close>

text \<open>While \<^verbatim>\<open>fork\<close> fills a new process, it is an embryo.\<close>

definition fork_inv :: "nat \<Rightarrow> nat \<Rightarrow> nat \<Rightarrow> 'e pkst_scheme \<Rightarrow> bool" where
  "fork_inv a me np s \<longleftrightarrow> run_inv a me s \<and> np < NPROC \<and> state (prc np s) = EMBRYO"

lemma fork_inv_view: "view a t = view a s \<Longrightarrow> fork_inv a me np t = fork_inv a me np s"
  using run_inv_view [of a t s me] by (simp add: fork_inv_def view_def)

lemma fork_inv_upd:
  assumes "fork_inv a me np s" "\<And>p. state (f p) = state p" "\<And>p. same_ids (f p) p"
  shows "fork_inv a me np (upd_proc i f s)"
  using assms run_inv_upd [of a me s f i] run_invD [of a me s]
  by (auto simp: fork_inv_def proc_simps nth_upd)

lemma fork_inv_run: "fork_inv a me np s \<Longrightarrow> run_inv a me s"
  by (simp add: fork_inv_def)

lemma run_inv_embryo:
  assumes r: "run_inv a me s" and f: "find_proc (\<lambda>p. state p = UNUSED) (ptab s) 0 = Some np"
  shows "fork_inv a me np (embryo np s)"
proof -
  have np: "np < NPROC" "state (prc np s) = UNUSED" using find_proc_0 [OF f] run_invD [OF r] by simp_all
  then have ne: "np \<noteq> me" using run_invD [OF r] by auto
  show ?thesis
    using sched_inv_embryo [of s np] np ne run_invD [OF r]
    by (simp add: fork_inv_def run_inv_def embryo_def proc_simps alloc_fields_def)
qed

lemma fork_inv_drop:
  assumes f: "fork_inv a me np s" and g: "state (g (prc np s)) = UNUSED" "pid (g (prc np s)) = pid (prc np s)"
  shows "run_inv a me (upd_proc np g s)"
proof -
  have r: "run_inv a me s" and e: "state (prc np s) = EMBRYO" using f by (simp_all add: fork_inv_def)
  have "np \<noteq> me" using e run_invD [OF r] by auto
  moreover have "sched_inv (upd_proc np g s)"
    using run_invD [OF r] e g by (intro sched_inv_same) (auto intro!: same_tallyI)
  ultimately show ?thesis using run_invD [OF r] by (simp add: run_inv_def proc_simps)
qed

lemma allocproc_embryo:
  assumes r: "run_inv a me s" and m: "allocproc a s = Ok x t"
  shows "run_inv a me t" "x = Some np \<Longrightarrow> fork_inv a me np t"
proof -
  obtain s1 where s1: "acquire a PtableLock s = Ok () s1"
    using m by (auto simp: allocproc_def bnd_eq_Ok)
  have v1: "view a s1 = view a s" using s1 by (rule keep_view)
  have r1: "run_inv a me s1" using r run_inv_view [OF v1] by simp
  have "run_inv a me t \<and> (\<forall>np. x = Some np \<longrightarrow> fork_inv a me np t)"
  proof (cases "find_proc (\<lambda>p. state p = UNUSED) (ptab s1) 0")
    case None
    then have t: "release a PtableLock s1 = Ok () t" "x = None" using m s1 by (auto simp: allocproc_def bnd_eq_Ok)
    have "view a t = view a s1" using t(1) by (rule keep_view)
    then show ?thesis using r1 t(2) run_inv_view by blast
  next
    case (Some i)
    let ?s2 = "embryo i s1" and ?k = "\<lambda>v (p :: proc). p\<lparr>kstack := v\<rparr>"
    obtain s3 v s4 where s3: "release a PtableLock ?s2 = Ok () s3" and s4: "kalloc a s3 = Ok v s4"
      and t: "t = (if v = 0 then upd_proc i (\<lambda>p. p\<lparr>state := UNUSED\<rparr>) (upd_proc i (?k v) s4)
                   else upd_proc i (\<lambda>p. p\<lparr>kctxt := AtForkret\<rparr>) (upd_proc i (?k v) s4))"
      and x: "x = (if v = 0 then None else Some i)"
      using m s1 Some by (auto simp: allocproc_def bnd_eq_Ok Let_def embryo_def split: if_splits)
    have "view a s3 = view a ?s2" using s3 by (rule keep_view)
    moreover have "view a s4 = view a s3" using s4 by (rule keep_view)
    ultimately have "fork_inv a me i s4" using run_inv_embryo [OF r1 Some] fork_inv_view by metis
    then have f: "fork_inv a me i (upd_proc i (?k v) s4)" by (rule fork_inv_upd) (simp_all add: same_ids_def)
    have "fork_inv a me i (upd_proc i (\<lambda>p. p\<lparr>kctxt := AtForkret\<rparr>) (upd_proc i (?k v) s4))"
      by (rule fork_inv_upd [OF f]) (simp_all add: same_ids_def)
    then show ?thesis
      using t x fork_inv_drop [OF f, of "\<lambda>p. p\<lparr>state := UNUSED\<rparr>"] fork_inv_run by auto
  qed
  then show "run_inv a me t" "x = Some np \<Longrightarrow> fork_inv a me np t" by simp_all
qed

lemma keeps_never_off: "keeps a v m \<Longrightarrow> m \<noteq> Off t"
  by (auto simp: keeps_def)

lemmas keep_never_off = keep_ops [OF refl, THEN keeps_never_off]

lemma allocproc_never_off: "allocproc a s \<noteq> Off t"
  by (auto simp: allocproc_def bnd_never_off Let_def keep_never_off split: option.split)

lemma fork_keep_bnd:
  assumes "fork_inv a me np s" "keeps a (view a s) m"
    and "\<And>r t. m = Ok r t \<Longrightarrow> fork_inv a me np t \<Longrightarrow> safe a me (f r t)"
  shows "safe a me (bnd m f)"
  using assms(2) by (rule safe_keep_bnd) (use assms(1,3) fork_inv_view in blast)

lemma fork_files:
  fixes s :: "'e okst_scheme"
  assumes "fork_inv a me np s" "\<And>t. fork_inv a me np t \<Longrightarrow> safe a me (f () t)"
  shows "safe a me (bnd (forR is (fork_file a me np) s) f)"
  using assms(1)
proof (induction "is" arbitrary: s)
  case (Cons k "is")
  show ?case
  proof (cases "ofile (prc me s) ! k")
    case None
    then show ?thesis using Cons by (simp add: fork_file_def [of a me np k s])
  next
    case (Some x)
    have "safe a me (bnd (filedup a x s) (\<lambda>y s. bnd (forR is (fork_file a me np) (set_ofile np k (Some y) s)) f))"
    proof (rule fork_keep_bnd [OF Cons.prems])
      show "keeps a (view a s) (filedup a x s)" by (rule keep_ops) simp
      fix y and t :: "'e okst_scheme" assume "fork_inv a me np t"
      then have "fork_inv a me np (set_ofile np k (Some y) t)"
        unfolding set_ofile_def by (rule fork_inv_upd) (simp_all add: same_ids_def)
      then show "safe a me (bnd (forR is (fork_file a me np) (set_ofile np k (Some y) t)) f)" by (rule Cons.IH)
    qed
    then show ?thesis using Some by (simp add: fork_file_def [of a me np k s] bnd_assoc)
  qed
qed (use assms(2) in simp)

lemma safe_fork_ready:
  fixes s :: "'e pkst_scheme"
  assumes f: "fork_inv a me np s"
  shows "safe a me (fork_ready a np s)"
proof -
  let ?g = "\<lambda>p :: proc. p\<lparr>state := RUNNABLE\<rparr>"
  let ?h = "\<lambda>(s :: 'e pkst_scheme) (p :: proc). p\<lparr>arrival_time := sint (ticks s), waited_ticks := 0, last_run := sint (ticks s)\<rparr>"
  have go: "safe a me (bnd (acquire a TicksLock (upd_proc np ?g t)) (\<lambda>_ s.
      bnd (release a TicksLock (upd_proc np (?h s) s)) (\<lambda>_ s. release a PtableLock (count_add 1 np s))))"
    if t: "fork_inv a me np t" for t
  proof -
    have inv: "run_inv a me (count_add 1 np (upd_proc np (?h u \<circ> ?g) t))" for u
      using t by (intro run_inv_enter) (auto simp: fork_inv_def same_ids_def)
    show ?thesis
    proof (rule safe_keep_bnd [of a "view a (upd_proc np ?g t)"])
      show "keeps a (view a (upd_proc np ?g t)) (acquire a TicksLock (upd_proc np ?g t))" by (rule keep_ops) simp
      fix r and u :: "'e pkst_scheme" assume "view a u = view a (upd_proc np ?g t)"
      then have u: "view a (upd_proc np (?h u) u) = view a (upd_proc np (?h u) (upd_proc np ?g t))" by (rule view_upd)
      show "safe a me (bnd (release a TicksLock (upd_proc np (?h u) u)) (\<lambda>_ s. release a PtableLock (count_add 1 np s)))"
      proof (rule safe_keep_bnd [of a "view a (upd_proc np (?h u \<circ> ?g) t)"])
        show "keeps a (view a (upd_proc np (?h u \<circ> ?g) t)) (release a TicksLock (upd_proc np (?h u) u))"
          using u by (intro keep_ops) (simp only: upd_proc_twice)
        fix r and w :: "'e pkst_scheme" assume "view a w = view a (upd_proc np (?h u \<circ> ?g) t)"
        then have e: "view a (count_add 1 np w) = view a (count_add 1 np (upd_proc np (?h u \<circ> ?g) t))"
          by (rule view_count)
        have "run_inv a me (count_add 1 np w)" unfolding run_inv_view [OF e] by (rule inv)
        then show "safe a me (release a PtableLock (count_add 1 np w))" by (rule keep_safe)
      qed
    qed
  qed
  show ?thesis
    unfolding fork_ready_def Let_def
    by (rule fork_keep_bnd [OF f], rule keep_ops, rule refl, rule go)
qed

lemma safe_fork_finish:
  fixes s :: "'e okst_scheme"
  assumes f: "fork_inv a me np s"
  shows "safe a me (fork_finish a me np s)"
proof -
  have go: "safe a me (bnd (fork_ready a np (upd_proc np (\<lambda>p. p\<lparr>cwd := Some c, pname := nm\<rparr>) u)) (\<lambda>_ s. Ok n s))"
    if "fork_inv a me np u" for c nm and n :: int and u :: "'e okst_scheme"
  proof -
    have "fork_inv a me np (upd_proc np (\<lambda>p. p\<lparr>cwd := Some c, pname := nm\<rparr>) u)"
      by (rule fork_inv_upd [OF that]) (simp_all add: same_ids_def)
    then show ?thesis by (intro safe_bnd safe_fork_ready) simp_all
  qed
  show ?thesis
    unfolding fork_finish_def Let_def
    by (rule fork_files [OF f], rule fork_keep_bnd, assumption) (auto intro!: keep_intros keep_ops go)
qed

lemma safe_fork_copy:
  fixes s :: "'e okst_scheme"
  assumes f: "fork_inv a me np s"
  shows "safe a me (fork_copy a me np s)"
proof -
  have d: "fork_inv a me np (upd_proc np (\<lambda>p. p\<lparr>pgdir := d\<rparr>) u)"
    "fork_inv a me np (upd_proc np (\<lambda>p. p\<lparr>sz := z, parent := Some me, tf := y\<rparr>) u)"
    if "fork_inv a me np u" for d z y and u :: "'e okst_scheme"
    by (rule fork_inv_upd [OF that]; simp add: same_ids_def)+
  show ?thesis
    unfolding fork_copy_def Let_def
    by (rule fork_keep_bnd [OF f], rule keep_ops, rule refl, intro safe_if safe_fork_finish d,
        rule fork_keep_bnd, erule d, rule keep_ops, rule refl) (simp_all add: fork_inv_drop)
qed

lemma safe_fork [safe_ops]:
  assumes r: "run_inv a me s" shows "safe a me (fork a s)"
proof -
  have "safe a me (bnd (allocproc a t) (\<lambda>r s. case r of None \<Rightarrow> Ok (-1) s | Some np \<Rightarrow> fork_copy a me np s))"
    if t: "run_inv a me t" for t
    using allocproc_embryo [OF t] allocproc_never_off [of a t]
    by (cases "allocproc a t") (auto split: option.split intro!: safe_fork_copy)
  then show ?thesis unfolding fork_def by (rule safe_with_myproc [OF r])
qed

lemma run_inv_parent [simp]: "run_inv a me s \<Longrightarrow> run_inv a me (upd_proc i (\<lambda>p. p\<lparr>parent := q\<rparr>) s)"
  by (rule run_inv_upd) (simp_all add: same_ids_def)

lemma safe_abandon [safe_ops]: "run_inv a me s \<Longrightarrow> safe a me (abandon a me i s)"
  unfolding abandon_def by (auto intro!: safe_intros safe_ops)

lemma safe_exit_zombie [safe_ops]:
  fixes s :: "'e pkst_scheme"
  assumes "run_inv a me s" shows "safe a me (exit_zombie a me s :: ('r, 'e pkst_scheme) res)"
  unfolding exit_zombie_def
  using assms by (auto intro!: safe_intros safe_ops keep_safe safe_sched sched_inv_stop simp: same_ids_def)

lemma safe_close_fd [safe_ops]: "run_inv a me s \<Longrightarrow> safe a me (close_fd a me fd s)"
  unfolding close_fd_def by (auto intro!: call_intros safe_ops)

lemma safe_exit [safe_ops]:
  fixes s :: "'e okst_scheme"
  assumes r: "run_inv a me s" shows "safe a me (exit a s :: ('r, 'e okst_scheme) res)"
proof -
  have m: "p = Some me" if "myproc a s = Ok p t" for p t
    using myproc_me [OF that] r by (simp add: run_inv_def)
  have c: "run_inv a me (upd_proc me (\<lambda>p. p\<lparr>cwd := None\<rparr>) t)" if "run_inv a me t" for t :: "'e okst_scheme"
    using that by (rule run_inv_upd) (simp_all add: same_ids_def)
  show ?thesis
    unfolding exit_def
    by (auto intro!: call_intros safe_ops c r dest: m)
qed

end
