(* ===== verification/Kernel_Trap.thy ===== *)
theory Kernel_Trap
  imports Kernel_Safe
begin

text \<open>
  The rest of the way from \<^verbatim>\<open>trap\<close> into the kernel: the console, the table of system calls, the
  interrupts and the accounting of a clock tick keep the scheduler's invariant, so \<^verbatim>\<open>trap\<close> does.
\<close>

section \<open>Console\<close>

lemma view_input [view_simps]:
  fixes s :: "'e ikst_scheme"
  shows "view a (s\<lparr>inbuf := x\<rparr>) = view a s" "view a (s\<lparr>in_r := y\<rparr>) = view a s"
    "view a (s\<lparr>in_w := y\<rparr>) = view a s" "view a (s\<lparr>in_e := y\<rparr>) = view a s"
  by (simp_all add: view_def)

lemma view_consputc [view_simps]: "view a (consputc c s) = view a s"
  by (simp add: consputc_def view_simps)

lemma view_kill_line [view_simps]: "view a (kill_line s) = view a s"
proof (induction s rule: kill_line.induct)
  case (1 s)
  then show ?case by (subst kill_line.simps) (simp add: view_simps)
qed

lemmas input_simps = view_input [THEN run_inv_view] view_consputc [THEN run_inv_view] view_kill_line [THEN run_inv_view]

lemma safe_console_char [safe_ops]: "run_inv a me s \<Longrightarrow> safe a me (console_char a c s)"
  unfolding console_char_def Let_def
  by (auto intro!: safe_intros safe_ops simp: run_simps input_simps)

lemma safe_consoleintr [safe_ops]: "run_inv a me s \<Longrightarrow> safe a me (consoleintr a pcs cs s)"
  unfolding consoleintr_def by (auto intro!: safe_intros safe_ops keep_safe)

lemma safe_consoleread_end [safe_ops]: "run_inv a me s \<Longrightarrow> safe a me (consoleread_end a ip r acc s)"
  unfolding consoleread_end_def by (auto intro!: safe_intros safe_ops keep_safe)

lemma safe_consoleread_loop [safe_ops]: "run_inv a me s \<Longrightarrow> safe a me (consoleread_loop a ip tgt k acc s)"
  by (induction k arbitrary: acc s)
    (auto intro!: safe_intros safe_with_myproc safe_ops simp: input_simps Let_def)

lemma safe_consoleread [safe_ops]: "run_inv a me s \<Longrightarrow> safe a me (consoleread a ip n s)"
  unfolding consoleread_def by (auto intro!: safe_intros safe_ops keep_safe)

lemma view_consputs_fold [view_simps]: "view a (fold (\<lambda>c. consputc (f c)) cs s) = view a s"
  by (induction cs arbitrary: s) (simp_all add: view_simps)

lemma safe_consolewrite [safe_ops]: "run_inv a me s \<Longrightarrow> safe a me (consolewrite a ip buf s)"
  unfolding consolewrite_def Let_def
  by (auto intro!: safe_intros safe_ops keep_safe simp: view_consputs_fold [THEN run_inv_view])

lemma safe_devsw [simp]: "safe_dev a me devsw"
  by (auto simp: safe_dev_def devsw_def intro!: safe_ops split: if_splits)

section \<open>System calls\<close>

lemma safe_sys_sleep_loop [safe_ops]: "run_inv a me s \<Longrightarrow> safe a me (sys_sleep_loop a n t0 s)"
  unfolding sys_sleep_loop_def by (auto intro!: call_intros safe_ops)

lemma safe_process_calls [safe_ops]:
  fixes s1 s2 :: "'e okst_scheme" and s :: "'f pkst_scheme"
  shows "run_inv a me s1 \<Longrightarrow> safe a me (sys_fork a s1)" "run_inv a me s2 \<Longrightarrow> safe a me (sys_exit a s2)"
    "run_inv a me s \<Longrightarrow> safe a me (sys_wait a s)" "run_inv a me s \<Longrightarrow> safe a me (sys_kill a s)"
    "run_inv a me s \<Longrightarrow> safe a me (sys_getpid a s)" "run_inv a me s \<Longrightarrow> safe a me (sys_sbrk a s)"
    "run_inv a me s \<Longrightarrow> safe a me (sys_sleep a s)" "run_inv a me s \<Longrightarrow> safe a me (sys_uptime a s)"
    "run_inv a me s \<Longrightarrow> safe a me (sys_set_deadline_for_process a s)"
    "run_inv a me s \<Longrightarrow> safe a me (sys_print_sched_info a s)"
    "run_inv a me s \<Longrightarrow> safe a me (sys_update_wait_time a s)"
    "run_inv a me s \<Longrightarrow> safe a me (sys_is_higher_waiting a s)"
  unfolding sys_fork_def sys_exit_def sys_wait_def sys_kill_def sys_getpid_def sys_sbrk_def sys_sleep_def
    sys_uptime_def sys_set_deadline_for_process_def sys_print_sched_info_def sys_update_wait_time_def
    sys_is_higher_waiting_def Let_def
  by (auto intro!: call_intros safe_ops)

lemma safe_syscalls:
  assumes "syscalls n = Some f" "n \<noteq> 23" "run_inv a me s" shows "safe a me (f a s)"
  using assms unfolding syscalls_def by (auto intro!: safe_ops split: if_splits)

lemma safe_syscall:
  fixes s :: "'e ikst_scheme"
  assumes r: "run_inv a me s" and n: "tf_eax (tf (prc me s)) \<noteq> 23"
  shows "safe a me (syscall a s)"
  unfolding syscall_def with_myproc_def
proof (rule safe_keep_bnd [of a "view a s"])
  show "keeps a (view a s) (myproc a s)" by (rule keep_ops) simp
  fix p and t :: "'e ikst_scheme" assume m: "myproc a s = Ok p t" and v: "view a t = view a s"
  have p: "p = Some me" using myproc_me [OF m] r by (simp add: run_inv_def)
  have t: "run_inv a me t" using r run_inv_view [OF v] by simp
  have "sint (tf_eax (tf (prc me t))) \<noteq> 23"
  proof
    assume "sint (tf_eax (tf (prc me t))) = 23"
    then have "word_of_int (sint (tf_eax (tf (prc me t)))) = (word_of_int 23 :: u32)" by (rule arg_cong)
    then show False using n v by (simp add: view_def)
  qed
  then show "safe a me (case p of None \<Rightarrow> Panic null_deref | Some i \<Rightarrow>
      let num = sint (tf_eax (tf (prc i t))) in
      case (if num > 0 \<and> num < 29 then syscalls (nat num) else None) of
        Some f \<Rightarrow> bnd (f a t) (\<lambda>r s. Ok () (set_eax i r s))
      | None \<Rightarrow> bnd (cprintf a unknown_call_fmt [pint (pid (prc i t)), PStr (Some (pname (prc i t))), pint num] t)
             (\<lambda>_ s. Ok () (set_eax i (-1) s)))"
    using t p by (auto simp: Let_def intro!: safe_bnd keep_safe safe_syscalls split: option.split if_splits)
qed

section \<open>Traps\<close>

lemma run_inv_tick [simp]: "run_inv a me s \<Longrightarrow> run_inv a me (upd_proc i tick_fields s)"
  by (rule run_inv_upd) (simp_all add: tick_fields_def Let_def same_ids_def)

lemma run_inv_rr_ticks [simp]: "run_inv a me s \<Longrightarrow> run_inv a me (upd_proc i (\<lambda>p. p\<lparr>rr_ticks := f p\<rparr>) s)"
  by (rule run_inv_upd) (simp_all add: same_ids_def)

lemma run_inv_tf [simp]: "run_inv a me s \<Longrightarrow> run_inv a me (upd_proc i (\<lambda>p. p\<lparr>tf := t\<rparr>) s)"
  by (rule run_inv_upd) (simp_all add: same_ids_def)

lemma safe_trap_timer [safe_ops]: "run_inv a me s \<Longrightarrow> safe a me (trap_timer a s)"
  unfolding trap_timer_def Let_def by (auto intro!: safe_intros keep_safe safe_ops simp: run_simps)

lemma safe_trap_messages [safe_ops]:
  fixes s1 :: "'e pkst_scheme" and s2 :: "'f pkst_scheme"
  shows "run_inv a me s1 \<Longrightarrow> safe a me (trap_spurious a t s1)" "run_inv a me s2 \<Longrightarrow> safe a me (trap_fault a cr2 t s2)"
  unfolding trap_spurious_def trap_fault_def by (auto intro!: safe_intros keep_safe)

lemma safe_trap_cause [safe_ops]: "run_inv a me s \<Longrightarrow> safe a me (trap_cause a pcs dev cr2 t s)"
  unfolding trap_cause_def Let_def by (auto intro!: safe_intros safe_ops)

lemma safe_exit_if_killed [safe_ops]: "run_inv a me s \<Longrightarrow> safe a me (exit_if_killed a t s)"
  unfolding exit_if_killed_def by (auto intro!: safe_intros keep_safe safe_ops)

lemma safe_charge_tick [safe_ops]: "run_inv a me s \<Longrightarrow> safe a me (charge_tick a i s)"
  unfolding charge_tick_def Let_def by (auto intro!: safe_intros keep_safe safe_ops)

lemma safe_trap_tick [safe_ops]: "run_inv a me s \<Longrightarrow> safe a me (trap_tick a t s)"
  unfolding trap_tick_def by (auto intro!: safe_intros keep_safe safe_ops)

lemma safe_trap_syscall:
  fixes s :: "'e ikst_scheme"
  assumes r: "run_inv a me s" and n: "tf_eax t \<noteq> 23"
  shows "safe a me (trap_syscall a t s)"
proof -
  have c: "safe a me (syscall a (upd_proc me (\<lambda>p. p\<lparr>tf := t\<rparr>) u))" if u: "run_inv a me u" for u :: "'e ikst_scheme"
    using run_invD [OF u] u n by (intro safe_syscall) (simp_all add: proc_simps)
  show ?thesis
    unfolding trap_syscall_def by (auto intro!: safe_with_myproc safe_intros safe_ops c r)
qed

lemma safe_trap:
  assumes "run_inv a me s" "tf_trapno t = T_SYSCALL \<longrightarrow> tf_eax t \<noteq> 23"
  shows "safe a me (trap a pcs dev cr2 t s)"
  unfolding trap_def using assms by (auto intro!: safe_intros safe_ops safe_trap_syscall)

end
