(* ===== verification/Scheduler.thy ===== *)
theory Scheduler
  imports Proc_Switch
begin

text \<open>
  The per-CPU scheduler, \<^verbatim>\<open>scheduler\<close> of \<^verbatim>\<open>src/proc.c\<close>: earliest deadline first among the
  processes of class 1, else round robin among level 1, else first come first served among
  level 2. The three searches are definitions of their own; one round of the loop is split at
  \<^verbatim>\<open>swtch\<close>. \<^verbatim>\<open>nextrrp\<close> is a local variable of \<^verbatim>\<open>scheduler\<close> and is passed along; \<open>c\<close> is the index
  of this CPU, which the code computes once.
\<close>

section \<open>The searches\<close>

definition rr_eligible :: "proc \<Rightarrow> bool" where
  "rr_eligible p \<longleftrightarrow> \<not> (state p \<noteq> RUNNABLE \<or> sched_level p \<noteq> 1)"

fun edf_loop :: "nat list \<Rightarrow> proc list \<Rightarrow> nat option \<Rightarrow> nat option" where
  "edf_loop [] ps chosen = chosen"
| "edf_loop (i # is) ps chosen =
     edf_loop is ps
       (if edf_ready (ps ! i) then
          (case chosen of
             None \<Rightarrow> Some i
           | Some j \<Rightarrow> if deadline (ps ! i) < deadline (ps ! j) then Some i else chosen)
        else chosen)"

text \<open>\<^verbatim>\<open>if (++p == &ptable.proc[NPROC]) p = ptable.proc;\<close>\<close>

definition next_slot :: "nat \<Rightarrow> nat" where
  "next_slot p = (if Suc p = NPROC then 0 else Suc p)"

text \<open>
  The \<^verbatim>\<open>do ... while (p != nextrrp)\<close>: the process found, and the new \<^verbatim>\<open>nextrrp\<close>. \<open>None\<close> is a loop
  that has not ended within the fuel.
\<close>

fun rr_loop :: "nat \<Rightarrow> proc list \<Rightarrow> nat \<Rightarrow> nat \<Rightarrow> (nat option \<times> nat) option" where
  "rr_loop 0 ps p nextrrp = None"
| "rr_loop (Suc n) ps p nextrrp =
     (if \<not> rr_eligible (ps ! p) then
        (let p' = next_slot p in
         if p' \<noteq> nextrrp then rr_loop n ps p' nextrrp else Some (None, nextrrp))
      else Some (Some p, next_slot p))"

fun fcfs_loop :: "nat list \<Rightarrow> proc list \<Rightarrow> nat option \<Rightarrow> proc list \<times> nat option" where
  "fcfs_loop [] ps chosen = (ps, chosen)"
| "fcfs_loop (i # is) ps chosen =
     (if fcfs_ready (ps ! i) then
        let ps = ps[i := (ps ! i)\<lparr>waited_ticks := waited_ticks (ps ! i) + 1\<rparr>]
        in fcfs_loop is ps
             (case chosen of
                None \<Rightarrow> Some i
              | Some j \<Rightarrow> if arrival_time (ps ! i) < arrival_time (ps ! j) then Some i else chosen)
      else fcfs_loop is ps chosen)"

definition pick_next :: "nat \<Rightarrow> 'e pkst_scheme \<Rightarrow> (nat option \<times> nat, 'e pkst_scheme) res" where
  "pick_next nextrrp s =
     (if count_edf s > 0 then Ok (edf_loop [0..<NPROC] (ptab s) None, nextrrp) s
      else if count_rr s > 0 then
        (case rr_loop NPROC (ptab s) nextrrp nextrrp of
           Some r \<Rightarrow> Ok r s
         | None \<Rightarrow> Panic no_fuel)
      else if count_fcfs s > 0 then
        (let (ps, chosen) = fcfs_loop [0..<NPROC] (ptab s) None in Ok (chosen, nextrrp) (s\<lparr>ptab := ps\<rparr>))
      else Ok (None, nextrrp) s)"

section \<open>One round\<close>

definition set_cpu_proc :: "nat \<Rightarrow> nat option \<Rightarrow> 'e kst_scheme \<Rightarrow> 'e kst_scheme" where
  "set_cpu_proc c p s = s\<lparr>mach := upd_cpu c (\<lambda>x. x\<lparr>cpu_proc := p\<rparr>) (mach s)\<rparr>"

definition scheduler_start :: "nat \<Rightarrow> 'e pkst_scheme \<Rightarrow> (nat, 'e pkst_scheme) res" where
  "scheduler_start a s = bnd (onM (mycpu a) s) (\<lambda>c s. Ok c (set_cpu_proc c None s))"

definition dispatch :: "nat \<Rightarrow> nat \<Rightarrow> nat \<Rightarrow> 'e pkst_scheme \<Rightarrow> (unit, 'e pkst_scheme) res" where
  "dispatch a c i s =
     bnd (switchuvm a (Some i) (set_cpu_proc c (Some i) s)) (\<lambda>_ s.
     let s = upd_proc i (\<lambda>p. p\<lparr>state := RUNNING\<rparr>) s;
         s = count_add (- 1) i s;
         s = upd_proc i (\<lambda>p. p\<lparr>consecutive_run := 0, rr_ticks := 0, waited_ticks := 0\<rparr>) s in
     bnd (acquire a TicksLock s) (\<lambda>_ s.
     release a TicksLock (upd_proc i (\<lambda>p. p\<lparr>last_run := sint (ticks s)\<rparr>) s)))"

text \<open>
  From \<^verbatim>\<open>sti()\<close> to \<^verbatim>\<open>swtch\<close>, or to the end of the round if there is nothing to run. When a process is
  chosen control is in its context, with \<^verbatim>\<open>ptable.lock\<close> held.
\<close>

definition scheduler_round :: "nat \<Rightarrow> nat \<Rightarrow> nat \<Rightarrow> 'e pkst_scheme \<Rightarrow> (nat option \<times> nat, 'e pkst_scheme) res" where
  "scheduler_round a c nextrrp s =
     bnd (acquire a PtableLock (s\<lparr>mach := set_if a True (mach s)\<rparr>)) (\<lambda>_ s.
     bnd (pick_next nextrrp s) (\<lambda>r s.
     case r of
       (Some i, nx) \<Rightarrow> bnd (dispatch a c i s) (\<lambda>_ s. Ok (Some i, nx) s)
     | (None, nx) \<Rightarrow> bnd (release a PtableLock s) (\<lambda>_ s. Ok (None, nx) s)))"

text \<open>After \<^verbatim>\<open>swtch\<close> returned: the rest of the round.\<close>

definition scheduler_return :: "nat \<Rightarrow> nat \<Rightarrow> 'e pkst_scheme \<Rightarrow> (unit, 'e pkst_scheme) res" where
  "scheduler_return a c s = release a PtableLock (set_cpu_proc c None (switchkvm a s))"

section \<open>What the searches find\<close>

text \<open>
  \<open>best P key is r\<close>: \<open>r\<close> is the first element of the least key among the elements of \<open>is\<close> that
  satisfy \<open>P\<close>, and \<open>None\<close> only if there is none. \<open>first_min\<close> computes it as both searches do.
\<close>

definition best :: "(nat \<Rightarrow> bool) \<Rightarrow> (nat \<Rightarrow> int) \<Rightarrow> nat list \<Rightarrow> nat option \<Rightarrow> bool" where
  "best P key is r \<longleftrightarrow>
     (case r of
        None \<Rightarrow> \<forall>i \<in> set is. \<not> P i
      | Some j \<Rightarrow> j \<in> set is \<and> P j \<and>
          (\<forall>i \<in> set is. P i \<longrightarrow> key j \<le> key i \<and> (i < j \<longrightarrow> key j < key i)))"

definition min_step :: "(nat \<Rightarrow> bool) \<Rightarrow> (nat \<Rightarrow> int) \<Rightarrow> nat \<Rightarrow> nat option \<Rightarrow> nat option" where
  "min_step P key i r =
     (if P i then (case r of None \<Rightarrow> Some i | Some j \<Rightarrow> if key i < key j then Some i else r) else r)"

definition first_min :: "(nat \<Rightarrow> bool) \<Rightarrow> (nat \<Rightarrow> int) \<Rightarrow> nat \<Rightarrow> nat option" where
  "first_min P key n = fold (min_step P key) [0..<n] None"

lemma first_min_best: "best P key [0..<n] (first_min P key n)"
proof (induction n)
  case (Suc n)
  have step: "first_min P key (Suc n) = min_step P key n (first_min P key n)"
    by (simp add: first_min_def)
  have dom: "set [0..<Suc n] = insert n (set [0..<n])" by auto
  show ?case
  proof (cases "first_min P key n")
    case None
    then show ?thesis using Suc by (auto simp: step best_def min_step_def dom less_Suc_eq simp del: upt_Suc)
  next
    case (Some j)
    then have j: "j < n" "P j" "\<And>i. i < n \<Longrightarrow> P i \<Longrightarrow> key j \<le> key i \<and> (i < j \<longrightarrow> key j < key i)"
      using Suc by (auto simp: best_def)
    have new: "first_min P key (Suc n) = (if P n \<and> key n < key j then Some n else Some j)"
      using Some by (simp add: step min_step_def)
    show ?thesis
    proof (cases "P n \<and> key n < key j")
      case True
      then have "key n < key i" if "i < n" "P i" for i using j(3) [OF that] by linarith
      then show ?thesis
        using True by (auto simp: new best_def less_Suc_eq less_imp_le simp del: upt_Suc)
    next
      case False
      then show ?thesis using j by (auto simp: new best_def less_Suc_eq simp del: upt_Suc)
    qed
  qed
qed (simp add: best_def first_min_def)

lemma edf_loop_min:
  "edf_loop is ps r = fold (min_step (\<lambda>i. edf_ready (ps ! i)) (\<lambda>i. deadline (ps ! i))) is r"
  by (induction "is" arbitrary: r) (auto simp: min_step_def split: option.splits)

lemma fcfs_touch:
  "fcfs_ready ((ps[i := (ps ! i)\<lparr>waited_ticks := w\<rparr>]) ! j) = fcfs_ready (ps ! j)"
  "arrival_time ((ps[i := (ps ! i)\<lparr>waited_ticks := w\<rparr>]) ! j) = arrival_time (ps ! j)"
proof -
  have "\<exists>v. (ps[i := (ps ! i)\<lparr>waited_ticks := w\<rparr>]) ! j = (ps ! j)\<lparr>waited_ticks := v\<rparr>"
  proof (cases "i < length ps \<and> i = j")
    case False
    then have "(ps[i := (ps ! i)\<lparr>waited_ticks := w\<rparr>]) ! j = ps ! j" by (auto simp: list_update_beyond)
    then show ?thesis by (intro exI [of _ "waited_ticks (ps ! j)"]) simp
  qed auto
  then show "fcfs_ready ((ps[i := (ps ! i)\<lparr>waited_ticks := w\<rparr>]) ! j) = fcfs_ready (ps ! j)"
    "arrival_time ((ps[i := (ps ! i)\<lparr>waited_ticks := w\<rparr>]) ! j) = arrival_time (ps ! j)"
    by (auto simp: fcfs_ready_def)
qed

lemma fcfs_loop_min:
  "snd (fcfs_loop is ps r) =
     fold (min_step (\<lambda>i. fcfs_ready (ps ! i)) (\<lambda>i. arrival_time (ps ! i))) is r"
  by (induction "is" arbitrary: ps r) (auto simp: min_step_def Let_def fcfs_touch split: option.splits)

text \<open>The FCFS search counts a round of waiting for every ready process and changes nothing else.\<close>

definition waited1 :: "proc \<Rightarrow> proc" where
  "waited1 p = (if fcfs_ready p then p\<lparr>waited_ticks := waited_ticks p + 1\<rparr> else p)"

lemma fcfs_loop_tab:
  assumes "distinct is"
  shows "length (fst (fcfs_loop is ps r)) = length ps \<and>
    (\<forall>j < length ps. fst (fcfs_loop is ps r) ! j = (if j \<in> set is then waited1 (ps ! j) else ps ! j))"
  using assms
proof (induction "is" arbitrary: ps r)
  case (Cons i "is")
  let ?ps = "if fcfs_ready (ps ! i) then ps[i := (ps ! i)\<lparr>waited_ticks := waited_ticks (ps ! i) + 1\<rparr>] else ps"
  have "\<exists>r'. fcfs_loop (i # is) ps r = fcfs_loop is ?ps r'"
    by (cases "fcfs_ready (ps ! i)") (simp_all only: fcfs_loop.simps Let_def if_True if_False, blast+)
  then obtain r' where r': "fcfs_loop (i # is) ps r = fcfs_loop is ?ps r'" by blast
  have "?ps ! j = (if j = i then waited1 (ps ! j) else ps ! j)" if "j < length ps" for j
    using that by (auto simp: waited1_def nth_list_update)
  moreover have "length ?ps = length ps" by simp
  ultimately show ?case
    using Cons.IH [of ?ps r'] Cons.prems unfolding r' by auto
qed simp

lemma fcfs_loop_all: "fst (fcfs_loop [0..<length ps] ps None) = map waited1 ps"
  by (rule nth_equalityI) (simp_all add: fcfs_loop_tab)

section \<open>Round robin\<close>

text \<open>The slots in the order in which the loop visits them from \<open>p\<close> until it is back at \<open>nx\<close>.\<close>

definition rr_rest :: "nat \<Rightarrow> nat \<Rightarrow> nat list" where
  "rr_rest p nx = (if p < nx then [p..<nx] else [p..<NPROC] @ [0..<nx])"

definition rr_order :: "nat \<Rightarrow> nat list" where
  "rr_order nx = rr_rest nx nx"

lemma rr_rest_step:
  assumes "p < NPROC" "nx < NPROC"
  shows "rr_rest p nx = p # (if next_slot p = nx then [] else rr_rest (next_slot p) nx)"
  using assms
  by (auto simp: rr_rest_def next_slot_def upt_conv_Cons not_less_eq less_Suc_eq)

lemma next_slot_less [simp]: "p < NPROC \<Longrightarrow> next_slot p < NPROC"
  by (simp add: next_slot_def)

lemma rr_loop_find:
  assumes "p < NPROC" "nx < NPROC" "length (rr_rest p nx) \<le> n"
  shows "rr_loop n ps p nx =
     Some (case find (\<lambda>i. rr_eligible (ps ! i)) (rr_rest p nx) of
             None \<Rightarrow> (None, nx)
           | Some i \<Rightarrow> (Some i, next_slot i))"
  using assms
proof (induction n arbitrary: p)
  case 0
  then show ?case using rr_rest_step [of p nx] by simp
next
  case (Suc n)
  note step = rr_rest_step [OF Suc.prems(1,2)]
  show ?case
    using Suc.IH [of "next_slot p"] Suc.prems step by (auto simp: Let_def)
qed

lemma length_rr_order [simp]: "nx < NPROC \<Longrightarrow> length (rr_order nx) = NPROC"
  by (simp add: rr_order_def rr_rest_def)

lemma set_rr_order [simp]: "nx < NPROC \<Longrightarrow> set (rr_order nx) = {0..<NPROC}"
  by (auto simp: rr_order_def rr_rest_def)

lemma rr_loop_order:
  "nx < NPROC \<Longrightarrow> rr_loop NPROC ps nx nx =
     Some (case find (\<lambda>i. rr_eligible (ps ! i)) (rr_order nx) of
             None \<Rightarrow> (None, nx)
           | Some i \<Rightarrow> (Some i, next_slot i))"
  using rr_loop_find [of nx nx NPROC ps] length_rr_order [of nx] by (simp add: rr_order_def)

section \<open>The policy\<close>

text \<open>
  What the scheduler promises, stated on the process table alone: if a process of class 1 is
  runnable, the one with the earliest deadline runs (the first in the table among equals); else,
  if one of level 1 is, the first in cyclic order from \<^verbatim>\<open>nextrrp\<close> runs and \<^verbatim>\<open>nextrrp\<close> moves behind
  it; else the process of level 2 that arrived first; else nothing runs.
\<close>

definition policy :: "proc list \<Rightarrow> nat \<Rightarrow> nat option \<Rightarrow> nat \<Rightarrow> bool" where
  "policy ps nx r nx' \<longleftrightarrow>
     (if \<exists>i < NPROC. edf_ready (ps ! i) then
        r \<noteq> None \<and> best (\<lambda>i. edf_ready (ps ! i)) (\<lambda>i. deadline (ps ! i)) [0..<NPROC] r \<and> nx' = nx
      else if \<exists>i < NPROC. rr_ready (ps ! i) then
        r \<noteq> None \<and> r = find (\<lambda>i. rr_ready (ps ! i)) (rr_order nx) \<and> nx' = next_slot (the r)
      else if \<exists>i < NPROC. fcfs_ready (ps ! i) then
        r \<noteq> None \<and> best (\<lambda>i. fcfs_ready (ps ! i)) (\<lambda>i. arrival_time (ps ! i)) [0..<NPROC] r \<and> nx' = nx
      else r = None \<and> nx' = nx)"

lemma best_exists: "best P key is r \<Longrightarrow> i \<in> set is \<Longrightarrow> P i \<Longrightarrow> r \<noteq> None"
  by (auto simp: best_def split: option.splits)

lemma counts_pos:
  assumes "sched_inv s"
  shows "0 < count_edf s \<longleftrightarrow> (\<exists>i < NPROC. edf_ready (prc i s))"
    and "0 < count_rr s \<longleftrightarrow> (\<exists>i < NPROC. rr_ready (prc i s))"
    and "0 < count_fcfs s \<longleftrightarrow> (\<exists>i < NPROC. fcfs_ready (prc i s))"
  using assms by (simp_all add: sched_inv_def counts_ok_def cnt_pos_iff)

lemma rr_eligible_ready: "sched_inv s \<Longrightarrow> i < NPROC \<Longrightarrow> rr_eligible (prc i s) = rr_ready (prc i s)"
  by (auto simp: sched_inv_def rr_eligible_def rr_ready_def class_ok_def)

lemma find_cong_set: "(\<And>x. x \<in> set xs \<Longrightarrow> P x = Q x) \<Longrightarrow> find P xs = find Q xs"
  by (induction xs) auto

lemma find_None_iff_set: "find P xs = None \<longleftrightarrow> (\<forall>x \<in> set xs. \<not> P x)"
  by (induction xs) auto

text \<open>The table that the search leaves: only the FCFS search writes to it.\<close>

definition scanned :: "'e pkst_scheme \<Rightarrow> 'e pkst_scheme" where
  "scanned s =
     (if count_edf s > 0 \<or> count_rr s > 0 \<or> \<not> count_fcfs s > 0 then s
      else s\<lparr>ptab := map waited1 (ptab s)\<rparr>)"

lemma pick_next_policy:
  assumes inv: "sched_inv s" and nx: "nx < NPROC"
  shows "\<exists>r nx'. pick_next nx s = Ok (r, nx') (scanned s) \<and> policy (ptab s) nx r nx'"
proof -
  have len: "length (ptab s) = NPROC" using inv by (rule sched_inv_length)
  consider (edf) "0 < count_edf s" | (rr) "\<not> 0 < count_edf s" "0 < count_rr s"
    | (fcfs) "\<not> 0 < count_edf s" "\<not> 0 < count_rr s" "0 < count_fcfs s"
    | (idle) "\<not> 0 < count_edf s" "\<not> 0 < count_rr s" "\<not> 0 < count_fcfs s" by blast
  then show ?thesis
  proof cases
    case edf
    let ?r = "first_min (\<lambda>i. edf_ready (prc i s)) (\<lambda>i. deadline (prc i s)) NPROC"
    have ex: "\<exists>i < NPROC. edf_ready (prc i s)" using counts_pos(1) [OF inv] edf by blast
    have best: "best (\<lambda>i. edf_ready (prc i s)) (\<lambda>i. deadline (prc i s)) [0..<NPROC] ?r"
      by (rule first_min_best)
    have "?r \<noteq> None" using ex best_exists [OF best] by auto
    then show ?thesis
      using edf ex best by (auto simp: pick_next_def edf_loop_min first_min_def policy_def scanned_def)
  next
    case rr
    have no: "\<not> (\<exists>i < NPROC. edf_ready (prc i s))" and ex: "\<exists>i < NPROC. rr_ready (prc i s)"
      using counts_pos(1,2) [OF inv] rr by blast+
    have same: "find (\<lambda>i. rr_eligible (prc i s)) (rr_order nx) = find (\<lambda>i. rr_ready (prc i s)) (rr_order nx)"
      using nx rr_eligible_ready [OF inv] by (intro find_cong_set) simp
    have "find (\<lambda>i. rr_ready (prc i s)) (rr_order nx) \<noteq> None"
      using ex nx by (auto simp: find_None_iff_set)
    then obtain j where "find (\<lambda>i. rr_ready (prc i s)) (rr_order nx) = Some j" by blast
    then show ?thesis
      using rr no ex same rr_loop_order [OF nx, of "ptab s"]
      by (auto simp: pick_next_def policy_def scanned_def)
  next
    case fcfs
    let ?r = "first_min (\<lambda>i. fcfs_ready (prc i s)) (\<lambda>i. arrival_time (prc i s)) NPROC"
    have no: "\<not> (\<exists>i < NPROC. edf_ready (prc i s))" "\<not> (\<exists>i < NPROC. rr_ready (prc i s))"
      and ex: "\<exists>i < NPROC. fcfs_ready (prc i s)"
      using counts_pos [OF inv] fcfs by blast+
    have best: "best (\<lambda>i. fcfs_ready (prc i s)) (\<lambda>i. arrival_time (prc i s)) [0..<NPROC] ?r"
      by (rule first_min_best)
    have "?r \<noteq> None" using ex best_exists [OF best] by auto
    moreover have "fcfs_loop [0..<NPROC] (ptab s) None = (map waited1 (ptab s), ?r)"
      using fcfs_loop_min [of "[0..<NPROC]" "ptab s" None] fcfs_loop_all [of "ptab s"] len
      by (auto simp: first_min_def intro: prod_eqI)
    ultimately show ?thesis
      using fcfs no ex best by (auto simp: pick_next_def policy_def scanned_def)
  next
    case idle
    then show ?thesis
      using counts_pos [OF inv] by (auto simp: pick_next_def policy_def scanned_def)
  qed
qed

lemma rr_found:
  "Some j = find (\<lambda>i. P (ps ! i)) (rr_order nx) \<Longrightarrow> nx < NPROC \<Longrightarrow> j < NPROC \<and> P (ps ! j)"
  using find_SomeD [of "\<lambda>i. P (ps ! i)" "rr_order nx" j] by auto

lemma policy_runnable:
  "policy ps nx r nx' \<Longrightarrow> r = Some j \<Longrightarrow> nx < NPROC \<Longrightarrow>
   j < NPROC \<and> (edf_ready (ps ! j) \<or> rr_ready (ps ! j) \<or> fcfs_ready (ps ! j))"
  by (auto simp: policy_def best_def dest: rr_found split: if_splits)

lemma policy_next: "policy ps nx r nx' \<Longrightarrow> nx < NPROC \<Longrightarrow> nx' < NPROC"
proof (cases r)
  case (Some j)
  assume "policy ps nx r nx'" "nx < NPROC"
  then show ?thesis using Some by (auto simp: policy_def dest: rr_found split: if_splits)
qed (auto simp: policy_def split: if_splits)

lemma scanned_fields [simp]:
  "mach (scanned s) = mach s" "ticks (scanned s) = ticks s" "nextpid (scanned s) = nextpid s"
  "count_edf (scanned s) = count_edf s" "count_rr (scanned s) = count_rr s" "count_fcfs (scanned s) = count_fcfs s"
  "length (ptab (scanned s)) = length (ptab s)" "locks_free (scanned s) m = locks_free s m"
  by (simp_all add: scanned_def locks_free_def)

lemma waited1_fields [simp]:
  "state (waited1 p) = state p" "pid (waited1 p) = pid p" "sched_class (waited1 p) = sched_class p"
  "sched_level (waited1 p) = sched_level p" "kstack (waited1 p) = kstack p" "pgdir (waited1 p) = pgdir p"
  "kctxt (waited1 p) = kctxt p" "edf_ready (waited1 p) = edf_ready p" "rr_ready (waited1 p) = rr_ready p"
  "fcfs_ready (waited1 p) = fcfs_ready p" "class_ok (waited1 p) = class_ok p"
  by (simp_all add: waited1_def edf_ready_def rr_ready_def fcfs_ready_def class_ok_def)

lemma scanned_nth:
  "i < length (ptab s) \<Longrightarrow> prc i (scanned s) = prc i s \<or> prc i (scanned s) = waited1 (prc i s)"
  by (simp add: scanned_def)

lemma cnt_map: "cnt P (map f xs) = cnt (P \<circ> f) xs"
  by (induction xs) simp_all

lemma sched_inv_scanned: "sched_inv s \<Longrightarrow> sched_inv (scanned s)"
proof -
  assume inv: "sched_inv s"
  have "cnt P (map waited1 (ptab s)) = cnt P (ptab s)" if "\<And>p. P (waited1 p) = P p" for P
    using that by (simp add: cnt_map comp_def)
  then show ?thesis
    using inv by (auto simp: sched_inv_def counts_ok_def pids_ok_def scanned_def)
qed

section \<open>Dispatching\<close>

text \<open>A process that may be switched to has a kernel stack and a page table.\<close>

definition has_memory :: "'e pkst_scheme \<Rightarrow> bool" where
  "has_memory s \<longleftrightarrow> (\<forall>i < NPROC. state (prc i s) = RUNNABLE \<longrightarrow> kstack (prc i s) \<noteq> 0 \<and> pgdir (prc i s) \<noteq> 0)"

definition running_mach :: "nat \<Rightarrow> nat \<Rightarrow> nat \<Rightarrow> proc \<Rightarrow> mach \<Rightarrow> mach" where
  "running_mach a c i p m =
     set_cr3 a (V2P (pgdir p)) (upd_cpu c (\<lambda>x. x\<lparr>cpu_esp0 := esp0_of p\<rparr>) (upd_cpu c (\<lambda>x. x\<lparr>cpu_proc := Some i\<rparr>) m))"

definition dispatched :: "nat \<Rightarrow> 'e pkst_scheme \<Rightarrow> 'e pkst_scheme" where
  "dispatched i s =
     upd_proc i (\<lambda>p. p\<lparr>consecutive_run := 0, rr_ticks := 0, waited_ticks := 0, last_run := sint (ticks s)\<rparr>)
       (count_add (- 1) i (upd_proc i (\<lambda>p. p\<lparr>state := RUNNING\<rparr>) s))"

lemma running_mach_fields [simp]:
  "lk_free l (running_mach a c i p m) = lk_free l m" "cpu_ready b (running_mach a c i p m) = cpu_ready b m"
  "ncli_of b (running_mach a c i p m) = ncli_of b m" "eif (running_mach a c i p m) = eif m"
  by (simp_all add: running_mach_def)

lemma cpu_ix_running [simp]: "cpu_ix b (running_mach a c i p m) = cpu_ix b m"
  by (simp only: running_mach_def set_cr3_fields mach_fields
      scan_upd_cpu [OF cpu_upd_esp0] scan_upd_cpu [OF cpu_upd_proc])

lemma cur_running: "cpu_ix a m = Some c \<Longrightarrow> cur a (running_mach a c i p m) = Some i"
  unfolding cur_def cpu_ix_running by (auto simp: running_mach_def dest!: cpu_ix_SomeD)

lemma crit_upd_mach: "crit a m s \<Longrightarrow> cpu_ready a m' \<Longrightarrow> (\<And>l. lk_free l m' = lk_free l m) \<Longrightarrow>
    crit a m' (s\<lparr>mach := acq a PtableLock m'\<rparr>)"
  by (simp add: crit_def locks_free_def)

lemma dispatch_ok:
  assumes c: "crit a m s" and ix: "cpu_ix a m = Some k" and ks: "kstack (prc i s) \<noteq> 0" "pgdir (prc i s) \<noteq> 0"
    and l: "i < length (ptab s)"
  defines "m' \<equiv> running_mach a k i (prc i s) m"
  shows "dispatch a k i s = Ok () (dispatched i (s\<lparr>mach := acq a PtableLock m'\<rparr>))"
    and "crit a m' (dispatched i (s\<lparr>mach := acq a PtableLock m'\<rparr>))"
proof -
  let ?m1 = "upd_cpu k (\<lambda>x. x\<lparr>cpu_proc := Some i\<rparr>) m"
  let ?s1 = "s\<lparr>mach := acq a PtableLock ?m1\<rparr>" and ?s2 = "s\<lparr>mach := acq a PtableLock m'\<rparr>"
  have m: "mach s = acq a PtableLock m" "cpu_ready a m" using c by (simp_all add: crit_def)
  have s1: "set_cpu_proc k (Some i) s = ?s1" using m by (simp add: set_cpu_proc_def acq_upd_cpu)
  have c1: "crit a ?m1 ?s1" using c m by (intro crit_upd_mach [of a m s]) simp_all
  have "switchuvm a (Some i) ?s1 = Ok () ?s2"
    using switchuvm_ok [OF c1, of k i] ix ks by (simp add: m'_def running_mach_def)
  moreover have c2: "crit a m' ?s2" using c m by (intro crit_upd_mach [of a m s]) (simp_all add: m'_def)
  then show "crit a m' (dispatched i ?s2)" by (simp add: dispatched_def)
  have r: "ready a ?s2" "free TicksLock ?s2" "settle a (mach ?s2) = mach ?s2"
    using c2 by (simp_all only: crit_ready crit_free_ticks crit_settle)
  let ?g = "\<lambda>p :: proc. p\<lparr>consecutive_run := 0, rr_ticks := 0, waited_ticks := 0\<rparr>"
  have e: "(\<lambda>p. p\<lparr>last_run := t\<rparr>) \<circ> ?g =
      (\<lambda>p. p\<lparr>consecutive_run := 0, rr_ticks := 0, waited_ticks := 0, last_run := t\<rparr>)" for t
    by auto
  ultimately show "dispatch a k i s = Ok () (dispatched i ?s2)"
    using r by (simp add: dispatch_def s1 Let_def acquire_kst release_kst [of _ _ _ "mach ?s2"]
        proc_simps dispatched_def e)
qed

lemma sched_inv_dispatched:
  assumes "sched_inv s" "i < NPROC" "state (prc i s) = RUNNABLE"
  shows "sched_inv (dispatched i s)"
  unfolding dispatched_def
  by (rule sched_inv_quiet_upd, rule sched_inv_leave) (use assms in \<open>auto simp: same_ids_def\<close>)

end
