(* ===== verification/Sample.thy ===== *)
theory Sample
  imports Kernel_Trap Scheduler
begin

text \<open>
  Concrete kernel states, on which the theorems about states with some property are applied: a
  machine with one CPU, no lock taken, and a process table of a few given processes.
\<close>

definition free_slot :: proc where
  "free_slot = \<lparr>sz = 0, pgdir = 0, kstack = 0, state = UNUSED, pid = 0, parent = None, tf = zero_tf,
     kctxt = NoContext, pchan = None, killed = False, ofile = replicate NOFILE None, cwd = None, pname = '''',
     sched_class = 0, sched_level = 0, deadline = 0, rr_ticks = 0, runnig_time = 0, arrival_time = 0,
     waited_ticks = 0, consecutive_run = 0, max_consecutive_run = 0, last_run = 0\<rparr>"

text \<open>A process with id \<open>n\<close> in state \<open>st\<close> of class \<open>c\<close> and level \<open>l\<close>, with a stack and a page table.\<close>

definition a_proc :: "int \<Rightarrow> procstate \<Rightarrow> int \<Rightarrow> int \<Rightarrow> proc" where
  "a_proc n st c l = free_slot\<lparr>pid := n, state := st, sched_class := c, sched_level := l,
     kstack := 0x8DFFE000, pgdir := 0x8DFFF000, kctxt := AtForkret\<rparr>"

definition table :: "proc list \<Rightarrow> proc list" where
  "table ps = ps @ replicate (NPROC - length ps) free_slot"

definition sample :: "nat option \<Rightarrow> proc list \<Rightarrow> ikst" where
  "sample c ps = \<lparr>mach = one_cpu c, cons_locking = True, cons_out = '''', pmem = (\<lambda>_. 0), kmem_use_lock = True,
     freelist = 0, kernel_end = 0x80120000, kernel_data = 0x80108000, kpgdir = 0, ptab = table ps,
     count_edf = cnt edf_ready (table ps), count_rr = cnt rr_ready (table ps),
     count_fcfs = cnt fcfs_ready (table ps), nextpid = 100, initproc = Some 0, ticks = 7,
     slocks = (\<lambda>_. \<lparr>sl_locked = False, sl_name = '''', sl_pid = 0\<rparr>), bufs = [], lru = [], disk = [], wtrace = [],
     klog = \<lparr>lg_start = 0, lg_size = 0, lg_outstanding = 0, lg_committing = False, lg_dev = 0, lh_n = 0, lh_block = []\<rparr>,
     sb = \<lparr>sb_size = 0, sb_nblocks = 0, sb_ninodes = 0, sb_nlog = 0, sb_logstart = 0, sb_inodestart = 0, sb_bmapstart = 0\<rparr>,
     icache = [], pipes = (\<lambda>_. \<lparr>p_data = [], nread = 0, nwrite = 0, readopen = False, writeopen = False\<rparr>),
     ftab = [], fork_first = False, inbuf = replicate INPUT_BUF 0, in_r = 0, in_w = 0, in_e = 0\<rparr>"

lemma cpu_ix_one_cpu [simp]: "cpu_ix 0 (one_cpu p) = Some 0"
  by (simp add: one_cpu_def)

lemma sample_fields [simp]:
  "mach (sample c ps) = one_cpu c" "ptab (sample c ps) = table ps" "ticks (sample c ps) = 7"
  "nextpid (sample c ps) = 100" "initproc (sample c ps) = Some 0" "cons_locking (sample c ps) = True"
  "count_edf (sample c ps) = cnt edf_ready (table ps)" "count_rr (sample c ps) = cnt rr_ready (table ps)"
  "count_fcfs (sample c ps) = cnt fcfs_ready (table ps)"
  by (simp_all add: sample_def)

lemma a_proc_fields [simp]:
  "pid (a_proc n st c l) = n" "state (a_proc n st c l) = st" "sched_class (a_proc n st c l) = c"
  "sched_level (a_proc n st c l) = l" "arrival_time (a_proc n st c l) = 0" "deadline (a_proc n st c l) = 0"
  "kstack (a_proc n st c l) = 0x8DFFE000" "pgdir (a_proc n st c l) = 0x8DFFF000"
  "rr_ticks (a_proc n st c l) = 0" "killed (a_proc n st c l) = False" "pchan (a_proc n st c l) = None"
  "parent (a_proc n st c l) = None"
  by (simp_all add: a_proc_def free_slot_def)

lemma free_slot_fields [simp]:
  "state free_slot = UNUSED" "pid free_slot = 0" "killed free_slot = False" "kstack free_slot = 0"
  by (simp_all add: free_slot_def)

lemma free_slot_ready [simp]: "\<not> edf_ready free_slot" "\<not> rr_ready free_slot" "\<not> fcfs_ready free_slot"
  by (simp_all add: edf_ready_def rr_ready_def fcfs_ready_def)

lemma cnt_append: "cnt P (xs @ ys) = cnt P xs + cnt P ys"
  by (simp add: cnt_def)

lemma cnt_replicate: "\<not> P x \<Longrightarrow> cnt P (replicate n x) = 0"
  by (simp add: cnt_def)

lemma cnt_table [simp]: "\<not> P free_slot \<Longrightarrow> cnt P (table ps) = cnt P ps"
  by (simp add: table_def cnt_append cnt_replicate)

lemma table_nth:
  "i < NPROC \<Longrightarrow> table ps ! i = (if i < length ps then ps ! i else free_slot)"
  by (simp add: table_def nth_append)

lemma length_table [simp]: "length ps \<le> NPROC \<Longrightarrow> length (table ps) = NPROC"
  by (simp add: table_def)

text \<open>The processes of a sample that satisfies the invariant.\<close>

definition fine :: "proc list \<Rightarrow> bool" where
  "fine ps \<longleftrightarrow> length ps \<le> NPROC \<and> list_all (\<lambda>p. 0 < pid p \<and> pid p < 100 \<and> class_ok p) ps \<and> distinct (map pid ps)"

lemma sample_inv: "fine ps \<Longrightarrow> sched_inv (sample c ps)"
  by (auto simp: fine_def sched_inv_def counts_ok_def pids_ok_def table_nth list_all_length
      distinct_conv_nth)

lemma sample_quiet [simp]: "quiet 0 (sample c ps)"
  by (simp add: quiet_def locks_free_def)

lemma sample_memory: "list_all (\<lambda>p. kstack p \<noteq> 0 \<and> pgdir p \<noteq> 0) ps \<Longrightarrow> has_memory (sample c ps)"
  by (auto simp: has_memory_def table_nth list_all_length)

end
