(* ===== verification/Proc_Props.thy ===== *)
theory Proc_Props
  imports Sched_Props
begin

text \<open>
  The properties of processes: what a wake-up, a kill, aging and the clock do to the process table,
  that no wake-up is lost, that process ids are unique, and where the code breaks its own rules.
\<close>

section \<open>The invariant through every trap\<close>

text \<open>
  C3. Whatever a running process traps into, be it an interrupt, a fault or any system call but
  \<^verbatim>\<open>change_sched_level\<close>, the counters of the three classes still agree with the process table, process
  ids stay unique and the process still runs when the trap returns; if the trap gives the CPU away
  the invariant holds there.
\<close>

theorem trap_keeps_sched_inv:
  fixes s :: "'e ikst_scheme"
  assumes "run_inv a me s" "tf_trapno t = T_SYSCALL \<longrightarrow> tf_eax t \<noteq> 23"
  shows "(\<forall>r u. trap a pcs dev cr2 t s = Ok r u \<longrightarrow> run_inv a me u) \<and> (\<forall>u. trap a pcs dev cr2 t s = Off u \<longrightarrow> sched_inv u)"
  using safe_trap [OF assms, of pcs dev cr2] by (auto simp: safe_def)

text \<open>The first process runs with round robin, the second waits for an event, two are ready.\<close>

definition crew :: "proc list" where
  "crew = [a_proc 1 RUNNING 2 1, (a_proc 2 SLEEPING 2 2)\<lparr>pchan := Some ChInput\<rparr>, a_proc 3 RUNNABLE 2 2,
     a_proc 4 RUNNABLE 1 0]"

lemma crew_fine [simp]: "fine crew"
  by (simp add: crew_def fine_def class_ok_def NPROC_def)

lemma crew_run: "run_inv 0 0 (sample (Some 0) crew)"
  using sample_inv [OF crew_fine] by (simp add: run_inv_def table_def crew_def)

definition clock_tf :: trapframe where "clock_tf = zero_tf\<lparr>tf_trapno := 32, tf_cs := 27\<rparr>"

definition getpid_tf :: trapframe where "getpid_tf = zero_tf\<lparr>tf_trapno := 64, tf_cs := 27, tf_eax := 11\<rparr>"

lemma myproc_sample: "mach s = one_cpu (Some 0) \<Longrightarrow> myproc 0 s = Ok (Some 0) s"
  by (simp add: myproc_ok)

lemma trap_getpid: "\<exists>u. trap 0 (\<lambda>_. []) [] 0 getpid_tf (sample (Some 0) crew) = Ok () u"
proof -
  have l: "length (table crew) = NPROC" "table crew ! 0 = a_proc 1 RUNNING 2 1"
    by (simp_all add: crew_def table_def NPROC_def)
  let ?s = "upd_proc 0 (\<lambda>p. p\<lparr>tf := getpid_tf\<rparr>) (sample (Some 0) crew)"
  have "syscall 0 ?s = Ok () (set_eax 0 1 ?s)"
    using l by (simp add: syscall_def with_myproc_def myproc_sample proc_simps getpid_tf_def syscalls_def sys_getpid_def)
  then show ?thesis
    using l by (simp add: trap_def trap_syscall_def with_myproc_def myproc_sample proc_simps getpid_tf_def T_SYSCALL_def set_eax_def)
qed

theorem trap_keeps_sched_inv_witness:
  "\<exists>u. trap 0 (\<lambda>_. []) [] 0 getpid_tf (sample (Some 0) crew) = Ok () u \<and> run_inv 0 0 u"
  using trap_getpid trap_keeps_sched_inv [OF crew_run, of getpid_tf "\<lambda>_. []" "[]" 0] by (auto simp: getpid_tf_def)

section \<open>Waking and killing\<close>

lemma quiet_settled [simp]: "quiet a (settled a s) = quiet a s"
  by (simp add: quiet_def settled_def locks_free_def)

lemma quiet_woken [simp]: "quiet a (woken ch s) = quiet a s"
proof -
  have "quiet a (fold (wake_step ch) is s) = quiet a s" for "is"
    by (induction "is" arbitrary: s) (simp_all add: wake_step_def runnable_at_def)
  then show ?thesis by (simp add: woken_def)
qed

text \<open>
  C18. \<^verbatim>\<open>wakeup(chan)\<close> makes exactly the processes that sleep on \<^verbatim>\<open>chan\<close> runnable, stamps their arrival with
  the current tick, changes no other process and keeps the invariant.
\<close>

theorem wakeup_exact:
  assumes "quiet a s" "sched_inv s"
  shows "\<exists>t. wakeup a ch s = Ok () t \<and> sched_inv t \<and> quiet a t \<and>
    (\<forall>i < NPROC. prc i t = (if state (prc i s) = SLEEPING \<and> pchan (prc i s) = Some ch
       then (prc i s)\<lparr>state := RUNNABLE, arrival_time := sint (ticks s), waited_ticks := 0\<rparr> else prc i s))"
proof -
  let ?t = "woken (Some ch) (settled a s)"
  have l: "length (ptab (settled a s)) = NPROC" using sched_inv_length [OF assms(2)] by simp
  have "quiet a ?t" using assms(1) by simp
  moreover have "sched_inv ?t" using assms(2) by (simp add: sched_inv_woken)
  moreover have "prc i ?t = wake_proc (ticks s) (Some ch) (prc i s)" if "i < NPROC" for i
    using that l by (simp add: woken_ptab settled_def)
  ultimately show ?thesis
    using wakeup_ok [OF assms(1)] by (auto simp: wake_proc_def ready_fields_def)
qed

lemma crew_procs [simp]:
  "table crew ! 0 = a_proc 1 RUNNING 2 1" "table crew ! Suc 0 = (a_proc 2 SLEEPING 2 2)\<lparr>pchan := Some ChInput\<rparr>"
  "table crew ! 2 = a_proc 3 RUNNABLE 2 2" "table crew ! 3 = a_proc 4 RUNNABLE 1 0"
  by (simp_all add: table_def crew_def)

lemma few [simp]: "Suc 0 < NPROC" "2 < NPROC" "3 < NPROC"
  by (simp_all add: NPROC_def)

theorem wakeup_exact_witness:
  "\<exists>t. wakeup 0 ChInput (sample (Some 0) crew) = Ok () t \<and> sched_inv t \<and> state (prc 1 t) = RUNNABLE \<and>
     prc 2 t = a_proc 3 RUNNABLE 2 2"
proof -
  obtain t where "wakeup 0 ChInput (sample (Some 0) crew) = Ok () t" "sched_inv t"
    and t: "\<And>i. i < NPROC \<Longrightarrow> prc i t = (if state (table crew ! i) = SLEEPING \<and> pchan (table crew ! i) = Some ChInput
       then (table crew ! i)\<lparr>state := RUNNABLE, arrival_time := sint (7 :: u32), waited_ticks := 0\<rparr> else table crew ! i)"
    using wakeup_exact [of 0 "sample (Some 0) crew" ChInput] sample_inv [OF crew_fine] unfolding sample_fields by auto
  then show ?thesis using t [of 1] t [of 2] by auto
qed

text \<open>
  C21. \<^verbatim>\<open>kill(pid)\<close> of a live process marks it; if it sleeps it becomes runnable with a fresh arrival, else nothing but the mark
  changes; no other process changes. The call fails with -1, and changes no process, if no slot carries the id.
\<close>

theorem kill_effect:
  assumes "quiet a s" "sched_inv s"
  shows "(\<forall>i < NPROC. state (prc i s) \<noteq> UNUSED \<longrightarrow>
      (\<exists>t. kill a (pid (prc i s)) s = Ok 0 t \<and> sched_inv t \<and>
        prc i t = (if state (prc i s) = SLEEPING
          then (prc i s)\<lparr>killed := True, state := RUNNABLE, arrival_time := sint (ticks s), waited_ticks := 0\<rparr>
          else (prc i s)\<lparr>killed := True\<rparr>) \<and>
        (\<forall>j < NPROC. j \<noteq> i \<longrightarrow> prc j t = prc j s)))
    \<and> ((\<forall>i < NPROC. pid (prc i s) \<noteq> n) \<longrightarrow> (\<exists>t. kill a n s = Ok (-1) t \<and> ptab t = ptab s))"
proof (intro conjI allI impI)
  note inv = assms(2) and len = sched_inv_length [OF assms(2)]
  fix i assume i: "i < NPROC" and st: "state (prc i s) \<noteq> UNUSED"
  have p: "pids_ok s" "0 < pid (prc i s)" using inv i st len by (simp_all add: sched_inv_def pids_ok_def)
  have "find_proc (\<lambda>p. pid p = pid (prc i s)) (ptab s) 0 = Some i"
    using p i len by (intro find_pid) simp_all
  then have "kill a (pid (prc i s)) s = Ok 0 (killed_at i (settled a s))" by (simp add: kill_ok [OF assms(1)])
  moreover have "sched_inv (killed_at i (settled a s))" using inv i by (intro sched_inv_killed_at) simp_all
  ultimately show "\<exists>t. kill a (pid (prc i s)) s = Ok 0 t \<and> sched_inv t \<and>
        prc i t = (if state (prc i s) = SLEEPING
          then (prc i s)\<lparr>killed := True, state := RUNNABLE, arrival_time := sint (ticks s), waited_ticks := 0\<rparr>
          else (prc i s)\<lparr>killed := True\<rparr>) \<and>
        (\<forall>j < NPROC. j \<noteq> i \<longrightarrow> prc j t = prc j s)"
    using i len by (auto simp: killed_at_def Let_def proc_simps ready_fields_def settled_def runnable_at_def)
next
  assume "\<forall>i < NPROC. pid (prc i s) \<noteq> n"
  then have "find_proc (\<lambda>p. pid p = n) (ptab s) 0 = None"
    using sched_inv_length [OF assms(2)] by (auto simp: find_proc_None in_set_conv_nth)
  then show "\<exists>t. kill a n s = Ok (-1) t \<and> ptab t = ptab s" by (simp add: kill_ok [OF assms(1)])
qed

theorem kill_effect_witness:
  "(\<exists>t. kill 0 2 (sample (Some 0) crew) = Ok 0 t \<and> sched_inv t \<and> killed (prc 1 t) \<and> state (prc 1 t) = RUNNABLE) \<and>
   (\<exists>t. kill 0 50 (sample (Some 0) crew) = Ok (-1) t \<and> ptab t = table crew)"
proof
  note k = kill_effect [of 0 "sample (Some 0) crew", OF sample_quiet sample_inv [OF crew_fine], of 50]
  show "\<exists>t. kill 0 2 (sample (Some 0) crew) = Ok 0 t \<and> sched_inv t \<and> killed (prc 1 t) \<and> state (prc 1 t) = RUNNABLE"
    using conjunct1 [OF k, THEN spec, of "Suc 0"] by (auto simp del: sample_fields(1))
  have "\<forall>i < NPROC. pid (prc i (sample (Some 0) crew)) \<noteq> 50"
    by (auto simp: table_nth crew_def nth_Cons')
  then show "\<exists>t. kill 0 50 (sample (Some 0) crew) = Ok (-1) t \<and> ptab t = table crew"
    using conjunct2 [OF k] unfolding sample_fields by blast
qed

section \<open>Aging\<close>

text \<open>
  C19. The pass over the table at a clock tick moves every FCFS process that has waited 800 ticks or more
  to round robin, with a fresh arrival; of every other process it changes only the recorded waiting time.
\<close>

theorem aging_lifts_waiters:
  assumes "quiet a s" "sched_inv s"
  shows "\<exists>t. update_wait_time a now s = Ok 0 t \<and> sched_inv t \<and>
    (\<forall>i < NPROC. if fcfs_ready (prc i s) \<and> now - arrival_time (prc i s) \<ge> 800
       then rr_ready (prc i t) \<and> arrival_time (prc i t) = now
       else prc i t = (prc i s)\<lparr>waited_ticks := (if state (prc i s) = RUNNABLE then now - arrival_time (prc i s)
                                                 else waited_ticks (prc i s))\<rparr>)"
proof -
  let ?t = "all_aged now (settled a s)"
  have "prc i ?t = age_fields now (prc i s)" if "i < NPROC" for i
    using that sched_inv_length [OF assms(2)] by (simp add: all_aged_ptab)
  moreover have "sched_inv ?t" using assms(2) by (simp add: sched_inv_all_aged)
  ultimately show ?thesis
    using update_wait_time_ok [OF assms, of now]
    by (auto simp: age_fields_def too_old_def AGING_THRESHOLD_def fcfs_ready_def rr_ready_def)
qed

theorem aging_lifts_waiters_witness:
  "\<exists>t. update_wait_time 0 800 (sample (Some 0) crew) = Ok 0 t \<and> sched_inv t \<and> rr_ready (prc 2 t) \<and> state (prc 3 t) = RUNNABLE"
proof -
  obtain t where "update_wait_time 0 800 (sample (Some 0) crew) = Ok 0 t" "sched_inv t"
    and t: "\<And>i. i < NPROC \<Longrightarrow> if fcfs_ready (table crew ! i) \<and> 800 - arrival_time (table crew ! i) \<ge> 800
       then rr_ready (prc i t) \<and> arrival_time (prc i t) = 800
       else prc i t = (table crew ! i)\<lparr>waited_ticks := (if state (table crew ! i) = RUNNABLE then 800 - arrival_time (table crew ! i)
                                                 else waited_ticks (table crew ! i))\<rparr>"
    using aging_lifts_waiters [of 0 "sample (Some 0) crew" 800] sample_inv [OF crew_fine] unfolding sample_fields by auto
  then show ?thesis using t [of 2] t [of 3] by (auto simp: fcfs_ready_def)
qed

section \<open>Sleeping and waking\<close>

lemma scheduler_return_ok:
  assumes c: "crit a m s" and ix: "cpu_ix a m = Some k"
  shows "scheduler_return a k s =
    Ok () (s\<lparr>mach := settle a (upd_cpu k (\<lambda>x. x\<lparr>cpu_proc := None\<rparr>) (set_cr3 a (V2P (kpgdir s)) m))\<rparr>)"
proof -
  let ?m = "upd_cpu k (\<lambda>x. x\<lparr>cpu_proc := None\<rparr>) (set_cr3 a (V2P (kpgdir s)) m)"
  have m: "mach s = acq a PtableLock m" "cpu_ready a m" using c by (simp_all add: crit_def)
  have "set_cpu_proc k None (switchkvm a s) = s\<lparr>mach := acq a PtableLock ?m\<rparr>"
    using m by (simp add: set_cpu_proc_def switchkvm_def lcr3_set_cr3 acq_upd_cpu acq_set_cr3)
  moreover have cr: "crit a ?m (s\<lparr>mach := acq a PtableLock ?m\<rparr>)" using c m by (intro crit_upd_mach [of a m s]) simp_all
  ultimately show ?thesis using crit_release [OF cr] by (simp add: scheduler_return_def)
qed

lemma asleep_fields [simp]:
  "mach (asleep ch lk b i s) = mach s" "kpgdir (asleep ch lk b i s) = kpgdir s"
  "crit a m (asleep ch lk b i s) = crit a m s" "locks_free (asleep ch lk b i s) m = locks_free s m"
  by (simp_all add: asleep_def proc_simps locks_free_def)

lemma ncli_settle [simp]: "ncli_of a (settle b m) = ncli_of a m"
  by (auto simp: ncli_of_def settle_def upd_cpu_def nth_upd split: option.splits dest!: cpu_ix_SomeD)

subsection \<open>Another CPU\<close>

lemma ready_settle_any [simp]: "cpu_ready c (settle a m) = cpu_ready c m"
  by (simp add: cpu_ready_def) (auto simp: settle_def split: option.splits)

lemma cpu_ix_apart: "cpu_ix a m = Some k \<Longrightarrow> c \<noteq> a \<Longrightarrow> cpu_ix c m \<noteq> Some k"
  using cpu_ix_SomeD [of a m k] cpu_ix_SomeD [of c m k] by auto

lemma push_other: "c \<noteq> a \<Longrightarrow> cpu_ready c (push a m) = cpu_ready c m"
proof (cases "cpu_ix a m")
  case (Some k)
  assume "c \<noteq> a"
  then have "ncli_of c (push a m) = ncli_of c m"
    using cpu_ix_apart [OF Some, of c] Some by (cases "cpu_ix c m") (auto simp: ncli_of_def push_def)
  then show ?thesis using \<open>c \<noteq> a\<close> Some by (simp add: cpu_ready_def) (simp add: push_def)
qed (simp add: push_def)

lemma acq_other: "c \<noteq> a \<Longrightarrow> cpu_ready c (acq a l m) = cpu_ready c m"
  by (simp add: acq_def push_other)

lemma held_apart: "cpu_ix a m = Some k \<Longrightarrow> c \<noteq> a \<Longrightarrow> \<not> held c l (acq a l m)"
  using cpu_ix_apart [of a m k c] by (auto simp: held_def) (auto simp: acq_def)

lemma locked_acq [simp]: "lk_locked (locks (acq a l m) l)" "l' \<noteq> l \<Longrightarrow> locks (acq a l m) l' = locks m l'"
  by (simp_all add: acq_def)

lemma acquire_spins:
  assumes "mach s = acq a l m \<or> mach s = push a (acq a l m)" "cpu_ix a m = Some k" "c \<noteq> a" "cpu_ready c m"
  shows "\<exists>w. acquire c l s = Spin l w"
proof -
  have "ready c s" using assms by (auto simp: push_other acq_other)
  moreover have "lk_locked (locks (mach s) l)" "\<not> held c l (mach s)" using assms held_apart [of a m k c l] by auto
  ultimately show ?thesis by (simp add: acquire_other)
qed

subsection \<open>Waking under a lock\<close>

text \<open>The flags that make printing and allocating take their locks do not matter to \<^verbatim>\<open>wakeup\<close>.\<close>

abbreviation no_flags :: "'e pkst_scheme \<Rightarrow> 'e pkst_scheme" where
  "no_flags s \<equiv> s\<lparr>cons_locking := False, kmem_use_lock := False\<rparr>"

lemma forR_map:
  assumes "\<And>i s. f i (g s) = map_res id g (f i s)"
  shows "forR is f (g s) = map_res id g (forR is f s)"
proof (induction "is" arbitrary: s)
  case (Cons i "is")
  then show ?case by (cases "f i s") (simp_all add: assms)
qed simp

lemma lock_no_flags:
  "acquire a l (no_flags s) = map_res id no_flags (acquire a l s)" "release a l (no_flags s) = map_res id no_flags (release a l s)"
  for s :: "'e pkst_scheme"
  by (simp_all add: acquire_def release_def onM_def split: res.split)

lemma upd_no_flags:
  "upd_proc i f (no_flags s) = no_flags (upd_proc i f s)" "count_add d i (no_flags s) = no_flags (count_add d i s)"
  for s :: "'e pkst_scheme"
  by (simp_all add: upd_proc_def count_add_def Let_def)

lemma make_runnable_no_flags: "make_runnable a i (no_flags s) = map_res id no_flags (make_runnable a i s)"
  for s :: "'e pkst_scheme"
proof -
  have st: "stamp_arrival a i (no_flags s) = map_res id no_flags (stamp_arrival a i s)" for s :: "'e pkst_scheme"
    by (cases "acquire a TicksLock s") (simp_all add: stamp_arrival_def lock_no_flags upd_no_flags)
  show ?thesis
    by (cases "stamp_arrival a i (upd_proc i (\<lambda>p. p\<lparr>state := RUNNABLE\<rparr>) s)") (simp_all add: make_runnable_def upd_no_flags st)
qed

lemma wakeup_no_flags: "wakeup a ch (no_flags s) = map_res id no_flags (wakeup a ch s)"
  for s :: "'e pkst_scheme"
proof -
  have w: "wakeup1 a x (no_flags s) = map_res id no_flags (wakeup1 a x s)" for x and s :: "'e pkst_scheme"
    unfolding wakeup1_def by (rule forR_map) (simp add: make_runnable_no_flags)
  show ?thesis
  proof (cases "acquire a PtableLock s")
    case (Ok x t)
    then show ?thesis by (cases "wakeup1 a (Some ch) t") (simp_all add: wakeup_def lock_no_flags w)
  qed (simp_all add: wakeup_def lock_no_flags)
qed

lemma no_flags_fields [simp]: "ptab (no_flags s) = ptab s" "mach (no_flags s) = mach s" "ticks (no_flags s) = ticks s"
  "sched_inv (no_flags s) = sched_inv s"
  by (simp_all add: sched_inv_def counts_ok_def pids_ok_def)

lemma wakeup_locks:
  assumes "ready a s" "free PtableLock s" "free TicksLock s" "sched_inv s"
  shows "\<exists>t. wakeup a ch s = Ok () t \<and> sched_inv t \<and> mach t = settle a (mach s) \<and>
    (\<forall>i < NPROC. prc i t = wake_proc (ticks s) (Some ch) (prc i s))"
proof -
  have q: "quiet a (no_flags s)" using assms by (simp add: quiet_def locks_free_def)
  let ?w = "woken (Some ch) (settled a (no_flags s))"
  obtain t where t: "wakeup a ch s = Ok () t" "no_flags t = ?w"
    using wakeup_ok [OF q, of ch] wakeup_no_flags [of a ch s] by (cases "wakeup a ch s") auto
  have inv: "sched_inv (settled a (no_flags s))" using assms(4) unfolding sched_inv_settled by simp
  have w: "sched_inv ?w" "mach ?w = settle a (mach s)" "\<And>i. i < NPROC \<Longrightarrow> prc i ?w = wake_proc (ticks s) (Some ch) (prc i s)"
    using sched_inv_woken [OF inv] sched_inv_length [OF inv] by (simp_all add: woken_ptab) (simp_all add: settled_def)
  then have "sched_inv t" "mach t = settle a (mach s)" "\<And>i. i < NPROC \<Longrightarrow> prc i t = wake_proc (ticks s) (Some ch) (prc i s)"
    unfolding t(2) [symmetric] by simp_all
  then show ?thesis using t(1) by blast
qed

text \<open>The code that ends a wait, as all of the kernel has it: it calls \<^verbatim>\<open>wakeup\<close> with the lock of the condition held.\<close>

definition waker :: "nat \<Rightarrow> lockid \<Rightarrow> chan \<Rightarrow> 'e pkst_scheme \<Rightarrow> (unit, 'e pkst_scheme) res" where
  "waker c lk ch s = bnd (acquire c lk s) (\<lambda>_ s. bnd (wakeup c ch s) (\<lambda>_ s. release c lk s))"

lemma waker_ok:
  assumes "ready c s" "free PtableLock s" "free TicksLock s" "free lk s" "lk \<noteq> PtableLock" "lk \<noteq> TicksLock" "sched_inv s"
  shows "\<exists>w. waker c lk ch s = Ok () w \<and> sched_inv w \<and> (\<forall>i < NPROC. prc i w = wake_proc (ticks s) (Some ch) (prc i s))"
proof -
  let ?s = "s\<lparr>mach := acq c lk (mach s)\<rparr>"
  obtain t where t: "wakeup c ch ?s = Ok () t" "sched_inv t" "mach t = acq c lk (mach s)"
      "\<forall>i < NPROC. prc i t = wake_proc (ticks s) (Some ch) (prc i s)"
    using wakeup_locks [of c ?s ch] assms by auto
  then have "waker c lk ch s = Ok () (t\<lparr>mach := settle c (mach s)\<rparr>)"
    using assms by (simp add: waker_def acquire_kst release_kst)
  then show ?thesis using t by simp
qed

text \<open>
  C6. No wake-up is lost. A process that holds \<^verbatim>\<open>lk\<close> and sleeps on \<^verbatim>\<open>chan\<close> gives up \<^verbatim>\<open>lk\<close> only when it has \<^verbatim>\<open>ptable.lock\<close>: as long as
  another CPU has that lock, the process still runs and holds \<^verbatim>\<open>lk\<close>, and no CPU that wants to end the wait gets \<^verbatim>\<open>lk\<close>.
  Once the process has given up the CPU it is marked as a sleeper; a CPU that takes \<^verbatim>\<open>lk\<close> and calls \<^verbatim>\<open>wakeup\<close> then waits for
  \<^verbatim>\<open>ptable.lock\<close> until the scheduler lets go of it, and makes the process runnable. (With \<^verbatim>\<open>tickslock\<close> as \<^verbatim>\<open>lk\<close> the call of
  \<^verbatim>\<open>wakeup\<close> panics.)
\<close>

theorem no_lost_wakeup:
  fixes s :: "'e pkst_scheme"
  assumes "mach s = acq a lk m" "cpu_ready a m" "lk_free lk m" "lk \<noteq> PtableLock" "lk \<noteq> TicksLock" "ncli_of a m = 0" "cpu_ix a m = Some k"
    and "cur a m = Some i" "i < NPROC" "state (prc i s) = RUNNING" "sched_inv s"
  shows "(lk_locked (locks m PtableLock) \<and> \<not> held a PtableLock m \<longrightarrow>
      (\<exists>t. (sleep a ch lk s :: (unit, 'e pkst_scheme) res) = Spin PtableLock t \<and> ptab t = ptab s \<and> held a lk (mach t) \<and>
        (\<forall>c. c \<noteq> a \<and> cpu_ready c m \<longrightarrow> (\<exists>w. waker c lk ch t = Spin lk w)))) \<and>
    (locks_free s m \<longrightarrow>
      (\<exists>t u. (sleep a ch lk s :: (unit, 'e pkst_scheme) res) = Off t \<and> held a PtableLock (mach t) \<and>
        (\<forall>c. c \<noteq> a \<and> cpu_ready c m \<longrightarrow> (\<exists>w. waker c lk ch t = Spin PtableLock w)) \<and>
        scheduler_return a k t = Ok () u \<and> sched_inv u \<and> lk_free lk (mach u) \<and> lk_free PtableLock (mach u) \<and>
        state (prc i u) = SLEEPING \<and> pchan (prc i u) = Some ch \<and>
        (\<forall>c. cpu_ready c m \<longrightarrow> (\<exists>w. waker c lk ch u = Ok () w \<and> sched_inv w \<and> state (prc i w) = RUNNABLE))))"
proof (intro conjI impI)
  assume p: "lk_locked (locks m PtableLock) \<and> \<not> held a PtableLock m"
  let ?t = "s\<lparr>mach := push a (acq a lk m)\<rparr>"
  have "acquire a PtableLock s = Spin PtableLock ?t" using acquire_other [of a s PtableLock] p assms by simp
  moreover have "myproc a s = Ok (Some i) s" using assms by (simp add: myproc_ok)
  ultimately have "(sleep a ch lk s :: (unit, 'e pkst_scheme) res) = Spin PtableLock ?t" using assms(4) by (simp add: sleep_def)
  moreover have "\<exists>w. waker c lk ch ?t = Spin lk w" if "c \<noteq> a \<and> cpu_ready c m" for c
    using acquire_spins [of ?t a lk m k c] assms(7) that by (auto simp: waker_def)
  ultimately show "\<exists>t. (sleep a ch lk s :: (unit, 'e pkst_scheme) res) = Spin PtableLock t \<and> ptab t = ptab s \<and> held a lk (mach t) \<and>
        (\<forall>c. c \<noteq> a \<and> cpu_ready c m \<longrightarrow> (\<exists>w. waker c lk ch t = Spin lk w))" by auto
next
  assume f: "locks_free s m"
  have len: "length (ptab s) = NPROC" using assms(11) by (rule sched_inv_length)
  let ?s = "s\<lparr>mach := acq a PtableLock m\<rparr>"
  let ?t = "asleep ch lk (eif m a) i ?s"
  let ?m = "upd_cpu k (\<lambda>x. x\<lparr>cpu_proc := None\<rparr>) (set_cr3 a (V2P (kpgdir s)) m)"
  let ?u = "?t\<lparr>mach := settle a ?m\<rparr>"
  have sl: "(sleep a ch lk s :: (unit, 'e pkst_scheme) res) = Off ?t"
    using assms len f by (intro sleep_off) simp_all
  have c: "crit a m ?t" using assms f by (simp add: crit_def)
  have inv: "sched_inv ?u" using sched_inv_asleep [of ?s i] assms by simp
  have ret: "scheduler_return a k ?t = Ok () ?u" using scheduler_return_ok [OF c assms(7)] by simp
  have free: "lk_free lk (mach ?u)" "lk_free PtableLock (mach ?u)" "lk_free TicksLock (mach ?u)"
    using assms(3) f by (simp_all add: locks_free_def)
  have st: "state (prc i ?u) = SLEEPING" "pchan (prc i ?u) = Some ch" using assms len by (simp_all add: asleep_def proc_simps)
  have "\<exists>w. waker d lk ch ?t = Spin PtableLock w" if d: "d \<noteq> a \<and> cpu_ready d m" for d
  proof -
    have "acquire d lk ?t = Ok () (?t\<lparr>mach := acq d lk (acq a PtableLock m)\<rparr>)"
      using d assms(3,4) by (simp add: acquire_kst acq_other)
    moreover have "acquire d PtableLock (?t\<lparr>mach := acq d lk (acq a PtableLock m)\<rparr>) =
        Spin PtableLock (?t\<lparr>mach := push d (acq d lk (acq a PtableLock m))\<rparr>)"
      using d assms(4) held_apart [OF assms(7), of d PtableLock] by (simp add: acquire_other acq_other)
    ultimately show ?thesis by (simp add: waker_def wakeup_def)
  qed
  moreover have "\<exists>w. waker d lk ch ?u = Ok () w \<and> sched_inv w \<and> state (prc i w) = RUNNABLE" if "cpu_ready d m" for d
  proof -
    have "ready d ?u" using that by simp
    from waker_ok [OF this free(2,3,1) assms(4,5) inv, of ch] show ?thesis
      using st assms(9) by (auto simp: wake_proc_def ready_fields_def)
  qed
  ultimately show "\<exists>t u. (sleep a ch lk s :: (unit, 'e pkst_scheme) res) = Off t \<and> held a PtableLock (mach t) \<and>
        (\<forall>c. c \<noteq> a \<and> cpu_ready c m \<longrightarrow> (\<exists>w. waker c lk ch t = Spin PtableLock w)) \<and>
        scheduler_return a k t = Ok () u \<and> sched_inv u \<and> lk_free lk (mach u) \<and> lk_free PtableLock (mach u) \<and>
        state (prc i u) = SLEEPING \<and> pchan (prc i u) = Some ch \<and>
        (\<forall>c. cpu_ready c m \<longrightarrow> (\<exists>w. waker c lk ch u = Ok () w \<and> sched_inv w \<and> state (prc i w) = RUNNABLE))"
    using sl ret inv free(1,2) st by (intro exI [of _ ?t] exI [of _ ?u]) simp
qed

text \<open>Two CPUs; the first runs process 0.\<close>

definition pair_mach :: mach where
  "pair_mach = \<lparr>cpus = [\<lparr>cpu_apicid = 0, cpu_ncli = 0, cpu_intena = True, cpu_proc = Some 0, cpu_esp0 = 0\<rparr>,
       \<lparr>cpu_apicid = 1, cpu_ncli = 0, cpu_intena = True, cpu_proc = None, cpu_esp0 = 0\<rparr>],
     eif = (\<lambda>_. True), cr3 = (\<lambda>_. 0), locks = (\<lambda>_. \<lparr>lk_locked = False, lk_name = '''', lk_cpu = None\<rparr>)\<rparr>"

lemma pair_mach_ready [simp]: "cpu_ready 0 pair_mach" "cpu_ready (Suc 0) pair_mach" "lk_free l pair_mach" "cpu_ix 0 pair_mach = Some 0"
  "ncli_of 0 pair_mach = 0" "cur 0 pair_mach = Some 0"
  by (simp_all add: pair_mach_def cpu_ready_def ncli_of_def lk_free_def cur_def)

lemma pair_mach_taken [simp]: "ncli_of 0 (acq (Suc 0) l pair_mach) = 0" "cur 0 (acq (Suc 0) l pair_mach) = Some 0"
  "lk_cpu (locks (acq (Suc 0) l pair_mach) l) = Some (Suc 0)"
  by (simp_all add: acq_def push_def pair_mach_def ncli_of_def cur_def upd_cpu_def set_if_def set_lock_def)

theorem no_lost_wakeup_witness:
  "(\<exists>t w. (sleep 0 ChLog LogLock ((sample (Some 0) crew)\<lparr>mach := acq 0 LogLock (acq 1 PtableLock pair_mach)\<rparr>) :: (unit, ikst) res) = Spin PtableLock t \<and>
      held 0 LogLock (mach t)) \<and>
   (\<exists>t u v w. (sleep 0 ChLog LogLock ((sample (Some 0) crew)\<lparr>mach := acq 0 LogLock pair_mach\<rparr>) :: (unit, ikst) res) = Off t \<and>
      waker 1 LogLock ChLog t = Spin PtableLock v \<and> scheduler_return 0 0 t = Ok () u \<and> waker 1 LogLock ChLog u = Ok () w \<and> state (prc 0 w) = RUNNABLE)"
proof
  let ?s = "\<lambda>m. (sample (Some 0) crew)\<lparr>mach := acq 0 LogLock m\<rparr> :: ikst"
  have h: "sched_inv (?s m)" "0 < NPROC" "state (prc 0 (?s m)) = RUNNING" for m
    using sample_inv [OF crew_fine, of "Some 0"] by (simp_all add: NPROC_def table_def crew_def)
  have r: "cpu_ready 0 (acq (Suc 0) PtableLock pair_mach)" "\<not> held 0 PtableLock (acq (Suc 0) PtableLock pair_mach)"
    by (simp_all add: acq_other held_def)
  show "\<exists>t w. (sleep 0 ChLog LogLock (?s (acq 1 PtableLock pair_mach)) :: (unit, ikst) res) = Spin PtableLock t \<and> held 0 LogLock (mach t)"
    using no_lost_wakeup [of "?s (acq 1 PtableLock pair_mach)" 0 LogLock "acq 1 PtableLock pair_mach" 0 0 ChLog] h r by auto
  have "locks_free (?s pair_mach) pair_mach" by (simp add: locks_free_def)
  then obtain t u where "(sleep 0 ChLog LogLock (?s pair_mach) :: (unit, ikst) res) = Off t"
      "\<forall>c. c \<noteq> 0 \<and> cpu_ready c pair_mach \<longrightarrow> (\<exists>w. waker c LogLock ChLog t = Spin PtableLock w)" "scheduler_return 0 0 t = Ok () u"
      "\<forall>c. cpu_ready c pair_mach \<longrightarrow> (\<exists>w. waker c LogLock ChLog u = Ok () w \<and> sched_inv w \<and> state (prc 0 w) = RUNNABLE)"
    using no_lost_wakeup [of "?s pair_mach" 0 LogLock pair_mach 0 0 ChLog] h by auto
  then show "\<exists>t u v w. (sleep 0 ChLog LogLock (?s pair_mach) :: (unit, ikst) res) = Off t \<and>
      waker 1 LogLock ChLog t = Spin PtableLock v \<and> scheduler_return 0 0 t = Ok () u \<and> waker 1 LogLock ChLog u = Ok () w \<and> state (prc 0 w) = RUNNABLE"
    by (metis One_nat_def pair_mach_ready(2) zero_neq_one)
qed

section \<open>New processes\<close>

text \<open>
  C20. \<^verbatim>\<open>allocproc\<close> takes the first free slot and gives it an id that no other slot carries, in the FCFS
  class; it fails, leaving every process in use as it was, exactly when there is no slot or no page.
\<close>

theorem allocproc_fresh:
  assumes "quiet a s" "sched_inv s"
  shows "\<exists>r t. allocproc a s = Ok r t \<and> sched_inv t \<and>
    (\<forall>j < NPROC. state (prc j s) \<noteq> UNUSED \<longrightarrow> prc j t = prc j s) \<and>
    (r = None \<longleftrightarrow> (\<forall>j < NPROC. state (prc j s) \<noteq> UNUSED) \<or> freelist s = 0) \<and>
    (\<forall>i. r = Some i \<longrightarrow> i < NPROC \<and> state (prc i s) = UNUSED \<and> (\<forall>j < i. state (prc j s) \<noteq> UNUSED) \<and> state (prc i t) = EMBRYO \<and> pid (prc i t) = nextpid s \<and>
       kstack (prc i t) = freelist s \<and> sched_class (prc i t) = 2 \<and> sched_level (prc i t) = 2 \<and>
       (\<forall>j < NPROC. j \<noteq> i \<longrightarrow> pid (prc j t) \<noteq> pid (prc i t)))"
proof (cases "find_proc (\<lambda>p. state p = UNUSED) (ptab s) 0")
  case None
  then have "\<forall>j < NPROC. state (prc j s) \<noteq> UNUSED"
    using sched_inv_length [OF assms(2)] by (simp add: find_proc_None)
  then show ?thesis using None assms by (auto simp: allocproc_ok)
next
  case (Some i)
  let ?t = "with_stack i (freelist s) (ksettle a (kalloced (embryo i (settled a s))))"
  have i: "i < NPROC" "state (prc i s) = UNUSED" "\<forall>j < i. state (prc j s) \<noteq> UNUSED"
    using find_proc_0 [OF Some] sched_inv_length [OF assms(2)] by simp_all
  have len: "length (ptab s) = NPROC" using assms(2) by (rule sched_inv_length)
  have inv: "sched_inv ?t" using sched_inv_allocproc [OF assms(2) Some] .
  have other: "prc j ?t = prc j s" if "j < NPROC" "j \<noteq> i" for j
    using that len by (auto simp: with_stack_def proc_simps)
  have "pid (prc j s) < nextpid s" if "j < NPROC" for j
    using assms(2) that len by (simp add: sched_inv_def pids_ok_def)
  moreover have "pid (prc i ?t) = nextpid s" using i len by (auto simp: with_stack_def proc_simps alloc_fields_def settled_def)
  ultimately have "\<forall>j < NPROC. j \<noteq> i \<longrightarrow> pid (prc j ?t) \<noteq> pid (prc i ?t)" using other by fastforce
  moreover have "state (prc j s) \<noteq> UNUSED \<Longrightarrow> prc j ?t = prc j s" if "j < NPROC" for j
    using other that i by blast
  ultimately show ?thesis
    using Some assms inv i len
    by (auto simp: allocproc_ok with_stack_def proc_simps alloc_fields_def settled_def)
qed

theorem allocproc_fresh_witness:
  "\<exists>r t. allocproc 0 ((sample (Some 0) crew)\<lparr>freelist := 0x8DF00000\<rparr>) = Ok r t \<and> sched_inv t \<and> r \<noteq> None"
proof -
  let ?s = "(sample (Some 0) crew)\<lparr>freelist := 0x8DF00000\<rparr>"
  have "quiet 0 ?s" by (simp add: quiet_def locks_free_def)
  moreover have "sched_inv ?s" using sample_inv [OF crew_fine, of "Some 0"]
    by (simp add: sched_inv_def counts_ok_def pids_ok_def)
  moreover have "\<exists>j < NPROC. state (prc j ?s) = UNUSED" by (rule exI [of _ 4]) (simp add: NPROC_def table_def crew_def)
  ultimately show ?thesis using allocproc_fresh [of 0 ?s] by (auto simp: sample_fields)
qed

section \<open>The clock\<close>

lemma can_print_quiet: "quiet a s \<Longrightarrow> can_print a s"
  by (simp add: quiet_def can_print_def locks_free_def)

lemma quiet_printed [simp]: "quiet a s \<Longrightarrow> quiet a (printed a t s)"
  by (simp add: quiet_def locks_free_def printed_def consputs_def)

lemma printed_proc_fields [simp]:
  "ptab (printed a t s) = ptab s" "ticks (printed a t s) = ticks s" "sched_inv (printed a t s) = sched_inv s"
  by (simp_all add: printed_def consputs_def) (simp add: sched_inv_def counts_ok_def pids_ok_def)

lemma printed_machine:
  "ncli_of a (mach (printed b t s)) = ncli_of a (mach s)" "cur a (mach (printed b t s)) = cur a (mach s)"
  by simp_all

lemma tick_fields_same [simp]:
  "state (tick_fields p) = state p" "sched_class (tick_fields p) = sched_class p" "sched_level (tick_fields p) = sched_level p"
  "rr_ticks (tick_fields p) = rr_ticks p" "pid (tick_fields p) = pid p"
  by (simp_all add: tick_fields_def Let_def)

lemma yield_leaves:
  fixes s :: "'e pkst_scheme"
  assumes q: "quiet a s" and n: "ncli_of a (mach s) = 0" and r: "run_inv a me s"
  shows "\<exists>u. (yield a k s :: ('r, 'e pkst_scheme) res) = Off u \<and> sched_inv u \<and> state (prc me u) = RUNNABLE \<and>
     sched_class (prc me u) = sched_class (prc me s) \<and> sched_level (prc me u) = sched_level (prc me s) \<and>
     arrival_time (prc me u) = sint (ticks s) \<and> kctxt (prc me u) = InYield k (eif (mach s) a)"
proof -
  let ?s = "s\<lparr>mach := acq a PtableLock (mach s)\<rparr>"
  note i = run_invD [OF r]
  have y: "(yield a k s :: ('r, 'e pkst_scheme) res) = Off (yielded k (eif (mach s) a) me ?s)"
    using i by (intro yield_off [OF q n]) simp_all
  have "sched_inv (yielded k (eif (mach s) a) me ?s)" using i by (intro sched_inv_yielded) simp_all
  then show ?thesis
    using y i by (auto simp: yielded_def proc_simps)
qed

lemma trap_tick_charge:
  assumes q: "quiet a s" and r: "run_inv a me s" and t: "tf_trapno t = T_IRQ0 + IRQ_TIMER"
  shows "trap_tick a t s = charge_tick a me (settled a s)"
  using q run_invD [OF r] t by (simp add: trap_tick_def quiet_def myproc_ok settled_def)

lemma run_settled [simp]: "run_inv a me (settled a s) = run_inv a me s"
  by (simp add: run_inv_def) (simp add: settled_def)

text \<open>The state in which a process is charged for a tick.\<close>

lemma charged:
  assumes "quiet a s" "run_inv a me s" "ncli_of a (mach s) = 0"
  shows "quiet a (upd_proc i tick_fields (settled a s))" "run_inv a me (upd_proc i tick_fields (settled a s))"
    "ncli_of a (mach (upd_proc i tick_fields (settled a s))) = 0"
    "prc me (upd_proc me tick_fields (settled a s)) = tick_fields (prc me s)"
  using assms run_invD [OF assms(2)] by (simp_all, simp_all add: settled_def proc_simps)

text \<open>A process in the middle of its slice: it runs on this CPU with no lock held.\<close>

definition on_cpu :: "nat \<Rightarrow> nat \<Rightarrow> 'e pkst_scheme \<Rightarrow> bool" where
  "on_cpu a me s \<longleftrightarrow> quiet a s \<and> run_inv a me s \<and> ncli_of a (mach s) = 0"

lemma rr_tick:
  fixes s :: "'e pkst_scheme"
  assumes "on_cpu a me s" "sched_class (prc me s) = 2" "sched_level (prc me s) = 1"
    and "tf_trapno t = T_IRQ0 + IRQ_TIMER"
  shows "if rr_ticks (prc me s) + 1 < 3
    then \<exists>u. trap_tick a t s = Ok () u \<and> on_cpu a me u \<and> sched_class (prc me u) = 2 \<and> sched_level (prc me u) = 1 \<and>
      rr_ticks (prc me u) = rr_ticks (prc me s) + 1
    else \<exists>u. trap_tick a t s = Off u \<and> sched_inv u \<and> rr_ready (prc me u) \<and> arrival_time (prc me u) = sint (ticks s)"
proof -
  let ?f = "\<lambda>p :: proc. p\<lparr>rr_ticks := rr_ticks p + 1\<rparr>"
  let ?s1 = "upd_proc me tick_fields (settled a s)"
  let ?s2 = "upd_proc me ?f ?s1"
  have o: "quiet a s" "run_inv a me s" "ncli_of a (mach s) = 0" using assms(1) by (simp_all add: on_cpu_def)
  note c = charged [OF o] and i = run_invD [OF o(2)]
  have q2: "quiet a ?s2" and r2: "run_inv a me ?s2" using c(1,2) by simp_all
  have p: "prc me ?s2 = ?f (tick_fields (prc me s))" using i by (simp add: proc_simps)
  have n2: "ncli_of a (mach ?s2) = 0" using c(3) [of me] by (simp add: proc_simps(1))
  let ?m = "formatted rr_yield_fmt [pint (pid (prc me s)), pint (rr_ticks (prc me s) + 1)]"
  let ?s3 = "printed a ?m ?s2"
  have r3: "run_inv a me ?s3" using r2 unfolding run_inv_def printed_proc_fields printed_machine .
  have e: "trap_tick a t s = (if rr_ticks (prc me s) + 1 \<ge> 3 then yield a FromTrap ?s3 else Ok () ?s2)"
    using assms(2-) p c(4) q2
    by (simp add: trap_tick_charge [OF o(1,2)] charge_tick_def Let_def Time_Quantum_def
        Unit_Quantum_length_ms_def cprintf_ok can_print_quiet)
  obtain u where u: "(yield a FromTrap ?s3 :: (unit, 'e pkst_scheme) res) = Off u" "sched_inv u" "state (prc me u) = RUNNABLE"
     "sched_class (prc me u) = sched_class (prc me ?s3)" "sched_level (prc me u) = sched_level (prc me ?s3)"
     "arrival_time (prc me u) = sint (ticks ?s3)"
    using yield_leaves [OF quiet_printed [OF q2] trans [OF printed_machine(1) n2] r3, of FromTrap] by blast
  have "ticks ?s3 = ticks s" by (simp add: proc_simps settled_def)
  moreover have "on_cpu a me ?s2" using q2 r2 n2 by (simp add: on_cpu_def)
  ultimately show ?thesis
    using e u p assms(2,3) by (auto simp: rr_ready_def)
qed

text \<open>What a round of the scheduler leaves to the process it runs.\<close>

lemma round_dispatches:
  assumes r: "round_ready a k s" and nx: "nx < NPROC" and ok: "scheduler_round a k nx s = Ok (Some i, nx') t"
  shows "\<exists>m. crit a m t \<and> ncli_of a m = 0 \<and> cur a m = Some i" and "policy (ptab s) nx (Some i) nx'"
    "i < NPROC" "sched_inv t" "state (prc i t) = RUNNING" "rr_ticks (prc i t) = 0"
    "sched_class (prc i t) = sched_class (prc i s)" "sched_level (prc i t) = sched_level (prc i s)"
proof -
  have h: "quiet a s" "ncli_of a (mach s) = 0" "cpu_ix a (mach s) = Some k" "sched_inv s" "has_memory s"
    using r by (simp_all add: round_ready_def)
  let ?m = "set_if a True (mach s)"
  let ?s1 = "s\<lparr>mach := acq a PtableLock ?m\<rparr>"
  note st = round_start [OF h(1,2)]
  have inv1: "sched_inv ?s1" using h(4) by simp
  obtain r' x where p: "pick_next nx ?s1 = Ok (r', x) (scanned ?s1)" "policy (ptab s) nx r' x"
    using pick_next_policy [OF inv1 nx] by auto
  have "r' = Some i" using ok p st(1) by (cases r') (auto simp: scheduler_round_def bnd_eq_Ok)
  then have d: "dispatch a k i (scanned ?s1) = Ok () t" "x = nx'" using ok p st(1) by (auto simp: scheduler_round_def bnd_eq_Ok)
  show pol: "policy (ptab s) nx (Some i) nx'" using p(2) \<open>r' = Some i\<close> d(2) by simp
  have i: "i < NPROC" "state (prc i s) = RUNNABLE" using policy_runnable [OF pol refl nx] ready_runnable by blast+
  show "i < NPROC" using i(1) .
  let ?s2 = "scanned ?s1"
  let ?n = "running_mach a k i (prc i ?s2) ?m"
  let ?s3 = "?s2\<lparr>mach := acq a PtableLock ?n\<rparr>"
  have len: "length (ptab s) = NPROC" using h(4) by (rule sched_inv_length)
  have f: "state (prc i ?s2) = state (prc i s)" "kstack (prc i ?s2) = kstack (prc i s)" "pgdir (prc i ?s2) = pgdir (prc i s)"
      "sched_class (prc i ?s2) = sched_class (prc i s)" "sched_level (prc i ?s2) = sched_level (prc i s)"
    using scanned_nth [of i ?s1] i len by auto
  have ks: "kstack (prc i s) \<noteq> 0" "pgdir (prc i s) \<noteq> 0" using h(5) i by (simp_all add: has_memory_def)
  have l: "i < length (ptab ?s2)" using i len by simp
  have c: "dispatch a k i ?s2 = Ok () (dispatched i ?s3)" "crit a ?n (dispatched i ?s3)"
    using dispatch_ok [OF crit_scanned [OF st(2)] _ _ _ l, of k] ks f h(3) by simp_all
  have t: "t = dispatched i ?s3" using d c(1) by simp
  have "ncli_of a ?n = 0" "cur a ?n = Some i" using h(2,3) cur_running [of a ?m k i "prc i ?s2"] by simp_all
  then show "\<exists>m. crit a m t \<and> ncli_of a m = 0 \<and> cur a m = Some i" using c(2) t by blast
  show "sched_inv t" using sched_inv_scanned [OF inv1] i f(1) unfolding t by (intro sched_inv_dispatched) simp_all
  show "state (prc i t) = RUNNING" "rr_ticks (prc i t) = 0" "sched_class (prc i t) = sched_class (prc i s)" "sched_level (prc i t) = sched_level (prc i s)"
    using l f unfolding t by (simp_all add: dispatched_def proc_simps)
qed

lemma policy_fcfs:
  assumes "policy ps nx (Some i) nx'" "fcfs_ready (ps ! i)" "nx < NPROC"
  shows "\<not> (\<exists>j < NPROC. edf_ready (ps ! j) \<or> rr_ready (ps ! j))"
proof -
  have "\<not> edf_ready (ps ! i)" "\<not> rr_ready (ps ! i)" using assms(2) by (auto simp: edf_ready_def rr_ready_def fcfs_ready_def)
  moreover have "Some i \<noteq> find (\<lambda>i. rr_ready (ps ! i)) is" for "is" using calculation(2) by (metis find_Some_iff)
  ultimately show ?thesis using assms(1) by (auto simp: policy_def best_def split: if_splits)
qed

lemma resumed_on_cpu:
  assumes "crit a m t" "ncli_of a m = 0" "cur a m = Some i" "sched_inv t" "i < NPROC" "state (prc i t) = RUNNING"
  shows "\<exists>u. yield_resume a b t = Ok () u \<and> on_cpu a i u \<and> ptab u = ptab t"
proof -
  let ?u = "t\<lparr>mach := settle a (set_if a b m)\<rparr>"
  have "quiet a ?u" using quiet_settle [OF crit_sched_resume(2) [OF assms(1,2)]] by simp
  moreover have "cur a (settle a (set_if a b m)) = Some i" using assms(3) by simp
  ultimately have "on_cpu a i ?u" using assms by (simp add: on_cpu_def run_inv_def)
  then show ?thesis using yield_resume_ok [OF assms(1,2), of b] by simp
qed

text \<open>
  A slice: \<open>slice a me t s n u\<close> says that the process that got the CPU in state \<open>s\<close> has it in \<open>u\<close> still, after \<open>n\<close> ticks of the clock that
  returned to it, with work of its own before, between and after them that is not charged to its round robin counter.
\<close>

definition same_charge :: "proc \<Rightarrow> proc \<Rightarrow> bool" where
  "same_charge p q \<longleftrightarrow> sched_class p = sched_class q \<and> sched_level p = sched_level q \<and> rr_ticks p = rr_ticks q"

inductive slice :: "nat \<Rightarrow> nat \<Rightarrow> trapframe \<Rightarrow> 'e pkst_scheme \<Rightarrow> nat \<Rightarrow> 'e pkst_scheme \<Rightarrow> bool"
  for a :: nat and me :: nat and t :: trapframe and s :: "'e pkst_scheme" where
  slice_start: "slice a me t s 0 s"
| slice_work: "slice a me t s n u \<Longrightarrow> on_cpu a me v \<Longrightarrow> same_charge (prc me u) (prc me v) \<Longrightarrow> slice a me t s n v"
| slice_tick: "slice a me t s n u \<Longrightarrow> on_cpu a me u \<Longrightarrow> trap_tick a t u = Ok () v \<Longrightarrow> slice a me t s (Suc n) v"

lemma slice_charge:
  assumes "slice a me t s n u" "rr_ticks (prc me s) = 0" "sched_class (prc me s) = 2" "sched_level (prc me s) = 1"
    and "tf_trapno t = T_IRQ0 + IRQ_TIMER"
  shows "n \<le> 2 \<and> rr_ticks (prc me u) = int n \<and> sched_class (prc me u) = 2 \<and> sched_level (prc me u) = 1"
  using assms(1)
proof (induction rule: slice.induct)
  case (slice_tick n u v)
  then have "rr_ticks (prc me u) + 1 < 3" using rr_tick [OF slice_tick(2) _ _ assms(5)] by (auto split: if_splits)
  then show ?case using rr_tick [OF slice_tick(2) _ _ assms(5)] slice_tick by auto
qed (use assms in \<open>auto simp: same_charge_def\<close>)

text \<open>
  C16. The time slice of round robin is three ticks. A process of level 1 that the scheduler runs, and that comes back from \<^verbatim>\<open>yield\<close>, keeps the
  CPU over the first two ticks of the clock, whatever it did before; the third tick takes the CPU away, and the
  process is runnable with a fresh arrival time.
\<close>

theorem rr_quantum:
  fixes s :: "'e pkst_scheme"
  assumes "round_ready a k s" "nx < NPROC" "scheduler_round a k nx s = Ok (Some i, nx') s1"
    and "sched_class (prc i s) = 2" "sched_level (prc i s) = 1" "tf_trapno t = T_IRQ0 + IRQ_TIMER"
  shows "(\<exists>s2. yield_resume a b s1 = Ok () s2 \<and> on_cpu a i s2 \<and> slice a i t s1 0 s2) \<and>
    (\<forall>n u. slice a i t s1 n u \<longrightarrow> n \<le> 2 \<and> (on_cpu a i u \<longrightarrow>
      (if n < 2 then \<exists>v. trap_tick a t u = Ok () v \<and> on_cpu a i v \<and> slice a i t s1 (n + 1) v
       else \<exists>v. trap_tick a t u = Off v \<and> sched_inv v \<and> rr_ready (prc i v) \<and> arrival_time (prc i v) = sint (ticks u))))"
proof (intro conjI allI impI)
  note d = round_dispatches [OF assms(1-3)]
  have z: "rr_ticks (prc i s1) = 0" "sched_class (prc i s1) = 2" "sched_level (prc i s1) = 1" using d(6-8) assms(4,5) by simp_all
  obtain s2 where s2: "yield_resume a b s1 = Ok () s2" "on_cpu a i s2" "ptab s2 = ptab s1"
    using d(1) resumed_on_cpu [OF _ _ _ d(4,3,5)] by blast
  then show "\<exists>s2. yield_resume a b s1 = Ok () s2 \<and> on_cpu a i s2 \<and> slice a i t s1 0 s2"
    using slice_work [OF slice_start s2(2)] by (auto simp: same_charge_def)
  fix n u assume sl: "slice a i t s1 n u"
  note c = slice_charge [OF sl z assms(6)]
  show "n \<le> 2" using c by simp
  assume o: "on_cpu a i u"
  show "if n < 2 then \<exists>v. trap_tick a t u = Ok () v \<and> on_cpu a i v \<and> slice a i t s1 (n + 1) v
       else \<exists>v. trap_tick a t u = Off v \<and> sched_inv v \<and> rr_ready (prc i v) \<and> arrival_time (prc i v) = sint (ticks u)"
    using rr_tick [OF o _ _ assms(6)] c slice_tick [OF sl o] by (auto split: if_splits)
qed

theorem rr_quantum_witness:
  "\<exists>i nx s1 s2 s3 s4 s5. scheduler_round 0 0 2 (sample None four) = Ok (Some i, nx) s1 \<and> yield_resume 0 True s1 = Ok () s2 \<and>
     trap_tick 0 clock_tf s2 = Ok () s3 \<and> trap_tick 0 clock_tf s3 = Ok () s4 \<and> trap_tick 0 clock_tf s4 = Off s5 \<and> rr_ready (prc i s5)"
proof -
  let ?s = "sample None four"
  have r: "round_ready 0 0 ?s" using sample_inv [OF four_fine] by (simp add: round_ready_def)
  have n: "2 < NPROC" "Suc 0 < NPROC" by (simp_all add: NPROC_def)
  obtain r' nx s1 where s1: "scheduler_round 0 0 2 ?s = Ok (r', nx) s1" "policy (table four) 2 r' nx"
    using round_ok [of 0 ?s 0 2] r n by (auto simp: round_ready_def)
  have "\<not> (\<exists>j < NPROC. edf_ready (table four ! j))" by (auto simp: table_nth four_def edf_ready_def nth_Cons')
  moreover have "rr_ready (table four ! Suc 0)" by (simp add: table_def four_def rr_ready_def)
  ultimately obtain i where i: "r' = Some i" "find (\<lambda>i. rr_ready (table four ! i)) (rr_order 2) = Some i"
    using policy_rr [OF s1(2) _ n(2)] by blast
  then have "rr_ready (table four ! i)" by (simp add: find_Some_iff) blast
  then have c: "sched_class (prc i ?s) = 2" "sched_level (prc i ?s) = 1" by (simp_all add: rr_ready_def)
  have t: "tf_trapno clock_tf = T_IRQ0 + IRQ_TIMER" by (simp add: clock_tf_def T_IRQ0_def IRQ_TIMER_def)
  note q = rr_quantum [OF r n(1) s1(1) [unfolded i(1)] c t, of True]
  obtain s2 where s2: "yield_resume 0 True s1 = Ok () s2" "on_cpu 0 i s2" "slice 0 i clock_tf s1 0 s2" using q by blast
  obtain s3 where s3: "trap_tick 0 clock_tf s2 = Ok () s3" "on_cpu 0 i s3" "slice 0 i clock_tf s1 (0 + 1) s3"
    using conjunct2 [OF q] s2(2,3) by (metis less_numeral_extra(1) zero_less_numeral)
  obtain s4 where s4: "trap_tick 0 clock_tf s3 = Ok () s4" "on_cpu 0 i s4" "slice 0 i clock_tf s1 (0 + 1 + 1) s4"
    using conjunct2 [OF q, THEN spec, THEN spec, THEN mp, OF s3(3)] s3(2) by auto
  obtain s5 where "trap_tick 0 clock_tf s4 = Off s5" "rr_ready (prc i s5)"
    using conjunct2 [OF q, THEN spec, THEN spec, THEN mp, OF s4(3)] s4(2) by auto
  then show ?thesis using s1(1) i(1) s2(1) s3(1) s4(1) by blast
qed

text \<open>
  C17. The clock takes the CPU from a running FCFS process exactly when a real-time or a round robin process is ready, and never takes
  it from a real-time process. But \<^verbatim>\<open>is_higher_waiting\<close> has yielded when it returns 1, and \<^verbatim>\<open>trap\<close> yields again then: when the
  scheduler runs the process the next time, which it does only if no process of a higher class is ready, the process
  gives the CPU away at once.
\<close>

theorem clock_preemption:
  fixes s s' :: "'e okst_scheme"
  assumes "on_cpu a me s" "\<not> (sched_class (prc me s) = 2 \<and> sched_level (prc me s) = 1)" "tf_trapno t = T_IRQ0 + IRQ_TIMER"
    and "round_ready a k s'" "nx < NPROC" "fcfs_ready (prc me s')"
  shows "(if sched_class (prc me s) = 2 \<and> (\<exists>i < NPROC. edf_ready (prc i s) \<or> rr_ready (prc i s))
     then \<exists>u. trap_tick a t s = Off u \<and> sched_inv u \<and> fcfs_ready (prc me u) \<and> kctxt (prc me u) = InYield FromHigher (eif (mach s) a)
     else \<exists>u. trap_tick a t s = Ok () u \<and> run_inv a me u) \<and>
    (\<forall>nx' w. scheduler_round a k nx s' = Ok (Some me, nx') w \<longrightarrow>
      \<not> (\<exists>i < NPROC. edf_ready (prc i s') \<or> rr_ready (prc i s')) \<and>
      (\<exists>u. trap_after_higher a t b w = Off u \<and> sched_inv u \<and> fcfs_ready (prc me u)))"
proof (intro conjI allI impI)
  let ?s1 = "upd_proc me tick_fields (settled a s)"
  have o: "quiet a s" "run_inv a me s" "ncli_of a (mach s) = 0" using assms(1) by (simp_all add: on_cpu_def)
  note c = charged(1-3) [OF o, of me] charged(4) [OF o] and i = run_invD [OF o(2)]
  have "count_edf ?s1 = count_edf s" "count_rr ?s1 = count_rr s" by (simp_all add: proc_simps settled_def)
  then have cnt: "count_edf ?s1 > 0 \<or> count_rr ?s1 > 0 \<longleftrightarrow> (\<exists>i < NPROC. edf_ready (prc i s) \<or> rr_ready (prc i s))"
    using counts_pos(1,2) [of s] i by auto
  have cl: "sched_class (prc me s) = 2 \<longleftrightarrow> sched_level (prc me s) = 2" "sched_class (prc me s) \<noteq> 2 \<Longrightarrow> sched_class (prc me s) = 1"
    using i assms(2) by (auto simp: sched_inv_def class_ok_def)
  have e: "trap_tick a t s = (if sched_class (prc me s) = 2 then bnd (is_higher_waiting a ?s1) (\<lambda>r s. if r \<noteq> 0 then yield a FromTrap s else Ok () s)
      else Ok () ?s1)"
    using assms(2,3) cl c(4) by (auto simp: trap_tick_charge [OF o(1,2)] charge_tick_def Let_def)
  have ef: "eif (mach ?s1) a = eif (mach s) a" by (simp add: proc_simps settled_def settle_def split: option.split)
  obtain u where "(yield a FromHigher ?s1 :: (int, 'e okst_scheme) res) = Off u" "sched_inv u" "state (prc me u) = RUNNABLE"
     "sched_class (prc me u) = sched_class (prc me ?s1)" "sched_level (prc me u) = sched_level (prc me ?s1)"
     "kctxt (prc me u) = InYield FromHigher (eif (mach ?s1) a)"
    using yield_leaves [OF c(1,3,2), of FromHigher] by blast
  then show "if sched_class (prc me s) = 2 \<and> (\<exists>i < NPROC. edf_ready (prc i s) \<or> rr_ready (prc i s))
     then \<exists>u. trap_tick a t s = Off u \<and> sched_inv u \<and> fcfs_ready (prc me u) \<and> kctxt (prc me u) = InYield FromHigher (eif (mach s) a)
     else \<exists>u. trap_tick a t s = Ok () u \<and> run_inv a me u"
    using e c(2,4) cl cnt ef by (auto simp: is_higher_waiting_def fcfs_ready_def)
next
  fix nx' w assume ok: "scheduler_round a k nx s' = Ok (Some me, nx') w"
  note d = round_dispatches [OF assms(4,5) ok]
  show "\<not> (\<exists>i < NPROC. edf_ready (prc i s') \<or> rr_ready (prc i s'))"
    using policy_fcfs [OF d(2) assms(6,5)] by blast
  obtain v where v: "yield_resume a b w = Ok () v" "on_cpu a me v" "ptab v = ptab w"
    using d(1) resumed_on_cpu [OF _ _ _ d(4,3,5)] by blast
  obtain u where "(yield a FromTrap v :: (unit, 'e okst_scheme) res) = Off u" "sched_inv u" "state (prc me u) = RUNNABLE"
     "sched_class (prc me u) = sched_class (prc me v)" "sched_level (prc me u) = sched_level (prc me v)"
    using yield_leaves [of a v me FromTrap] v(2) unfolding on_cpu_def by blast
  moreover have "sched_class (prc me v) = 2" "sched_level (prc me v) = 2" using d(7,8) assms(6) v(3) by (simp_all add: fcfs_ready_def)
  ultimately show "\<exists>u. trap_after_higher a t b w = Off u \<and> sched_inv u \<and> fcfs_ready (prc me u)"
    using v(1) by (auto simp: trap_after_higher_def is_higher_waiting_resume_def fcfs_ready_def)
qed

text \<open>An FCFS process while a real-time process is ready, and when the scheduler comes back to it alone.\<close>

definition polite :: "procstate \<Rightarrow> procstate \<Rightarrow> proc list" where
  "polite x y = [a_proc 1 x 2 2, a_proc 2 y 1 0]"

lemma polite_fine: "fine (polite x y)"
  by (simp add: polite_def fine_def class_ok_def NPROC_def)

theorem clock_preemption_witness:
  "(\<exists>u. trap_tick 0 clock_tf (sample (Some 0) (polite RUNNING RUNNABLE)) = Off u \<and> fcfs_ready (prc 0 u)) \<and>
   (\<exists>nx w u. scheduler_round 0 0 0 (sample None (polite RUNNABLE SLEEPING)) = Ok (Some 0, nx) w \<and> trap_after_higher 0 clock_tf True w = Off u)"
proof -
  let ?s = "sample (Some 0) (polite RUNNING RUNNABLE)" and ?t = "sample None (polite RUNNABLE SLEEPING)"
  have "run_inv 0 0 ?s" using sample_inv [OF polite_fine] by (simp add: run_inv_def table_def polite_def NPROC_def)
  then have o: "on_cpu 0 0 ?s" by (simp add: on_cpu_def)
  have r: "round_ready 0 0 ?t" using sample_inv [OF polite_fine] by (auto simp: round_ready_def polite_def intro!: sample_memory)
  have tf: "tf_trapno clock_tf = T_IRQ0 + IRQ_TIMER" by (simp add: clock_tf_def T_IRQ0_def IRQ_TIMER_def)
  have n: "0 < NPROC" by (simp add: NPROC_def)
  have f: "fcfs_ready (prc 0 ?t)" "\<not> (sched_class (prc 0 ?s) = 2 \<and> sched_level (prc 0 ?s) = 1)" "sched_class (prc 0 ?s) = 2"
    by (simp_all add: table_def polite_def fcfs_ready_def)
  note c = clock_preemption [OF o f(2) tf r n f(1), of True]
  have "edf_ready (prc (Suc 0) ?s)" by (simp add: table_def polite_def edf_ready_def)
  then have "sched_class (prc 0 ?s) = 2 \<and> (\<exists>i < NPROC. edf_ready (prc i ?s) \<or> rr_ready (prc i ?s))" using f(3) few(1) by blast
  then have 1: "\<exists>u. trap_tick 0 clock_tf ?s = Off u \<and> fcfs_ready (prc 0 u)" using conjunct1 [OF c] by auto
  obtain r' nx w where w: "scheduler_round 0 0 0 ?t = Ok (r', nx) w" "policy (table (polite RUNNABLE SLEEPING)) 0 r' nx"
    using round_ok [of 0 ?t 0 0] r n by (auto simp: round_ready_def)
  have "\<not> (edf_ready p \<or> rr_ready p \<or> fcfs_ready p)" if "j < NPROC" "j \<noteq> 0" "p = table (polite RUNNABLE SLEEPING) ! j" for j p
    using that by (auto simp: table_nth polite_def edf_ready_def rr_ready_def fcfs_ready_def nth_Cons' split: if_splits)
  then have "r' = Some 0" using policy_runnable [OF w(2) _ n] policy_idle [of _ 0 nx 0] w(2) f(1) n by (cases r') auto
  then show ?thesis using 1 w(1) conjunct2 [OF c] by blast
qed

section \<open>Where the code breaks its own rules\<close>

text \<open>
  C22. \<^verbatim>\<open>change_sched_level\<close> on a process that is already in the target level returns -1 with \<^verbatim>\<open>ptable.lock\<close>
  still held, so the next acquisition of that lock on this CPU panics.
\<close>

theorem change_level_leaks_lock:
  assumes "quiet a s" "sched_inv s" "i < NPROC" "state (prc i s) \<noteq> UNUSED" "sched_level (prc i s) = target" "target = 1 \<or> target = 2"
  shows "\<exists>t. change_sched_level a (pid (prc i s)) target s = Ok (-1) t \<and> held a PtableLock (mach t) \<and>
    acquire a PtableLock t = Panic ''acquire''"
proof -
  have len: "length (ptab s) = NPROC" using assms(2) by (rule sched_inv_length)
  have f: "find_proc (\<lambda>p. pid p = pid (prc i s)) (ptab s) 0 = Some i"
    using assms len by (intro find_pid) (simp_all add: sched_inv_def pids_ok_def)
  let ?t = "consputs same_level_msg (s\<lparr>mach := acq a PtableLock (mach s)\<rparr>)"
  have "change_sched_level a (pid (prc i s)) target s = Ok (-1) ?t"
    using change_level_ok [OF assms(1,6)] f assms(5) by simp
  moreover have "held a PtableLock (mach ?t)" by simp
  moreover have "acquire a PtableLock ?t = Panic ''acquire''"
    using assms(1) by (intro acquire_held) (simp_all add: quiet_def)
  ultimately show ?thesis by blast
qed

theorem change_level_leaks_lock_witness:
  "\<exists>t. change_sched_level 0 3 2 (sample (Some 0) crew) = Ok (-1) t \<and> held 0 PtableLock (mach t) \<and>
    acquire 0 PtableLock t = Panic ''acquire''"
  using change_level_leaks_lock [of 0 "sample (Some 0) crew" 2 2] sample_inv [OF crew_fine] by simp

text \<open>
  C23. \<^verbatim>\<open>change_sched_level\<close> on a runnable real-time process moves a unit from the FCFS counter to the
  round robin counter although the process was counted as real-time: the counters no longer agree
  with the table.
\<close>

theorem change_level_breaks_counts:
  assumes "quiet a s" "sched_inv s" "i < NPROC" "edf_ready (prc i s)" "target = 1 \<or> target = 2"
  shows "\<exists>t. change_sched_level a (pid (prc i s)) target s = Ok 0 t \<and> count_fcfs t = count_fcfs s - 1 \<and>
    cnt fcfs_ready (ptab t) = cnt fcfs_ready (ptab s) \<and> \<not> counts_ok t"
proof -
  have len: "length (ptab s) = NPROC" using assms(2) by (rule sched_inv_length)
  have st: "state (prc i s) = RUNNABLE" "sched_class (prc i s) = 1" "sched_level (prc i s) = 0"
    using assms by (auto simp: edf_ready_def sched_inv_def class_ok_def)
  have f: "find_proc (\<lambda>p. pid p = pid (prc i s)) (ptab s) 0 = Some i"
    using assms len st by (intro find_pid) (simp_all add: sched_inv_def pids_ok_def)
  let ?t = "consputs (level_msg (pid (prc i s)) 0 target) (to_level i target (settled a s))"
  have c: "change_sched_level a (pid (prc i s)) target s = Ok 0 ?t"
    using change_level_ok [OF assms(1,5)] f assms(5) st by auto
  have n: "count_fcfs ?t = count_fcfs s - 1"
    using st by (simp add: to_level_def proc_simps) (simp add: settled_def)
  have p: "cnt fcfs_ready (ptab ?t) = cnt fcfs_ready (ptab s)"
    using st assms(3) len by (simp add: cnt_update fcfs_ready_def)
  have "count_fcfs s = cnt fcfs_ready (ptab s)" using assms(2) by (simp add: sched_inv_def counts_ok_def)
  then have "\<not> counts_ok ?t" using n p by (simp add: counts_ok_def)
  then show ?thesis using c n p by blast
qed

theorem change_level_breaks_counts_witness:
  "\<exists>t. change_sched_level 0 4 1 (sample (Some 0) crew) = Ok 0 t \<and> count_fcfs t = 0 \<and> cnt fcfs_ready (ptab t) = 1 \<and> \<not> counts_ok t"
proof -
  have "cnt fcfs_ready crew = 1" by (simp add: crew_def fcfs_ready_def)
  then show ?thesis
    using change_level_breaks_counts [of 0 "sample (Some 0) crew" 3 1] sample_inv [OF crew_fine]
    by (simp add: edf_ready_def)
qed

lemma find_proc_at: "i < length ps \<Longrightarrow> P (ps ! i) \<Longrightarrow> (\<And>j. j < i \<Longrightarrow> \<not> P (ps ! j)) \<Longrightarrow> find_proc P ps k = Some (k + i)"
proof (induction ps arbitrary: i k)
  case (Cons p ps)
  show ?case
  proof (cases i)
    case (Suc l)
    have "\<not> P p" using Cons.prems(3) [of 0] Suc by simp
    moreover have "\<not> P (ps ! j)" if "j < l" for j using Cons.prems(3) [of "Suc j"] that Suc by simp
    then have "find_proc P ps (Suc k) = Some (Suc k + l)"
      using Cons.prems Suc by (intro Cons.IH) auto
    ultimately show ?thesis using Suc by simp
  qed (use Cons.prems in simp)
qed simp

lemmas find_proc_first = find_proc_at [where k = 0, simplified]

text \<open>
  C24. \<^verbatim>\<open>kill\<close> does not look at the state of the slot it finds: \<^verbatim>\<open>kill(0)\<close> reports success on a free slot,
  and \<^verbatim>\<open>allocproc\<close> does not clear the mark, so the next process in that slot is born killed.
\<close>

theorem kill_poisons_free_slot:
  assumes "quiet a s" "sched_inv s" "find_proc (\<lambda>p. state p = UNUSED) (ptab s) 0 = Some j" "pid (prc j s) = 0" "freelist s \<noteq> 0"
  shows "\<exists>t u. kill a 0 s = Ok 0 t \<and> allocproc a t = Ok (Some j) u \<and> killed (prc j u)"
proof -
  note u = find_proc_0 [OF assms(3)]
  have len: "length (ptab s) = NPROC" using assms(2) by (rule sched_inv_length)
  have "pid (prc i s) \<noteq> 0" if "i < j" for i
  proof -
    have "i < NPROC" "state (prc i s) \<noteq> UNUSED" using u that len by simp_all
    then have "0 < pid (prc i s)" using assms(2) by (simp add: sched_inv_def pids_ok_def)
    then show ?thesis by simp
  qed
  then have f: "find_proc (\<lambda>p. pid p = 0) (ptab s) 0 = Some j"
    using u assms(4) find_proc_first [of j "ptab s" "\<lambda>p. pid p = 0"] by simp
  let ?t = "killed_at j (settled a s)"
  have t: "?t = upd_proc j (\<lambda>p. p\<lparr>killed := True\<rparr>) (settled a s)"
    using u by (simp add: killed_at_def Let_def proc_simps)
  have k: "kill a 0 s = Ok 0 ?t" using f kill_ok [OF assms(1)] by simp
  have q: "quiet a ?t" using assms(1) by (simp add: t)
  have "find_proc (\<lambda>p. state p = UNUSED) (ptab ?t) 0 = Some j"
    using u by (intro find_proc_first) (auto simp: t proc_simps nth_upd)
  moreover have "freelist ?t \<noteq> 0" using assms(5) unfolding t by (simp add: settled_def upd_proc_def)
  ultimately have "allocproc a ?t = Ok (Some j) (with_stack j (freelist ?t) (ksettle a (kalloced (embryo j (settled a ?t)))))"
    by (simp add: allocproc_ok [OF q])
  moreover have "killed (prc j (with_stack j v (ksettle a (kalloced (embryo j (settled a ?t))))))" for v
    using u len by (simp add: with_stack_def t proc_simps alloc_fields_def)
  ultimately show ?thesis using k by blast
qed

theorem kill_poisons_free_slot_witness:
  "\<exists>t u. kill 0 0 ((sample (Some 0) crew)\<lparr>freelist := 0x8DF00000\<rparr>) = Ok 0 t \<and> allocproc 0 t = Ok (Some 4) u \<and> killed (prc 4 u)"
proof (rule kill_poisons_free_slot)
  let ?s = "(sample (Some 0) crew)\<lparr>freelist := 0x8DF00000\<rparr>"
  show "quiet 0 ?s" by (simp add: quiet_def locks_free_def)
  show "sched_inv ?s" using sample_inv [OF crew_fine, of "Some 0"]
    by (simp add: sched_inv_def counts_ok_def pids_ok_def)
  show "find_proc (\<lambda>p. state p = UNUSED) (ptab ?s) 0 = Some 4"
    by (rule find_proc_first) (auto simp: table_def crew_def NPROC_def nth_Cons' nth_append)
  show "pid (prc 4 ?s) = 0" by (simp add: table_def crew_def NPROC_def)
qed simp

lemma all_aged_frame: "ticks (all_aged now s) = ticks s" "quiet a (all_aged now s) = quiet a s"
proof -
  have step: "ticks (aged now i s) = ticks s" "quiet a (aged now i s) = quiet a s" for i and s :: "'a pkst_scheme"
    by (simp_all add: aged_def Let_def proc_simps) (simp add: to_level_def quiet_def locks_free_def consputs_def proc_simps)
  have "ticks (fold (aged now) is s) = ticks s \<and> quiet a (fold (aged now) is s) = quiet a s" for "is"
    by (induction "is" arbitrary: s) (simp_all add: step)
  then show "ticks (all_aged now s) = ticks s" "quiet a (all_aged now s) = quiet a s" by (simp_all add: all_aged_def)
qed

lemma forR_stop:
  assumes "i \<in> set is" "P i s" "\<And>i. P i s \<Longrightarrow> f i s = Panic msg"
  shows "forR is (\<lambda>i s. if P i s then f i s else Ok () s) s = Panic msg"
  using assms(1,2) by (induction "is") (auto simp: assms(3))

lemma forR_skip: "(\<And>i. i \<in> set is \<Longrightarrow> \<not> P i s) \<Longrightarrow> forR is (\<lambda>i s. if P i s then f i s else Ok () s) s = Ok () s"
  by (induction "is") auto

text \<open>The clock interrupt up to the search for sleepers: both locks are held.\<close>

definition tick_locks :: "nat \<Rightarrow> 'e pkst_scheme \<Rightarrow> 'e pkst_scheme" where
  "tick_locks a s = s\<lparr>ticks := ticks s + 1, mach := acq a PtableLock (acq a TicksLock (mach s))\<rparr>"

lemma tick_locks_fields [simp]:
  "ptab (tick_locks a s) = ptab s" "mach (tick_locks a s) = acq a PtableLock (acq a TicksLock (mach s))"
  "ticks (tick_locks a s) = ticks s + 1"
  by (simp_all add: tick_locks_def)

lemma timer_start:
  assumes q: "quiet a s" and e: "\<not> eif (mach s) a" and ix: "cpu_ix a (mach s) = Some 0"
  shows "trap_timer a s =
    bnd (bnd (wakeup1 a (Some ChTicks) (tick_locks a s)) (\<lambda>_ s. release a PtableLock s)) (\<lambda>_ t.
      bnd (release a TicksLock t) (\<lambda>_ t. bnd (update_wait_time a (sint (ticks s + 1)) t) (\<lambda>_ t. Ok () t)))"
proof -
  have m: "onM (mycpu a) s = Ok 0 s" using e ix by (simp add: onM_def mycpu_def)
  have t: "acquire a TicksLock s = Ok () (s\<lparr>mach := acq a TicksLock (mach s)\<rparr>)"
    using q by (simp add: quiet_def locks_free_def acquire_kst)
  have p: "acquire a PtableLock (s\<lparr>mach := acq a TicksLock (mach s), ticks := ticks s + 1\<rparr>) = Ok () (tick_locks a s)"
    using q by (simp add: quiet_def locks_free_def acquire_kst tick_locks_def)
  show ?thesis by (simp add: trap_timer_def m t wakeup_def p)
qed

text \<open>
  C15. The clock interrupt holds \<^verbatim>\<open>tickslock\<close> while it calls \<^verbatim>\<open>wakeup(&ticks)\<close>, which takes \<^verbatim>\<open>tickslock\<close> again
  for every process it wakes: with any process asleep in \<^verbatim>\<open>sleep()\<close> the kernel panics at the next tick;
  without one the tick is counted, waiting processes age and the invariant is kept.
\<close>

theorem timer_tick:
  fixes s :: "'e pkst_scheme"
  assumes "quiet a s" "\<not> eif (mach s) a" "cpu_ix a (mach s) = Some 0" "sched_inv s"
  shows "if \<exists>i < NPROC. state (prc i s) = SLEEPING \<and> pchan (prc i s) = Some ChTicks
    then trap_timer a s = Panic ''acquire''
    else \<exists>t. trap_timer a s = Ok () t \<and> ticks t = ticks s + 1 \<and> sched_inv t \<and> quiet a t"
proof (cases "\<exists>i < NPROC. state (prc i s) = SLEEPING \<and> pchan (prc i s) = Some ChTicks")
  case True
  let ?P = "\<lambda>i (s :: 'e pkst_scheme). state (prc i s) = SLEEPING \<and> pchan (prc i s) = Some ChTicks"
  have held: "make_runnable a i (tick_locks a s) = Panic ''acquire''" for i
  proof -
    have "acquire a TicksLock (upd_proc i f (tick_locks a s)) = Panic ''acquire''" for f
      using assms(1) by (intro acquire_held) (simp_all add: quiet_def proc_simps)
    then show ?thesis by (simp add: make_runnable_def stamp_arrival_def)
  qed
  obtain i where "i < NPROC" "?P i s" using True by blast
  then have "wakeup1 a (Some ChTicks) (tick_locks a s) = Panic ''acquire''"
    unfolding wakeup1_def by (intro forR_stop [of i]) (simp_all add: held)
  then show ?thesis using True timer_start [OF assms(1-3)] by simp
next
  case False
  let ?s = "s\<lparr>ticks := ticks s + 1\<rparr>"
  have w: "wakeup1 a (Some ChTicks) (tick_locks a s) = Ok () (tick_locks a s)"
    unfolding wakeup1_def by (rule forR_skip) (use False in auto)
  have r1: "release a PtableLock (tick_locks a s) = Ok () (?s\<lparr>mach := acq a TicksLock (mach s)\<rparr>)"
    using assms(1) release_kst [of "tick_locks a s" a PtableLock "acq a TicksLock (mach s)"]
    by (simp add: quiet_def locks_free_def) (simp add: tick_locks_def)
  have r2: "release a TicksLock (?s\<lparr>mach := acq a TicksLock (mach s)\<rparr>) = Ok () (settled a ?s)"
    using assms(1) by (simp add: quiet_def locks_free_def release_kst settled_def)
  have q: "quiet a (settled a ?s)" using assms(1) by (simp add: quiet_def locks_free_def settled_def)
  have inv: "sched_inv (settled a ?s)" using assms(4) unfolding sched_inv_settled by (simp add: sched_inv_def counts_ok_def pids_ok_def)
  let ?t = "all_aged (sint (ticks s + 1)) (settled a (settled a ?s))"
  have "ticks ?t = ticks s + 1" "quiet a ?t" using q by (simp_all add: all_aged_frame) (simp add: settled_def)
  moreover have "sched_inv ?t" using inv by (simp add: sched_inv_all_aged)
  moreover have "trap_timer a s = Ok () ?t"
    using timer_start [OF assms(1-3)] w r1 r2 update_wait_time_ok [OF q inv] by simp
  ultimately show ?thesis using False by auto
qed

text \<open>In an interrupt, with a process in \<^verbatim>\<open>sleep()\<close> and without.\<close>

definition in_trap :: "proc list \<Rightarrow> ikst" where
  "in_trap ps = (sample (Some 0) ps)\<lparr>mach := set_if 0 False (one_cpu (Some 0))\<rparr>"

lemma in_trap_quiet [simp]: "quiet 0 (in_trap ps)"
  by (simp add: quiet_def in_trap_def ready_set_if locks_free_def)

lemma in_trap_fields [simp]: "ptab (in_trap ps) = table ps" "ticks (in_trap ps) = 7" "cpu_ix 0 (mach (in_trap ps)) = Some 0"
  "\<not> eif (mach (in_trap ps)) 0"
  by (simp_all add: in_trap_def set_if_def)

lemma in_trap_inv: "fine ps \<Longrightarrow> sched_inv (in_trap ps)"
  using sample_inv by (simp add: in_trap_def)

definition nap :: "proc list" where
  "nap = [a_proc 1 RUNNING 2 1, (a_proc 2 SLEEPING 2 2)\<lparr>pchan := Some ChTicks\<rparr>]"

theorem timer_tick_witness:
  "trap_timer 0 (in_trap nap) = Panic ''acquire'' \<and>
   (\<exists>t. trap_timer 0 (in_trap crew) = Ok () t \<and> ticks t = 8 \<and> sched_inv t \<and> quiet 0 t)"
proof
  have "fine nap" by (simp add: nap_def fine_def class_ok_def NPROC_def)
  moreover have "\<exists>i < NPROC. state (table nap ! i) = SLEEPING \<and> pchan (table nap ! i) = Some ChTicks"
    by (rule exI [of _ "Suc 0"]) (simp add: table_def nap_def)
  ultimately show "trap_timer 0 (in_trap nap) = Panic ''acquire''"
    using timer_tick [of 0 "in_trap nap"] in_trap_inv by simp
  have "\<not> (\<exists>i < NPROC. state (table crew ! i) = SLEEPING \<and> pchan (table crew ! i) = Some ChTicks)"
    by (auto simp: table_nth crew_def nth_Cons')
  then show "\<exists>t. trap_timer 0 (in_trap crew) = Ok () t \<and> ticks t = 8 \<and> sched_inv t \<and> quiet 0 t"
    using timer_tick [of 0 "in_trap crew"] in_trap_inv [OF crew_fine] by (auto split: if_splits)
qed

end
