(* ===== verification/Cache.thy ===== *)
theory Cache
  imports Log Proc_Ops
begin

text \<open>
  The buffer cache at work for one process while no other process holds or waits for a buffer:
  what \<^verbatim>\<open>bread\<close>, \<^verbatim>\<open>bwrite\<close> and \<^verbatim>\<open>brelse\<close> do to the cache and to the disk, and the invariant that
  a block has one buffer and a clean buffer has the block's content on disk.
\<close>

section \<open>Uncontended locks\<close>

text \<open>Process \<open>me\<close> runs on CPU \<open>a\<close>, no spinlock is taken, and nobody waits for a sleep lock.\<close>

definition calm :: "nat \<Rightarrow> nat \<Rightarrow> 'e pkst_scheme \<Rightarrow> bool" where
  "calm a me s \<longleftrightarrow> ready a s \<and> settle a (mach s) = mach s \<and> (\<forall>l. lk_free l (mach s)) \<and> cur a (mach s) = Some me \<and>
     (\<forall>i < NPROC. \<forall>l. state (prc i s) = SLEEPING \<longrightarrow> pchan (prc i s) \<noteq> Some (ChSleepLock l))"

lemma calm_cong: "mach t = mach s \<Longrightarrow> ptab t = ptab s \<Longrightarrow> calm a me t = calm a me s"
  by (simp add: calm_def)

lemma calm_acquire [simp]: "calm a me s \<Longrightarrow> acquire a l s = Ok () (s\<lparr>mach := acq a l (mach s)\<rparr>)"
  by (simp add: calm_def acquire_kst)

lemma calm_release [simp]: "calm a me s \<Longrightarrow> release a l (s\<lparr>mach := acq a l (mach s)\<rparr>) = Ok () s"
  by (simp add: calm_def release_kst)

lemma calm_myproc [simp]: "calm a me s \<Longrightarrow> myproc a (s\<lparr>mach := acq a l (mach s)\<rparr>) = Ok (Some me) (s\<lparr>mach := acq a l (mach s)\<rparr>)"
  by (simp add: calm_def myproc_ok)

lemma woken_idle:
  assumes "\<And>i. i < NPROC \<Longrightarrow> \<not> (state (prc i s) = SLEEPING \<and> pchan (prc i s) = ch)"
  shows "woken ch s = s"
proof -
  have "fold (wake_step ch) is s = s" if "set is \<subseteq> {0..<NPROC}" for "is"
    using that by (induction "is") (simp_all add: wake_step_def assms)
  then show ?thesis by (simp add: woken_def)
qed

lemma calm_wakeup [simp]:
  assumes "calm a me s" "l' \<noteq> PtableLock" "l' \<noteq> TicksLock" "l' \<noteq> ConsLock" "l' \<noteq> KmemLock"
  shows "wakeup a (ChSleepLock l) (s\<lparr>mach := acq a l' (mach s)\<rparr>) = Ok () (s\<lparr>mach := acq a l' (mach s)\<rparr>)"
proof -
  let ?s = "s\<lparr>mach := acq a l' (mach s)\<rparr>"
  have "quiet a ?s" using assms by (simp add: calm_def quiet_def locks_free_def)
  moreover have "settled a ?s = ?s" using assms by (simp add: calm_def settled_def)
  moreover have "woken (Some (ChSleepLock l)) ?s = ?s" using assms(1) by (intro woken_idle) (simp add: calm_def)
  ultimately show ?thesis by (simp add: wakeup_ok)
qed

section \<open>Sleep locks\<close>

lemma set_slock_mach: "set_slock l b n (s\<lparr>mach := m\<rparr>) = (set_slock l b n s)\<lparr>mach := m\<rparr>"
  by (simp add: set_slock_def)

lemma set_slock_fields [simp]:
  "mach (set_slock l b n s) = mach s" "ptab (set_slock l b n s) = ptab s"
  "slocks (set_slock l b n s) = (slocks s)(l := (slocks s l)\<lparr>sl_locked := b, sl_pid := n\<rparr>)"
  by (simp_all add: set_slock_def)

lemma calm_slock [simp]: "calm a me (set_slock l b n s) = calm a me s"
  by (rule calm_cong) simp_all

lemma calm_release_eq: "calm a me s \<Longrightarrow> m = mach s \<Longrightarrow> release a l (s\<lparr>mach := acq a l m\<rparr>) = Ok () s"
  by simp

lemma calm_wakeup_eq:
  "calm a me s \<Longrightarrow> m = mach s \<Longrightarrow> wakeup a (ChSleepLock l) (s\<lparr>mach := acq a (SleepLk k) m\<rparr>) = Ok () (s\<lparr>mach := acq a (SleepLk k) m\<rparr>)"
  using calm_wakeup [of a me s "SleepLk k" l] by simp

lemma calm_acquiresleep:
  "calm a me s \<Longrightarrow> \<not> sl_locked (slocks s l) \<Longrightarrow> acquiresleep a l s = Ok () (set_slock l True (pid (prc me s)) s)"
  by (simp add: acquiresleep_def acquiresleep_loop_def with_myproc_def set_slock_mach calm_release_eq [of a me])

lemma calm_releasesleep: "calm a me s \<Longrightarrow> releasesleep a l s = Ok () (set_slock l False 0 s)"
  by (simp add: releasesleep_def set_slock_mach calm_wakeup_eq [of a me] calm_release_eq [of a me])

lemma calm_holdingsleep:
  "calm a me s \<Longrightarrow> holdingsleep a l s = Ok (sl_locked (slocks s l) \<and> sl_pid (slocks s l) = pid (prc me s)) s"
  by (simp add: holdingsleep_def with_myproc_def)

section \<open>The invariant of the cache\<close>

text \<open>
  \<open>pend s b\<close>: the data of block \<open>b\<close> that is in the cache and not yet on disk; \<open>content s b\<close>: what a
  reader of block \<open>b\<close> finds. \<open>cache_ok a me H s\<close>: the buffers \<open>H\<close> are locked by process \<open>me\<close>, the others
  are free; a block of the disk has at most one buffer, and a valid buffer has the block's content.
\<close>

definition pend :: "'e bkst_scheme \<Rightarrow> u32 \<Rightarrow> block option" where
  "pend s b = map_option (\<lambda>i. b_data (bf i s)) (find (\<lambda>i. b_dirty (bf i s) \<and> b_blockno (bf i s) = b) [0..<NBUF])"

definition content :: "'e bkst_scheme \<Rightarrow> u32 \<Rightarrow> block" where
  "content s b = (case pend s b of Some d \<Rightarrow> d | None \<Rightarrow> disk s ! unat b)"

definition held_by :: "nat \<Rightarrow> nat set \<Rightarrow> 'e bkst_scheme \<Rightarrow> bool" where
  "held_by me H s \<longleftrightarrow> H \<subseteq> {0..<NBUF} \<and>
     (\<forall>i < NBUF. sl_locked (slocks s (BufLock i)) = (i \<in> H) \<and> b_refcnt (bf i s) = of_bool (i \<in> H)) \<and>
     (\<forall>i \<in> H. sl_pid (slocks s (BufLock i)) = pid (prc me s) \<and> b_valid (bf i s))"

definition bufs_ok :: "buf list \<Rightarrow> block list \<Rightarrow> bool" where
  "bufs_ok bs d \<longleftrightarrow> length bs = NBUF \<and>
     (\<forall>i < NBUF. (b_dirty (bs ! i) \<longrightarrow> b_valid (bs ! i)) \<and> (b_valid (bs ! i) \<longrightarrow> b_dev (bs ! i) = 1) \<and>
        (b_dev (bs ! i) = 1 \<longrightarrow> unat (b_blockno (bs ! i)) < length d) \<and>
        (b_valid (bs ! i) \<and> \<not> b_dirty (bs ! i) \<longrightarrow> b_data (bs ! i) = d ! unat (b_blockno (bs ! i)))) \<and>
     (\<forall>i < NBUF. \<forall>j < NBUF. b_dev (bs ! i) = 1 \<and> b_dev (bs ! j) = 1 \<and> b_blockno (bs ! i) = b_blockno (bs ! j) \<longrightarrow> i = j)"

definition cache_ok :: "nat \<Rightarrow> nat \<Rightarrow> nat set \<Rightarrow> 'e bkst_scheme \<Rightarrow> bool" where
  "cache_ok a me H s \<longleftrightarrow> calm a me s \<and> distinct (lru s) \<and> set (lru s) = {0..<NBUF} \<and> held_by me H s \<and> bufs_ok (bufs s) (disk s)"

lemma cache_okD:
  assumes "cache_ok a me H s"
  shows "calm a me s" "distinct (lru s)" "set (lru s) = {0..<NBUF}" "held_by me H s" "bufs_ok (bufs s) (disk s)" "length (bufs s) = NBUF"
  using assms by (simp_all add: cache_ok_def bufs_ok_def)

lemma bufs_okD:
  assumes "bufs_ok bs d" "i < NBUF"
  shows "b_dirty (bs ! i) \<Longrightarrow> b_valid (bs ! i)" "b_valid (bs ! i) \<Longrightarrow> b_dev (bs ! i) = 1"
    "b_dev (bs ! i) = 1 \<Longrightarrow> unat (b_blockno (bs ! i)) < length d"
    "b_valid (bs ! i) \<Longrightarrow> \<not> b_dirty (bs ! i) \<Longrightarrow> b_data (bs ! i) = d ! unat (b_blockno (bs ! i))"
    "j < NBUF \<Longrightarrow> b_dev (bs ! i) = 1 \<Longrightarrow> b_dev (bs ! j) = 1 \<Longrightarrow> b_blockno (bs ! i) = b_blockno (bs ! j) \<Longrightarrow> i = j"
  using assms by (auto simp: bufs_ok_def)

text \<open>The pending data of a block, by its buffer.\<close>

lemma one_buffer:
  assumes "bufs_ok (bufs s) d" "i < NBUF" "j < NBUF" "b_valid (bf i s)" "b_valid (bf j s)" "b_blockno (bf i s) = b_blockno (bf j s)"
  shows "i = j"
  by (rule bufs_okD(5) [OF assms(1,2,3) bufs_okD(2) [OF assms(1,2,4)] bufs_okD(2) [OF assms(1,3,5)] assms(6)])

lemma pend_Some:
  assumes "bufs_ok (bufs s) (disk s)" "i < NBUF" "b_dirty (bf i s)"
  shows "pend s (b_blockno (bf i s)) = Some (b_data (bf i s))"
proof -
  have "find (\<lambda>j. b_dirty (bf j s) \<and> b_blockno (bf j s) = b_blockno (bf i s)) [0..<NBUF] = Some i"
  proof (rule find_unique)
    fix j assume j: "j \<in> set [0..<NBUF]" "b_dirty (bf j s) \<and> b_blockno (bf j s) = b_blockno (bf i s)"
    then have "j < NBUF" "b_dirty (bf j s)" "b_blockno (bf j s) = b_blockno (bf i s)" by auto
    then show "j = i"
      using assms one_buffer [OF assms(1), of j i] bufs_okD(1) [OF assms(1)] by blast
  qed (use assms in auto)
  then show ?thesis by (simp add: pend_def)
qed

lemma pend_SomeD: "pend s b = Some d \<Longrightarrow> \<exists>i < NBUF. b_dirty (bf i s) \<and> b_blockno (bf i s) = b \<and> b_data (bf i s) = d"
  by (auto simp: pend_def find_Some_iff)

lemma pend_None_iff: "pend s b = None \<longleftrightarrow> (\<forall>i < NBUF. \<not> (b_dirty (bf i s) \<and> b_blockno (bf i s) = b))"
  by (auto simp: pend_def find_None_iff)

lemma content_valid:
  assumes "bufs_ok (bufs s) (disk s)" "i < NBUF" "b_valid (bf i s)"
  shows "content s (b_blockno (bf i s)) = b_data (bf i s)"
proof (cases "b_dirty (bf i s)")
  case True
  then show ?thesis using pend_Some [OF assms(1,2)] by (simp add: content_def)
next
  case False
  have "pend s (b_blockno (bf i s)) = None"
  proof (rule ccontr)
    assume "pend s (b_blockno (bf i s)) \<noteq> None"
    then obtain j where "j < NBUF" "b_dirty (bf j s)" "b_blockno (bf j s) = b_blockno (bf i s)"
      using pend_SomeD [of s "b_blockno (bf i s)"] by blast
    then have "j = i" using assms one_buffer [OF assms(1), of j i] bufs_okD(1) [OF assms(1)] by blast
    then show False using \<open>b_dirty (bf j s)\<close> False by simp
  qed
  then show ?thesis using bufs_okD(4) [OF assms False] by (simp add: content_def)
qed

lemma pend_cong:
  assumes "\<And>i. i < NBUF \<Longrightarrow> b_dirty (bf i t) = b_dirty (bf i s) \<and>
    (b_dirty (bf i s) \<longrightarrow> b_blockno (bf i t) = b_blockno (bf i s) \<and> b_data (bf i t) = b_data (bf i s))"
  shows "pend t = pend s"
proof
  fix b
  have e: "find (\<lambda>i. b_dirty (bf i t) \<and> b_blockno (bf i t) = b) [0..<NBUF] = find (\<lambda>i. b_dirty (bf i s) \<and> b_blockno (bf i s) = b) [0..<NBUF]"
    by (rule find_cong) (use assms in auto)
  show "pend t b = pend s b"
  proof (cases "find (\<lambda>i. b_dirty (bf i s) \<and> b_blockno (bf i s) = b) [0..<NBUF]")
    case (Some i)
    then have "i < NBUF" "b_dirty (bf i s)" by (auto simp: find_Some_iff)
    then show ?thesis using Some assms [of i] by (simp add: pend_def e)
  qed (simp add: pend_def e)
qed

section \<open>Reading\<close>

lemma upd_buf_fields [simp]:
  "mach (upd_buf i f s) = mach s" "ptab (upd_buf i f s) = ptab s" "slocks (upd_buf i f s) = slocks s"
  "bufs (upd_buf i f s) = (bufs s)[i := f (bf i s)]" "lru (upd_buf i f s) = lru s" "disk (upd_buf i f s) = disk s"
  "wtrace (upd_buf i f s) = wtrace s" "bkst.more (upd_buf i f s) = bkst.more s"
  by (simp_all add: upd_buf_def)

lemma set_slock_buf_fields [simp]:
  fixes s :: "'e bkst_scheme"
  shows "bufs (set_slock l b n s) = bufs s" "lru (set_slock l b n s) = lru s" "disk (set_slock l b n s) = disk s"
    "wtrace (set_slock l b n s) = wtrace s" "bkst.more (set_slock l b n s) = bkst.more s"
  by (simp_all add: set_slock_def)

lemma upd_buf_mach: "upd_buf i f (s\<lparr>mach := m\<rparr>) = (upd_buf i f s)\<lparr>mach := m\<rparr>"
  by (simp add: upd_buf_def)

lemma calm_upd_buf [simp]: "calm a me (upd_buf i f s) = calm a me s"
  by (rule calm_cong) simp_all

lemma upd_buf_slock: "upd_buf i f (set_slock l b n s) = set_slock l b n (upd_buf i f s)"
  by (simp add: upd_buf_def set_slock_def)

lemma upd_buf_twice: "i < length (bufs s) \<Longrightarrow> upd_buf i f (upd_buf i g s) = upd_buf i (\<lambda>x. f (g x)) s"
  by (simp add: upd_buf_def)

lemma upd_buf_cong: "f (bf i s) = g (bf i s) \<Longrightarrow> upd_buf i f s = upd_buf i g s"
  by (simp add: upd_buf_def)

lemma iderw_read:
  assumes "calm a me s" "i < length (bufs s)" "sl_locked (slocks s (BufLock i))" "sl_pid (slocks s (BufLock i)) = pid (prc me s)"
    "b_dev (bf i s) = 1" "unat (b_blockno (bf i s)) < length (disk s)" "\<not> b_valid (bf i s)" "\<not> b_dirty (bf i s)"
  shows "iderw a i s = Ok () (upd_buf i (\<lambda>x. x\<lparr>b_data := disk s ! unat (b_blockno (bf i s)), b_valid := True\<rparr>) s)"
  using assms by (simp add: iderw_def calm_holdingsleep [of a me] Let_def upd_buf_twice not_le)

lemma iderw_write:
  assumes "calm a me s" "i < length (bufs s)" "sl_locked (slocks s (BufLock i))" "sl_pid (slocks s (BufLock i)) = pid (prc me s)"
    "b_dev (bf i s) = 1" "unat (b_blockno (bf i s)) < length (disk s)" "b_dirty (bf i s)"
  shows "iderw a i s = Ok () ((upd_buf i (\<lambda>x. x\<lparr>b_dirty := False, b_valid := True\<rparr>) s)
    \<lparr>disk := (disk s)[unat (b_blockno (bf i s)) := b_data (bf i s)], wtrace := wtrace s @ [(unat (b_blockno (bf i s)), b_data (bf i s))]\<rparr>)"
  using assms by (simp add: iderw_def calm_holdingsleep [of a me] Let_def not_le) (simp add: upd_buf_def)

text \<open>Buffer \<open>i\<close> taken for block \<open>b\<close>, with the block's content.\<close>

definition took :: "nat \<Rightarrow> u32 \<Rightarrow> int \<Rightarrow> 'e bkst_scheme \<Rightarrow> 'e bkst_scheme" where
  "took i b p s = set_slock (BufLock i) True p
     (upd_buf i (\<lambda>x. x\<lparr>b_valid := True, b_dev := 1, b_blockno := b, b_refcnt := 1, b_data := content s b\<rparr>) s)"

lemma took_fields [simp]:
  "i < length (bufs s) \<Longrightarrow> bf i (took i b p s) = (bf i s)\<lparr>b_valid := True, b_dev := 1, b_blockno := b, b_refcnt := 1, b_data := content s b\<rparr>"
  "j \<noteq> i \<Longrightarrow> bf j (took i b p s) = bf j s" "disk (took i b p s) = disk s" "wtrace (took i b p s) = wtrace s"
  "bkst.more (took i b p s) = bkst.more s" "mach (took i b p s) = mach s" "ptab (took i b p s) = ptab s"
  by (simp_all add: took_def)

lemma bget_hit:
  assumes "calm a me s" "find (\<lambda>i. b_dev (bf i s) = dev \<and> b_blockno (bf i s) = b) (lru s) = Some i" "\<not> sl_locked (slocks s (BufLock i))"
  shows "bget a dev b s = Ok i (set_slock (BufLock i) True (pid (prc me s)) (upd_buf i (\<lambda>x. x\<lparr>b_refcnt := b_refcnt x + 1\<rparr>) s))"
  using assms by (simp add: bget_def upd_buf_mach calm_release_eq [of a me] calm_acquiresleep [of a me])

lemma bget_miss:
  assumes "calm a me s" "find (\<lambda>i. b_dev (bf i s) = dev \<and> b_blockno (bf i s) = b) (lru s) = None"
    "find (\<lambda>i. b_refcnt (bf i s) = 0 \<and> \<not> b_dirty (bf i s)) (rev (lru s)) = Some i" "\<not> sl_locked (slocks s (BufLock i))"
  shows "bget a dev b s = Ok i (set_slock (BufLock i) True (pid (prc me s))
    (upd_buf i (\<lambda>x. x\<lparr>b_dev := dev, b_blockno := b, b_valid := False, b_dirty := False, b_refcnt := 1\<rparr>) s))"
  using assms by (simp add: bget_def upd_buf_mach calm_release_eq [of a me] calm_acquiresleep [of a me] Let_def)

lemma pend_frame [simp]:
  "pend (set_slock l x n s) = pend s" "content (set_slock l x n s) = content s"
  by (simp_all add: pend_def content_def fun_eq_iff cong: option.case_cong)

lemma pend_none_fresh:
  assumes "bufs_ok (bufs s) (disk s)" "i < NBUF" "\<not> b_dirty (bf i s)"
    and "\<And>j. j < NBUF \<Longrightarrow> j \<noteq> i \<Longrightarrow> b_dev (bf j s) = 1 \<Longrightarrow> b_blockno (bf j s) \<noteq> b"
  shows "pend s b = None"
proof -
  have "\<not> (b_dirty (bf j s) \<and> b_blockno (bf j s) = b)" if j: "j < NBUF" for j
    using assms(3) assms(4) [OF j] bufs_okD(1,2) [OF assms(1) j] by (cases "j = i") auto
  then show ?thesis by (simp add: pend_None_iff)
qed

text \<open>The buffer may be taken: it has the block, or it is free and no other buffer has the block.\<close>

definition takes :: "nat \<Rightarrow> u32 \<Rightarrow> 'e bkst_scheme \<Rightarrow> bool" where
  "takes i b s \<longleftrightarrow> i < NBUF \<and> (b_dev (bf i s) = 1 \<and> b_blockno (bf i s) = b \<or> \<not> b_dirty (bf i s)) \<and>
     (\<forall>j < NBUF. j \<noteq> i \<longrightarrow> b_dev (bf j s) = 1 \<longrightarrow> b_blockno (bf j s) \<noteq> b)"

lemma took_pend:
  assumes ok: "bufs_ok (bufs s) (disk s)" and t: "takes i b s"
  shows "pend (took i b p s) = pend s"
proof (rule pend_cong)
  fix j assume j: "j < NBUF"
  have l: "length (bufs s) = NBUF" using ok by (simp add: bufs_ok_def)
  have "content s b = b_data (bf i s)" "b_blockno (bf i s) = b" if "b_dirty (bf i s)"
  proof -
    show "b_blockno (bf i s) = b" using t that by (auto simp: takes_def)
    then show "content s b = b_data (bf i s)"
      using content_valid [OF ok, of i] bufs_okD(1) [OF ok, of i] t that by (auto simp: takes_def)
  qed
  then show "b_dirty (bf j (took i b p s)) = b_dirty (bf j s) \<and>
      (b_dirty (bf j s) \<longrightarrow> b_blockno (bf j (took i b p s)) = b_blockno (bf j s) \<and> b_data (bf j (took i b p s)) = b_data (bf j s))"
    using j l by (cases "j = i") (simp_all add: took_def nth_upd)
qed

lemma took_bufs:
  assumes ok: "bufs_ok (bufs s) (disk s)" and t: "takes i b s" and b: "unat b < length (disk s)"
  shows "bufs_ok (bufs (took i b p s)) (disk s)"
proof -
  let ?x = "(bf i s)\<lparr>b_valid := True, b_dev := 1, b_blockno := b, b_refcnt := 1, b_data := content s b\<rparr>"
  have l: "length (bufs s) = NBUF" using ok by (simp add: bufs_ok_def)
  have c: "content s b = disk s ! unat b" if "\<not> b_dirty (bf i s)"
    using pend_none_fresh [OF ok _ that, of b] t by (simp add: takes_def content_def)
  have e: "bufs (took i b p s) ! j = (if j = i then ?x else bf j s)" if "j < NBUF" for j
    using that l by (simp add: took_def nth_upd)
  have uniq: "j = k" if "j < NBUF" "k < NBUF" "b_dev (bufs (took i b p s) ! j) = 1" "b_dev (bufs (took i b p s) ! k) = 1"
    "b_blockno (bufs (took i b p s) ! j) = b_blockno (bufs (took i b p s) ! k)" for j k
    using that(3-5) t bufs_okD(5) [OF ok that(1,2)] unfolding e [OF that(1)] e [OF that(2)] takes_def
    by (cases "j = i"; cases "k = i") (use that(1,2) in auto)
  show ?thesis
    unfolding bufs_ok_def
  proof (intro conjI allI impI)
    show "length (bufs (took i b p s)) = NBUF" using l by (simp add: took_def)
  next
    fix j assume j: "j < NBUF"
    show "b_dirty (bufs (took i b p s) ! j) \<Longrightarrow> b_valid (bufs (took i b p s) ! j)"
      "b_valid (bufs (took i b p s) ! j) \<Longrightarrow> b_dev (bufs (took i b p s) ! j) = 1"
      "b_dev (bufs (took i b p s) ! j) = 1 \<Longrightarrow> unat (b_blockno (bufs (took i b p s) ! j)) < length (disk s)"
      using b bufs_okD(1-3) [OF ok j] by (simp_all add: e [OF j] split: if_splits)
    show "b_valid (bufs (took i b p s) ! j) \<and> \<not> b_dirty (bufs (took i b p s) ! j) \<Longrightarrow>
        b_data (bufs (took i b p s) ! j) = disk s ! unat (b_blockno (bufs (took i b p s) ! j))"
      using c bufs_okD(4) [OF ok j] by (simp add: e [OF j] split: if_splits)
  qed (use uniq in blast)
qed

lemma took_ok:
  assumes ok: "cache_ok a me H s" and t: "takes i b s" "i \<notin> H" and b: "unat b < length (disk s)"
  shows "cache_ok a me (insert i H) (took i b (pid (prc me s)) s)"
proof -
  note d = cache_okD [OF ok]
  have h: "H \<subseteq> {0..<NBUF}" "\<And>j. j < NBUF \<Longrightarrow> sl_locked (slocks s (BufLock j)) = (j \<in> H) \<and> b_refcnt (bf j s) = of_bool (j \<in> H)"
    "\<And>j. j \<in> H \<Longrightarrow> sl_pid (slocks s (BufLock j)) = pid (prc me s) \<and> b_valid (bf j s)"
    using d(4) by (simp_all add: held_by_def)
  have i: "i < NBUF" using t by (simp add: takes_def)
  have "held_by me (insert i H) (took i b (pid (prc me s)) s)"
    unfolding held_by_def took_def using h i d(6) by (auto simp: nth_upd)
  then show ?thesis
    using d took_bufs [OF d(5) t(1) b] by (simp add: cache_ok_def) (simp add: took_def)
qed

lemma held_free:
  assumes "held_by me H s" "i < NBUF" "i \<notin> H"
  shows "\<not> sl_locked (slocks s (BufLock i))" "b_refcnt (bf i s) = 0"
  using assms by (simp_all add: held_by_def)

lemma bread_hit:
  assumes ok: "cache_ok a me H s" and i: "i < NBUF" "i \<notin> H" "b_dev (bf i s) = 1" "b_blockno (bf i s) = b"
  shows "bread a 1 b s = Ok i (took i b (pid (prc me s)) s)"
proof -
  note d = cache_okD [OF ok]
  let ?f = "\<lambda>x. x\<lparr>b_refcnt := b_refcnt x + 1\<rparr>"
  let ?t = "set_slock (BufLock i) True (pid (prc me s)) (upd_buf i ?f s)"
  have "find (\<lambda>j. b_dev (bf j s) = 1 \<and> b_blockno (bf j s) = b) (lru s) = Some i"
  proof (rule find_unique)
    fix j assume "j \<in> set (lru s)" "b_dev (bf j s) = 1 \<and> b_blockno (bf j s) = b"
    then show "j = i" using bufs_okD(5) [OF d(5), of j i] i d(3) by auto
  qed (use i d(3) in auto)
  then have g: "bget a 1 b s = Ok i ?t" using held_free [OF d(4) i(1,2)] by (intro bget_hit [OF d(1)]) simp_all
  have r: "b_refcnt (bf i s) = 0" using held_free [OF d(4) i(1,2)] by simp
  show ?thesis
  proof (cases "b_valid (bf i s)")
    case True
    then have c: "content s b = b_data (bf i s)" using content_valid [OF d(5) i(1)] i(4) by simp
    have "?t = took i b (pid (prc me s)) s"
      unfolding took_def by (rule arg_cong [where f = "set_slock _ _ _"], rule upd_buf_cong) (use True i c r in simp)
    then show ?thesis using g True i d(6) by (simp add: bread_def)
  next
    case False
    then have nd: "\<not> b_dirty (bf i s)" using bufs_okD(1) [OF d(5) i(1)] by blast
    have "pend s b = None"
      using bufs_okD(5) [OF d(5) i(1)] i by (intro pend_none_fresh [OF d(5) i(1) nd]) metis
    then have c: "content s b = disk s ! unat b" by (simp add: content_def)
    have "iderw a i ?t = Ok () (upd_buf i (\<lambda>x. x\<lparr>b_data := disk s ! unat b, b_valid := True\<rparr>) ?t)"
      using iderw_read [of a me ?t i] d i False nd bufs_okD(3) [OF d(5) i(1)] by simp
    moreover have "upd_buf i (\<lambda>x. x\<lparr>b_data := disk s ! unat b, b_valid := True\<rparr>) ?t = took i b (pid (prc me s)) s"
      unfolding took_def upd_buf_slock using d(6) i(1)
      by (subst upd_buf_twice, simp, intro arg_cong [where f = "set_slock _ _ _"], intro upd_buf_cong) (use i c r in simp)
    ultimately show ?thesis using g False i d(6) by (simp add: bread_def)
  qed
qed

lemma bread_miss:
  assumes ok: "cache_ok a me H s" and no: "\<And>j. j < NBUF \<Longrightarrow> \<not> (b_dev (bf j s) = 1 \<and> b_blockno (bf j s) = b)"
    and ex: "\<exists>j < NBUF. j \<notin> H \<and> \<not> b_dirty (bf j s)" and b: "unat b < length (disk s)"
  shows "\<exists>i. i < NBUF \<and> i \<notin> H \<and> \<not> b_dirty (bf i s) \<and> bread a 1 b s = Ok i (took i b (pid (prc me s)) s)"
proof -
  note d = cache_okD [OF ok]
  let ?P = "\<lambda>i. b_refcnt (bf i s) = 0 \<and> \<not> b_dirty (bf i s)"
  have f1: "find (\<lambda>j. b_dev (bf j s) = 1 \<and> b_blockno (bf j s) = b) (lru s) = None"
    using no d(3) by (simp add: find_None_iff)
  have "find ?P (rev (lru s)) \<noteq> None"
    using ex d(3) held_free(2) [OF d(4)] by (auto simp: find_None_iff)
  then obtain i where f2: "find ?P (rev (lru s)) = Some i" by blast
  then have "i \<in> set (rev (lru s))" "?P i" using find_SomeD [OF f2] by blast+
  then have i: "i < NBUF" "?P i" using d(3) by auto
  then have h: "i \<notin> H" using d(4) by (auto simp: held_by_def)
  let ?f = "\<lambda>x. x\<lparr>b_dev := 1, b_blockno := b, b_valid := False, b_dirty := False, b_refcnt := 1\<rparr>"
  let ?t = "set_slock (BufLock i) True (pid (prc me s)) (upd_buf i ?f s)"
  have g: "bget a 1 b s = Ok i ?t" using held_free [OF d(4) i(1) h] by (intro bget_miss [OF d(1) f1 f2]) simp
  have c: "content s b = disk s ! unat b"
    using pend_none_fresh [OF d(5) i(1)] i(2) no by (simp add: content_def)
  have "iderw a i ?t = Ok () (upd_buf i (\<lambda>x. x\<lparr>b_data := disk s ! unat b, b_valid := True\<rparr>) ?t)"
    using iderw_read [of a me ?t i] d i b by simp
  moreover have "upd_buf i (\<lambda>x. x\<lparr>b_data := disk s ! unat b, b_valid := True\<rparr>) ?t = took i b (pid (prc me s)) s"
    unfolding took_def upd_buf_slock using d(6) i(1)
    by (subst upd_buf_twice, simp, intro arg_cong [where f = "set_slock _ _ _"], intro upd_buf_cong) (use i c in simp)
  ultimately have "bread a 1 b s = Ok i (took i b (pid (prc me s)) s)" using g i d(6) by (simp add: bread_def)
  then show ?thesis using i h by blast
qed

lemma bread_ok:
  assumes ok: "cache_ok a me H s" and b: "unat b < length (disk s)" and nh: "\<And>i. i \<in> H \<Longrightarrow> b_blockno (bf i s) \<noteq> b"
    and av: "pend s b \<noteq> None \<or> (\<exists>j < NBUF. j \<notin> H \<and> \<not> b_dirty (bf j s))"
  shows "\<exists>i. i < NBUF \<and> i \<notin> H \<and> takes i b s \<and> bread a 1 b s = Ok i (took i b (pid (prc me s)) s)"
proof (cases "\<exists>i < NBUF. b_dev (bf i s) = 1 \<and> b_blockno (bf i s) = b")
  case True
  then obtain i where i: "i < NBUF" "b_dev (bf i s) = 1" "b_blockno (bf i s) = b" by blast
  moreover have "takes i b s"
    unfolding takes_def using i bufs_okD(5) [OF cache_okD(5) [OF ok] i(1)] by metis
  ultimately show ?thesis using bread_hit [OF ok i(1) _ i(2,3)] nh by blast
next
  case False
  then have no: "\<And>j. j < NBUF \<Longrightarrow> \<not> (b_dev (bf j s) = 1 \<and> b_blockno (bf j s) = b)" by blast
  have "pend s b = None"
  proof (rule ccontr)
    assume "pend s b \<noteq> None"
    then obtain i where "i < NBUF" "b_dirty (bf i s)" "b_blockno (bf i s) = b" using pend_SomeD [of s b] by blast
    then show False using no [of i] bufs_okD(1,2) [OF cache_okD(5) [OF ok], of i] by blast
  qed
  then obtain i where "i < NBUF" "i \<notin> H" "\<not> b_dirty (bf i s)" "bread a 1 b s = Ok i (took i b (pid (prc me s)) s)"
    using bread_miss [OF ok no _ b] av by blast
  then show ?thesis using no by (auto simp: takes_def)
qed

section \<open>Writing and releasing\<close>

definition wrote :: "nat \<Rightarrow> block \<Rightarrow> 'e bkst_scheme \<Rightarrow> 'e bkst_scheme" where
  "wrote i d s = (upd_buf i (\<lambda>x. x\<lparr>b_data := d, b_dirty := False, b_valid := True\<rparr>) s)
    \<lparr>disk := (disk s)[unat (b_blockno (bf i s)) := d], wtrace := wtrace s @ [(unat (b_blockno (bf i s)), d)]\<rparr>"

lemma wrote_fields [simp]:
  "disk (wrote i d s) = (disk s)[unat (b_blockno (bf i s)) := d]" "wtrace (wrote i d s) = wtrace s @ [(unat (b_blockno (bf i s)), d)]"
  "bkst.more (wrote i d s) = bkst.more s" "mach (wrote i d s) = mach s" "ptab (wrote i d s) = ptab s" "lru (wrote i d s) = lru s"
  "slocks (wrote i d s) = slocks s" "length (bufs (wrote i d s)) = length (bufs s)"
  by (simp_all add: wrote_def)

lemma wrote_nth:
  "j < length (bufs s) \<Longrightarrow> bf j (wrote i d s) = (if j = i then (bf i s)\<lparr>b_data := d, b_dirty := False, b_valid := True\<rparr> else bf j s)"
  by (simp add: wrote_def nth_upd)

text \<open>A held buffer has a block of the disk, and no other buffer has that block.\<close>

lemma held_buffer:
  assumes ok: "cache_ok a me H s" and i: "i \<in> H"
  shows "i < NBUF" "b_valid (bf i s)" "b_dev (bf i s) = 1" "unat (b_blockno (bf i s)) < length (disk s)"
    "sl_pid (slocks s (BufLock i)) = pid (prc me s)" "sl_locked (slocks s (BufLock i))" "b_refcnt (bf i s) = 1"
    "j < NBUF \<Longrightarrow> j \<noteq> i \<Longrightarrow> b_dev (bf j s) = 1 \<Longrightarrow> unat (b_blockno (bf j s)) \<noteq> unat (b_blockno (bf i s))"
proof -
  note c = cache_okD [OF ok]
  show n: "i < NBUF" and v: "b_valid (bf i s)" and "sl_pid (slocks s (BufLock i)) = pid (prc me s)"
    "sl_locked (slocks s (BufLock i))" "b_refcnt (bf i s) = 1"
    using c(4) i by (auto simp: held_by_def)
  show dv: "b_dev (bf i s) = 1" using bufs_okD(2) [OF c(5) n v] .
  show "unat (b_blockno (bf i s)) < length (disk s)" using bufs_okD(3) [OF c(5) n dv] .
  show "j < NBUF \<Longrightarrow> j \<noteq> i \<Longrightarrow> b_dev (bf j s) = 1 \<Longrightarrow> unat (b_blockno (bf j s)) \<noteq> unat (b_blockno (bf i s))"
    using bufs_okD(5) [OF c(5) _ n _ dv, of j] by (auto dest: word_unat_eq_iff [THEN iffD2])
qed

lemma bwrite_eq:
  assumes ok: "cache_ok a me H s" and i: "i \<in> H"
  shows "bwrite a i (set_data i d s) = Ok () (wrote i d s)"
proof -
  note c = cache_okD [OF ok] and h = held_buffer [OF ok i]
  let ?s1 = "upd_buf i (\<lambda>x. x\<lparr>b_data := d\<rparr>) s"
  let ?s2 = "upd_buf i (\<lambda>x. x\<lparr>b_dirty := True\<rparr>) ?s1"
  have "calm a me ?s2" using c(1) by simp
  then have "iderw a i ?s2 = Ok () ((upd_buf i (\<lambda>x. x\<lparr>b_dirty := False, b_valid := True\<rparr>) ?s2)
      \<lparr>disk := (disk s)[unat (b_blockno (bf i s)) := d], wtrace := wtrace s @ [(unat (b_blockno (bf i s)), d)]\<rparr>)"
    using iderw_write [of a me ?s2 i] h c(6) by simp
  moreover have "upd_buf i (\<lambda>x. x\<lparr>b_dirty := False, b_valid := True\<rparr>) ?s2 =
      upd_buf i (\<lambda>x. x\<lparr>b_data := d, b_dirty := False, b_valid := True\<rparr>) s"
    using h(1) c(6) by (simp add: upd_buf_def)
  ultimately show ?thesis
    using c(1) h by (simp add: bwrite_def set_data_def calm_holdingsleep [of a me] wrote_def)
qed

lemma wrote_bufs:
  assumes ok: "cache_ok a me H s" and i: "i \<in> H"
  shows "bufs_ok (bufs (wrote i d s)) (disk (wrote i d s))"
  unfolding bufs_ok_def
proof (intro conjI allI impI)
  note c = cache_okD [OF ok] and h = held_buffer [OF ok i]
  note e = wrote_nth [of _ s i d, unfolded c(6)]
  show "length (bufs (wrote i d s)) = NBUF" using c(6) by simp
  {
    fix j assume j: "j < NBUF"
    show "b_dirty (bf j (wrote i d s)) \<Longrightarrow> b_valid (bf j (wrote i d s))"
      "b_valid (bf j (wrote i d s)) \<Longrightarrow> b_dev (bf j (wrote i d s)) = 1"
      "b_dev (bf j (wrote i d s)) = 1 \<Longrightarrow> unat (b_blockno (bf j (wrote i d s))) < length (disk (wrote i d s))"
      using bufs_okD(1-3) [OF c(5) j] h(3,4) by (simp_all add: e [OF j] split: if_splits)
    show "b_valid (bf j (wrote i d s)) \<and> \<not> b_dirty (bf j (wrote i d s)) \<Longrightarrow>
        b_data (bf j (wrote i d s)) = disk (wrote i d s) ! unat (b_blockno (bf j (wrote i d s)))"
      using bufs_okD(2,4) [OF c(5) j] h(4) h(8) [OF j] by (auto simp: e [OF j] split: if_splits)
  }
  fix j k assume jk: "j < NBUF" "k < NBUF" "b_dev (bf j (wrote i d s)) = 1 \<and> b_dev (bf k (wrote i d s)) = 1 \<and>
      b_blockno (bf j (wrote i d s)) = b_blockno (bf k (wrote i d s))"
  have "b_dev (bf j s) = 1 \<and> b_dev (bf k s) = 1 \<and> b_blockno (bf j s) = b_blockno (bf k s)"
    using jk(3) h(3) unfolding e [OF jk(1)] e [OF jk(2)] by (cases "j = i"; cases "k = i") simp_all
  then show "j = k" using bufs_okD(5) [OF c(5) jk(1,2)] by blast
qed

lemma wrote_pend:
  assumes ok: "cache_ok a me H s" and i: "i \<in> H"
  shows "pend (wrote i d s) = (pend s)(b_blockno (bf i s) := None)"
proof
  fix b
  note c = cache_okD [OF ok] and h = held_buffer [OF ok i]
  note e = wrote_nth [of _ s i d, unfolded c(6)]
  show "pend (wrote i d s) b = ((pend s)(b_blockno (bf i s) := None)) b"
  proof (cases "b = b_blockno (bf i s)")
    case True
    have "\<not> (b_dirty (bf j (wrote i d s)) \<and> b_blockno (bf j (wrote i d s)) = b)" if j: "j < NBUF" for j
      using bufs_okD(1,2) [OF c(5) j] h(8) [OF j] True by (auto simp: e [OF j] split: if_splits)
    then show ?thesis using True by (simp add: pend_None_iff)
  next
    case False
    have f: "find (\<lambda>j. b_dirty (bf j (wrote i d s)) \<and> b_blockno (bf j (wrote i d s)) = b) [0..<NBUF] =
        find (\<lambda>j. b_dirty (bf j s) \<and> b_blockno (bf j s) = b) [0..<NBUF]"
      using False by (intro find_cong) (auto simp: e split: if_splits)
    show ?thesis
    proof (cases "find (\<lambda>j. b_dirty (bf j s) \<and> b_blockno (bf j s) = b) [0..<NBUF]")
      case (Some j)
      then have "j < NBUF" "j \<noteq> i" using find_SomeD [OF Some] False by auto
      then show ?thesis using False Some by (simp add: pend_def f e)
    qed (use False in \<open>simp add: pend_def f\<close>)
  qed
qed

lemma wrote_ok:
  assumes ok: "cache_ok a me H s" and i: "i \<in> H"
  shows "cache_ok a me H (wrote i d s)"
proof -
  note c = cache_okD [OF ok] and h = held_buffer [OF ok i]
  note e = wrote_nth [of _ s i d, unfolded c(6)]
  have H: "H \<subseteq> {0..<NBUF}" using c(4) by (simp add: held_by_def)
  then have "held_by me H (wrote i d s)" using c(4) unfolding held_by_def by (auto simp: e subset_iff)
  then show ?thesis
    using c(1-3) wrote_bufs [OF ok i] by (simp add: cache_ok_def calm_def)
qed

definition freed :: "nat \<Rightarrow> 'e bkst_scheme \<Rightarrow> 'e bkst_scheme" where
  "freed i s = (set_slock (BufLock i) False 0 (upd_buf i (\<lambda>x. x\<lparr>b_refcnt := 0\<rparr>) s))\<lparr>lru := i # remove1 i (lru s)\<rparr>"

lemma freed_fields [simp]:
  "disk (freed i s) = disk s" "wtrace (freed i s) = wtrace s" "bkst.more (freed i s) = bkst.more s" "mach (freed i s) = mach s"
  "ptab (freed i s) = ptab s" "length (bufs (freed i s)) = length (bufs s)" "lru (freed i s) = i # remove1 i (lru s)"
  "slocks (freed i s) = (slocks s)(BufLock i := (slocks s (BufLock i))\<lparr>sl_locked := False, sl_pid := 0\<rparr>)"
  by (simp_all add: freed_def)

lemma freed_nth:
  "j < length (bufs s) \<Longrightarrow> bf j (freed i s) = (if j = i then (bf i s)\<lparr>b_refcnt := 0\<rparr> else bf j s)"
  by (simp add: freed_def nth_upd)

lemma lru_mach: "s\<lparr>mach := m, lru := x\<rparr> = s\<lparr>lru := x, mach := m\<rparr>"
  by simp

lemma brelse_eq:
  assumes ok: "cache_ok a me H s" and i: "i \<in> H"
  shows "brelse a i s = Ok () (freed i s)"
proof -
  note c = cache_okD [OF ok] and h = held_buffer [OF ok i]
  let ?s1 = "set_slock (BufLock i) False 0 s"
  let ?s2 = "upd_buf i (\<lambda>x. x\<lparr>b_refcnt := b_refcnt x - 1\<rparr>) ?s1"
  let ?s3 = "?s2\<lparr>lru := i # remove1 i (lru s)\<rparr>"
  have "calm a me ?s3" using c(1) by (simp add: calm_def)
  then have r: "release a BcacheLock (?s3\<lparr>mach := acq a BcacheLock (mach s)\<rparr>) = Ok () ?s3"
    by (rule calm_release_eq) simp
  have e: "?s3 = freed i s"
    unfolding freed_def upd_buf_slock
    by (subst upd_buf_cong [where f = "\<lambda>x. x\<lparr>b_refcnt := b_refcnt x - 1\<rparr>" and g = "\<lambda>x. x\<lparr>b_refcnt := 0\<rparr>"]) (simp_all add: h(7))
  have "b_refcnt (bf i ?s2) = 0" using c(6) h(1,7) by simp
  then have "brelse a i s = release a BcacheLock (?s3\<lparr>mach := acq a BcacheLock (mach s)\<rparr>)"
    using c(1) h(5,6) by (simp add: brelse_def calm_holdingsleep [of a me] calm_releasesleep [of a me] upd_buf_mach Let_def lru_mach)
  then show ?thesis using r e by simp
qed

lemma bufs_ok_same:
  assumes "bufs_ok bs d" "length bs' = length bs"
    and "\<And>j. j < NBUF \<Longrightarrow> b_dirty (bs' ! j) = b_dirty (bs ! j) \<and> b_valid (bs' ! j) = b_valid (bs ! j) \<and> b_dev (bs' ! j) = b_dev (bs ! j)
      \<and> b_blockno (bs' ! j) = b_blockno (bs ! j) \<and> b_data (bs' ! j) = b_data (bs ! j)"
  shows "bufs_ok bs' d"
  unfolding bufs_ok_def
proof (intro conjI allI impI)
  show "length bs' = NBUF" using assms(1,2) by (simp add: bufs_ok_def)
  {
    fix j assume j: "j < NBUF"
    show "b_dirty (bs' ! j) \<Longrightarrow> b_valid (bs' ! j)" "b_valid (bs' ! j) \<Longrightarrow> b_dev (bs' ! j) = 1"
      "b_dev (bs' ! j) = 1 \<Longrightarrow> unat (b_blockno (bs' ! j)) < length d"
      "b_valid (bs' ! j) \<and> \<not> b_dirty (bs' ! j) \<Longrightarrow> b_data (bs' ! j) = d ! unat (b_blockno (bs' ! j))"
      using bufs_okD(1-4) [OF assms(1) j] assms(3) [OF j] by simp_all
  }
  fix j k assume "j < NBUF" "k < NBUF" "b_dev (bs' ! j) = 1 \<and> b_dev (bs' ! k) = 1 \<and> b_blockno (bs' ! j) = b_blockno (bs' ! k)"
  then show "j = k" using bufs_okD(5) [OF assms(1), of j k] assms(3) [of j] assms(3) [of k] by simp
qed

lemma freed_ok:
  assumes ok: "cache_ok a me H s" and i: "i \<in> H"
  shows "cache_ok a me (H - {i}) (freed i s)" "pend (freed i s) = pend s"
proof -
  note c = cache_okD [OF ok] and h = held_buffer [OF ok i]
  note e = freed_nth [of _ s i, unfolded c(6)]
  have same: "b_dirty (bf j (freed i s)) = b_dirty (bf j s) \<and> b_valid (bf j (freed i s)) = b_valid (bf j s) \<and> b_dev (bf j (freed i s)) = b_dev (bf j s)
      \<and> b_blockno (bf j (freed i s)) = b_blockno (bf j s) \<and> b_data (bf j (freed i s)) = b_data (bf j s)" if "j < NBUF" for j
    using e [OF that] by simp
  show "pend (freed i s) = pend s" by (rule pend_cong) (use same in blast)
  have "bufs_ok (bufs (freed i s)) (disk s)" by (rule bufs_ok_same [OF c(5) _ same]) simp
  moreover have hs: "H \<subseteq> {0..<NBUF}" "\<And>j. j < NBUF \<Longrightarrow> sl_locked (slocks s (BufLock j)) = (j \<in> H) \<and> b_refcnt (bf j s) = of_bool (j \<in> H)"
    "\<And>j. j \<in> H \<Longrightarrow> sl_pid (slocks s (BufLock j)) = pid (prc me s) \<and> b_valid (bf j s)"
    using c(4) by (simp_all add: held_by_def)
  have "held_by me (H - {i}) (freed i s)"
    unfolding held_by_def
  proof (intro conjI ballI allI impI)
    show "H - {i} \<subseteq> {0..<NBUF}" using hs(1) by blast
    fix j
    show "sl_locked (slocks (freed i s) (BufLock j)) = (j \<in> H - {i})" "b_refcnt (bf j (freed i s)) = of_bool (j \<in> H - {i})" if "j < NBUF"
      using hs(2) [OF that] e [OF that] by auto
    assume j: "j \<in> H - {i}"
    then have "j < NBUF" using hs(1) by auto
    then show "sl_pid (slocks (freed i s) (BufLock j)) = pid (prc me (freed i s))" "b_valid (bf j (freed i s))"
      using j hs(3) [of j] e [of j] by auto
  qed
  moreover have "set (i # remove1 i (lru s)) = {0..<NBUF}" "distinct (i # remove1 i (lru s))"
    using c(2,3) h(1) by (simp_all add: set_remove1_eq insert_absorb)
  ultimately show "cache_ok a me (H - {i}) (freed i s)"
    using c(1) by (simp add: cache_ok_def calm_def)
qed

lemma clean_buffer:
  assumes ok: "cache_ok a me H s" and n: "card (dom (pend s)) + card H < NBUF"
  shows "\<exists>j < NBUF. j \<notin> H \<and> \<not> b_dirty (bf j s)"
proof -
  note c = cache_okD [OF ok]
  let ?D = "{j. j < NBUF \<and> b_dirty (bf j s)}"
  have inj: "inj_on (\<lambda>j. b_blockno (bf j s)) ?D"
    using one_buffer [OF c(5)] bufs_okD(1) [OF c(5)] by (auto simp: inj_on_def)
  have sub: "(\<lambda>j. b_blockno (bf j s)) ` ?D \<subseteq> dom (pend s)" using pend_Some [OF c(5)] by auto
  have fin: "finite (dom (pend s))"
  proof (rule finite_subset)
    show "dom (pend s) \<subseteq> (\<lambda>j. b_blockno (bf j s)) ` {0..<NBUF}" by (auto dest!: pend_SomeD)
  qed simp
  have "card ?D \<le> card (dom (pend s))" using card_mono [OF fin sub] card_image [OF inj] by simp
  then have "card (?D \<union> H) < card {0..<NBUF}" using n card_Un_le [of ?D H] by simp
  then have "\<not> {0..<NBUF} \<subseteq> ?D \<union> H"
    using card_mono [of "?D \<union> H" "{0..<NBUF}"] c(4) finite_subset [of H "{0..<NBUF}"] by (auto simp: held_by_def)
  then show ?thesis by auto
qed

section \<open>The interface the log relies on\<close>

text \<open>
  What a client may use of the cache: reading a block locks a buffer with the block's content,
  writing puts data on disk and ends the block's being pending, releasing changes nothing a reader
  sees. The client's lemmas are the three ways in which the log uses it: copy a block into the one
  read first, copy it into the one read second, and rewrite a block.
\<close>

locale block_cache =
  fixes rd :: "u32 \<Rightarrow> 's \<Rightarrow> (nat, 's) res" and wr :: "nat \<Rightarrow> block \<Rightarrow> 's \<Rightarrow> (unit, 's) res"
    and rl :: "nat \<Rightarrow> 's \<Rightarrow> (unit, 's) res" and ok :: "nat set \<Rightarrow> 's \<Rightarrow> bool"
    and blk :: "nat \<Rightarrow> 's \<Rightarrow> u32" and dat :: "nat \<Rightarrow> 's \<Rightarrow> block" and dsk :: "'s \<Rightarrow> block list"
    and pen :: "'s \<Rightarrow> u32 \<Rightarrow> block option" and trc :: "'s \<Rightarrow> (nat \<times> block) list" and rest :: "'s \<Rightarrow> 'm"
  assumes read_ok: "ok H s \<Longrightarrow> unat b < length (dsk s) \<Longrightarrow> (\<And>i. i \<in> H \<Longrightarrow> blk i s \<noteq> b) \<Longrightarrow>
      pen s b \<noteq> None \<or> card (dom (pen s)) + card H < NBUF \<Longrightarrow>
      \<exists>i t. rd b s = Ok i t \<and> i \<notin> H \<and> ok (insert i H) t \<and> blk i t = b \<and>
        dat i t = (case pen s b of Some d \<Rightarrow> d | None \<Rightarrow> dsk s ! unat b) \<and>
        (\<forall>j \<in> H. blk j t = blk j s \<and> dat j t = dat j s) \<and> dsk t = dsk s \<and> pen t = pen s \<and> trc t = trc s \<and> rest t = rest s"
    and write_ok: "ok H s \<Longrightarrow> i \<in> H \<Longrightarrow> \<exists>t. wr i d s = Ok () t \<and> ok H t \<and>
        (\<forall>j \<in> H. blk j t = blk j s \<and> (j \<noteq> i \<longrightarrow> dat j t = dat j s)) \<and> dsk t = (dsk s)[unat (blk i s) := d] \<and>
        pen t = (pen s)(blk i s := None) \<and> trc t = trc s @ [(unat (blk i s), d)] \<and> rest t = rest s"
    and release_ok: "ok H s \<Longrightarrow> i \<in> H \<Longrightarrow> \<exists>t. rl i s = Ok () t \<and> ok (H - {i}) t \<and>
        dsk t = dsk s \<and> pen t = pen s \<and> trc t = trc s \<and> rest t = rest s"
begin

definition val :: "'s \<Rightarrow> u32 \<Rightarrow> block" where
  "val s b = (case pen s b of Some d \<Rightarrow> d | None \<Rightarrow> dsk s ! unat b)"

text \<open>The effect of writing \<open>d\<close> to block \<open>b\<close>, with all buffers released again.\<close>

definition written :: "u32 \<Rightarrow> block \<Rightarrow> 's \<Rightarrow> 's \<Rightarrow> bool" where
  "written b d s t \<longleftrightarrow> ok {} t \<and> dsk t = (dsk s)[unat b := d] \<and> pen t = (pen s)(b := None) \<and> trc t = trc s @ [(unat b, d)] \<and> rest t = rest s"

lemma write_release2:
  assumes "ok {i, j} s" "i \<noteq> j" "k \<in> {i, j}"
  shows "\<exists>t. bnd (wr k d s) (\<lambda>_ s. bnd (rl i s) (\<lambda>_ s. rl j s)) = Ok () t \<and> written (blk k s) d s t"
proof -
  obtain t1 where t1: "wr k d s = Ok () t1" "ok {i, j} t1" "dsk t1 = (dsk s)[unat (blk k s) := d]"
    "pen t1 = (pen s)(blk k s := None)" "trc t1 = trc s @ [(unat (blk k s), d)]" "rest t1 = rest s"
    using write_ok [OF assms(1,3), of d] by blast
  obtain t2 where t2: "rl i t1 = Ok () t2" "ok ({i, j} - {i}) t2" "dsk t2 = dsk t1" "pen t2 = pen t1" "trc t2 = trc t1" "rest t2 = rest t1"
    using release_ok [OF t1(2), of i] by blast
  have e: "{i, j} - {i} = {j}" using assms(2) by blast
  obtain t3 where t3: "rl j t2 = Ok () t3" "ok ({j} - {j}) t3" "dsk t3 = dsk t2" "pen t3 = pen t2" "trc t3 = trc t2" "rest t3 = rest t2"
    using release_ok [OF t2(2) [unfolded e], of j] by blast
  have "{j} - {j} = ({} :: nat set)" by blast
  then show ?thesis using t1 t2 t3 by (simp add: written_def)
qed

lemma read2:
  assumes "ok {} s" "x \<noteq> y" "unat x < length (dsk s)" "unat y < length (dsk s)"
    and "pen s x \<noteq> None \<or> card (dom (pen s)) < NBUF" "pen s y \<noteq> None \<or> card (dom (pen s)) + 1 < NBUF"
  shows "\<exists>i j t u. rd x s = Ok i t \<and> rest t = rest s \<and> rd y t = Ok j u \<and> i \<noteq> j \<and> ok {i, j} u \<and> blk i u = x \<and> blk j u = y \<and>
     dat i u = val s x \<and> dat j u = val s y \<and> dsk u = dsk s \<and> pen u = pen s \<and> trc u = trc s \<and> rest u = rest s"
proof -
  have "card (dom (pen s)) + card ({} :: nat set) = card (dom (pen s))" by simp
  then obtain i t where t: "rd x s = Ok i t" "ok {i} t" "blk i t = x" "dat i t = val s x"
      "dsk t = dsk s" "pen t = pen s" "trc t = trc s" "rest t = rest s"
    using read_ok [OF assms(1,3)] assms(5) unfolding val_def by auto
  have "\<exists>j u. rd y t = Ok j u \<and> j \<notin> {i} \<and> ok (insert j {i}) u \<and> blk j u = y \<and> dat j u = (case pen t y of Some d \<Rightarrow> d | None \<Rightarrow> dsk t ! unat y) \<and>
        (\<forall>k \<in> {i}. blk k u = blk k t \<and> dat k u = dat k t) \<and> dsk u = dsk t \<and> pen u = pen t \<and> trc u = trc t \<and> rest u = rest t"
    by (rule read_ok [OF t(2)]) (use assms t in auto)
  then obtain j u where "rd y t = Ok j u" "j \<noteq> i" "ok (insert j {i}) u" "blk j u = y" "dat j u = val s y" "blk i u = x" "dat i u = dat i t"
      "dsk u = dsk s" "pen u = pen s" "trc u = trc s" "rest u = rest s"
    using t(3,5-8) by (auto simp: val_def cong: option.case_cong)
  then show ?thesis using t by (auto simp: insert_commute)
qed

lemma copy_first:
  assumes "ok {} s" "x \<noteq> y" "unat x < length (dsk s)" "unat y < length (dsk s)"
    and "pen s x \<noteq> None \<or> card (dom (pen s)) < NBUF" "pen s y \<noteq> None \<or> card (dom (pen s)) + 1 < NBUF"
    and g: "\<And>t. rest t = rest s \<Longrightarrow> g t = rd y t"
  shows "\<exists>t. bnd (rd x s) (\<lambda>i s. bnd (g s) (\<lambda>j s. bnd (wr i (dat j s) s) (\<lambda>_ s. bnd (rl j s) (\<lambda>_ s. rl i s)))) = Ok () t
    \<and> written x (val s y) s t"
proof -
  obtain i j t u where r: "rd x s = Ok i t" "rest t = rest s" "rd y t = Ok j u" "i \<noteq> j" "ok {i, j} u" "blk i u = x" "blk j u = y"
      "dat i u = val s x" "dat j u = val s y" "dsk u = dsk s" "pen u = pen s" "trc u = trc s" "rest u = rest s"
    using read2 [OF assms(1-6)] by blast
  have "ok {j, i} u" using r(5) by (simp add: insert_commute)
  then show ?thesis using write_release2 [of j i u i "dat j u"] r g [OF r(2)] by (auto simp: written_def)
qed

lemma copy_second:
  assumes "ok {} s" "x \<noteq> y" "unat x < length (dsk s)" "unat y < length (dsk s)"
    and "pen s x \<noteq> None \<or> card (dom (pen s)) < NBUF" "pen s y \<noteq> None \<or> card (dom (pen s)) + 1 < NBUF"
    and g: "\<And>t. rest t = rest s \<Longrightarrow> g t = rd y t"
  shows "\<exists>t. bnd (rd x s) (\<lambda>i s. bnd (g s) (\<lambda>j s. bnd (wr j (dat i s) s) (\<lambda>_ s. bnd (rl i s) (\<lambda>_ s. rl j s)))) = Ok () t
    \<and> written y (val s x) s t"
proof -
  obtain i j t u where r: "rd x s = Ok i t" "rest t = rest s" "rd y t = Ok j u" "i \<noteq> j" "ok {i, j} u" "blk i u = x" "blk j u = y"
      "dat i u = val s x" "dat j u = val s y" "dsk u = dsk s" "pen u = pen s" "trc u = trc s" "rest u = rest s"
    using read2 [OF assms(1-6)] by blast
  then show ?thesis using write_release2 [of i j u j "dat i u"] g [OF r(2)] by (auto simp: written_def)
qed

lemma rewrite_block:
  assumes "ok {} s" "unat x < length (dsk s)" "pen s x \<noteq> None \<or> card (dom (pen s)) < NBUF"
    and g: "\<And>i t. rest t = rest s \<Longrightarrow> g i t = f (dat i t)"
  shows "\<exists>t. bnd (rd x s) (\<lambda>i s. bnd (wr i (g i s) s) (\<lambda>_ s. rl i s)) = Ok () t \<and> written x (f (val s x)) s t"
proof -
  have "\<exists>i t. rd x s = Ok i t \<and> i \<notin> {} \<and> ok (insert i {}) t \<and> blk i t = x \<and>
        dat i t = (case pen s x of Some d \<Rightarrow> d | None \<Rightarrow> dsk s ! unat x) \<and>
        (\<forall>j \<in> {}. blk j t = blk j s \<and> dat j t = dat j s) \<and> dsk t = dsk s \<and> pen t = pen s \<and> trc t = trc s \<and> rest t = rest s"
    by (rule read_ok [OF assms(1,2)]) (use assms(3) in auto)
  then obtain i t where t: "rd x s = Ok i t" "ok {i} t" "blk i t = x" "dat i t = val s x" "dsk t = dsk s" "pen t = pen s" "trc t = trc s" "rest t = rest s"
    by (auto simp: val_def)
  obtain t1 where t1: "wr i (f (dat i t)) t = Ok () t1" "ok {i} t1" "dsk t1 = (dsk s)[unat x := f (dat i t)]"
    "pen t1 = (pen s)(x := None)" "trc t1 = trc s @ [(unat x, f (dat i t))]" "rest t1 = rest s"
    using write_ok [OF t(2), of i "f (dat i t)"] t by auto
  obtain t2 where "rl i t1 = Ok () t2" "ok ({i} - {i}) t2" "dsk t2 = dsk t1" "pen t2 = pen t1" "trc t2 = trc t1" "rest t2 = rest t1"
    using release_ok [OF t1(2), of i] by blast
  then show ?thesis using t t1 g [OF t(8)] by (auto simp: written_def)
qed

end

text \<open>What the cache operations leave alone: the machine and the process table, and everything above the cache.\<close>

definition frame :: "'e bkst_scheme \<Rightarrow> pkst \<times> 'e" where
  "frame s = (pkst.truncate s, bkst.more s)"

lemma frame_same [simp]: "frame (took i b p s) = frame s" "frame (wrote i d s) = frame s" "frame (freed i s) = frame s"
  by (simp_all add: frame_def pkst.defs) (simp_all add: took_def wrote_def freed_def upd_buf_def set_slock_def)

interpretation bc: block_cache "bread a 1" "\<lambda>i d s. bwrite a i (set_data i d s)" "brelse a" "cache_ok a me"
  "\<lambda>i s. b_blockno (bf i s)" "\<lambda>i s. b_data (bf i s)" disk pend wtrace frame for a me
proof
  fix H b and s :: "'e bkst_scheme"
  assume ok: "cache_ok a me H s" and b: "unat b < length (disk s)" and nh: "\<And>i. i \<in> H \<Longrightarrow> b_blockno (bf i s) \<noteq> b"
    and av: "pend s b \<noteq> None \<or> card (dom (pend s)) + card H < NBUF"
  note c = cache_okD [OF ok]
  have av': "pend s b \<noteq> None \<or> (\<exists>j < NBUF. j \<notin> H \<and> \<not> b_dirty (bf j s))" using av clean_buffer [OF ok] by blast
  obtain i where i: "i < NBUF" "i \<notin> H" "takes i b s" "bread a 1 b s = Ok i (took i b (pid (prc me s)) s)"
    using bread_ok [OF ok b nh av'] by blast
  have keep: "bf j (took i b (pid (prc me s)) s) = bf j s" if "j \<in> H" for j
    by (rule took_fields(2)) (use that i(2) in blast)
  from i show "\<exists>i t. bread a 1 b s = Ok i t \<and> i \<notin> H \<and> cache_ok a me (insert i H) t \<and> b_blockno (bf i t) = b \<and>
        b_data (bf i t) = (case pend s b of Some d \<Rightarrow> d | None \<Rightarrow> disk s ! unat b) \<and>
        (\<forall>j \<in> H. b_blockno (bf j t) = b_blockno (bf j s) \<and> b_data (bf j t) = b_data (bf j s)) \<and>
        disk t = disk s \<and> pend t = pend s \<and> wtrace t = wtrace s \<and> frame t = frame s"
    using took_ok [OF ok i(3,2) b] took_pend [OF c(5) i(3)] c(6)
    by (intro exI [of _ i] exI [of _ "took i b (pid (prc me s)) s"]) (simp add: content_def keep)
next
  fix H i d and s :: "'e bkst_scheme"
  assume ok: "cache_ok a me H s" "i \<in> H"
  have "j < NBUF" if "j \<in> H" for j using cache_okD(4) [OF ok(1)] that by (auto simp: held_by_def)
  then show "\<exists>t. bwrite a i (set_data i d s) = Ok () t \<and> cache_ok a me H t \<and>
        (\<forall>j \<in> H. b_blockno (bf j t) = b_blockno (bf j s) \<and> (j \<noteq> i \<longrightarrow> b_data (bf j t) = b_data (bf j s))) \<and>
        disk t = (disk s)[unat (b_blockno (bf i s)) := d] \<and> pend t = (pend s)(b_blockno (bf i s) := None) \<and>
        wtrace t = wtrace s @ [(unat (b_blockno (bf i s)), d)] \<and> frame t = frame s"
    using bwrite_eq [OF ok, of d] wrote_ok [OF ok, of d] wrote_pend [OF ok, of d] cache_okD(6) [OF ok(1)]
    by (intro exI [of _ "wrote i d s"]) (simp add: wrote_nth)
next
  fix H i and s :: "'e bkst_scheme"
  assume ok: "cache_ok a me H s" "i \<in> H"
  show "\<exists>t. brelse a i s = Ok () t \<and> cache_ok a me (H - {i}) t \<and> disk t = disk s \<and> pend t = pend s \<and> wtrace t = wtrace s \<and> frame t = frame s"
    using brelse_eq [OF ok] freed_ok [OF ok] by simp
qed

end
