(* ===== verification/Codec.thy ===== *)
theory Codec
  imports Log
begin

text \<open>
  The layout of words in disk blocks: the little-endian 16 and 32 bit accesses that
  \<^verbatim>\<open>src/log.c\<close> and \<^verbatim>\<open>src/fs.c\<close> make through pointers into \<^verbatim>\<open>buf.data\<close>. A word that
  was stored is loaded again, and accesses that do not overlap do not interfere.
\<close>

named_theorems codec

lemma length_put32 [simp]: "length (put32 k w d) = length d"
  and length_put16 [simp]: "length (put16 k h d) = length d"
  by (simp_all add: put32_def put16_def)

lemma length_put_blocks [simp]: "length (put_blocks k bs d) = length d"
  by (induction bs arbitrary: k d) simp_all

lemma word32_bytes:
  fixes w :: u32
  shows "ucast (ucast w :: u8) OR push_bit 8 (ucast (ucast (drop_bit 8 w) :: u8)) OR push_bit 16 (ucast (ucast (drop_bit 16 w) :: u8))
     OR push_bit 24 (ucast (ucast (drop_bit 24 w) :: u8)) = w"
proof (rule bit_word_eqI)
  fix n assume "n < LENGTH(32)"
  then consider "n < 8" | "8 \<le> n" "n < 16" | "16 \<le> n" "n < 24" | "24 \<le> n" "n < 32" by fastforce
  then show "bit (ucast (ucast w :: u8) OR push_bit 8 (ucast (ucast (drop_bit 8 w) :: u8)) OR push_bit 16 (ucast (ucast (drop_bit 16 w) :: u8))
     OR push_bit 24 (ucast (ucast (drop_bit 24 w) :: u8)) :: u32) n = bit w n"
    by cases (auto simp: bit_simps)
qed

lemma word16_bytes:
  fixes w :: "16 word"
  shows "ucast (ucast w :: u8) OR push_bit 8 (ucast (ucast (drop_bit 8 w) :: u8)) = w"
  by (rule bit_word_eqI) (auto simp: bit_simps)

lemma get32_put32 [codec]: "k + 3 < length d \<Longrightarrow> get32 (put32 k w d) k = w"
  by (simp add: get32_def put32_def word32_bytes)

lemma get16_put16 [codec]: "k + 1 < length d \<Longrightarrow> get16 (put16 k w d) k = w"
  by (simp add: get16_def put16_def word16_bytes)

lemma get32_put32_other [codec]: "j + 3 < k \<or> k + 3 < j \<Longrightarrow> get32 (put32 k w d) j = get32 d j"
  by (auto simp: get32_def put32_def)

lemma get16_put16_other [codec]: "j + 1 < k \<or> k + 1 < j \<Longrightarrow> get16 (put16 k w d) j = get16 d j"
  by (auto simp: get16_def put16_def)

lemma get16_put32_other [codec]: "j + 1 < k \<or> k + 3 < j \<Longrightarrow> get16 (put32 k w d) j = get16 d j"
  by (auto simp: get16_def put32_def)

lemma get32_put16_other [codec]: "j + 3 < k \<or> k + 1 < j \<Longrightarrow> get32 (put16 k h d) j = get32 d j"
  by (auto simp: get32_def put16_def)

lemma get32_put_blocks_below [codec]: "j + 3 < k \<Longrightarrow> get32 (put_blocks k bs d) j = get32 d j"
  by (induction bs arbitrary: k d) (simp_all add: codec)

lemma get32_put_blocks [codec]:
  "i < length bs \<Longrightarrow> k + 4 * length bs \<le> length d \<Longrightarrow> get32 (put_blocks k bs d) (k + 4 * i) = bs ! i"
proof (induction bs arbitrary: k d i)
  case (Cons b bs)
  show ?case
  proof (cases i)
    case 0
    then show ?thesis using Cons.prems by (simp add: codec)
  next
    case (Suc j)
    have "get32 (put_blocks (k + 4) bs (put32 k b d)) (k + 4 + 4 * j) = bs ! j"
      by (rule Cons.IH) (use Cons.prems Suc in auto)
    then show ?thesis using Suc by (simp add: ac_simps)
  qed
qed simp

lemma sint_small: "0 \<le> x \<Longrightarrow> x < 2 ^ 31 \<Longrightarrow> sint (word_of_int x :: u32) = x"
  by (simp add: sint_u32 uint_word_of_int)

end
