(* ===== verification/Log_Crash.thy ===== *)
theory Log_Crash
  imports Cache Codec Sample
begin

text \<open>
  Crash safety of the write-ahead log, \<^verbatim>\<open>src/log.c\<close>. Every write the disk completes is recorded, in order,
  in \<^verbatim>\<open>wtrace\<close>; a crash keeps the writes of a prefix of that trace and nothing else. The theory gives the
  writes of \<open>commit\<close> and of \<open>recover_from_log\<close> exactly, as functions of the disk, and shows that recovery
  after a crash at any point of a commit leaves every block outside the log old, or every one new, and that a
  crash during recovery is harmless.
\<close>

section \<open>Sequences of disk writes\<close>

definition apply_writes :: "(nat \<times> block) list \<Rightarrow> block list \<Rightarrow> block list" where
  "apply_writes ws d = fold (\<lambda>(n, b) d. d[n := b]) ws d"

lemma apply_writes_simps [simp]:
  "apply_writes [] d = d" "apply_writes (w # ws) d = apply_writes ws (d[fst w := snd w])"
  by (simp_all add: apply_writes_def case_prod_beta)

lemma apply_writes_append [simp]: "apply_writes (xs @ ys) d = apply_writes ys (apply_writes xs d)"
  by (simp add: apply_writes_def)

lemma length_apply_writes [simp]: "length (apply_writes ws d) = length d"
  by (induction ws arbitrary: d) simp_all

lemma apply_writes_other: "n \<notin> fst ` set ws \<Longrightarrow> apply_writes ws d ! n = d ! n"
  by (induction ws arbitrary: d) simp_all

lemma apply_writes_const:
  "\<forall>w \<in> set ws. snd w = f (fst w) \<Longrightarrow> n < length d \<Longrightarrow>
   apply_writes ws d ! n = (if n \<in> fst ` set ws then f n else d ! n)"
  by (induction ws arbitrary: d) (auto simp: nth_list_update)

text \<open>What a run of writes leaves: the trace, the disk, and no pending data for a block that was written.\<close>

definition did :: "nat \<Rightarrow> nat \<Rightarrow> (nat \<times> block) list \<Rightarrow> 'e lkst_scheme \<Rightarrow> log \<Rightarrow> 'e lkst_scheme \<Rightarrow> bool" where
  "did a me ws s l t \<longleftrightarrow> cache_ok a me {} t \<and> disk t = apply_writes ws (disk s) \<and> wtrace t = wtrace s @ ws \<and>
     pend t = (\<lambda>b. if unat b \<in> fst ` set ws then None else pend s b) \<and> klog t = l \<and> pkst.truncate t = pkst.truncate s"

lemma did_trans: "did a me ws s l t \<Longrightarrow> did a me ws' t l' u \<Longrightarrow> did a me (ws @ ws') s l' u"
  unfolding did_def by (simp add: image_Un fun_eq_iff)

lemma did_refl: "cache_ok a me {} s \<Longrightarrow> did a me [] s (klog s) s"
  by (simp add: did_def)

lemma cache_ok_upd_log [simp]: "cache_ok a me H (upd_log f s) = cache_ok a me H s"
  and pend_upd_log [simp]: "pend (upd_log f s) = pend s"
  by (simp_all add: upd_log_def cache_ok_def held_by_def calm_def pend_def fun_eq_iff)

lemma upd_log_fields [simp]:
  "klog (upd_log f s) = f (klog s)" "disk (upd_log f s) = disk s" "wtrace (upd_log f s) = wtrace s"
  "mach (upd_log f s) = mach s" "ptab (upd_log f s) = ptab s"
  by (simp_all add: upd_log_def)

lemma truncate_upd_log [simp]: "pkst.truncate (upd_log f s) = pkst.truncate s"
  by (simp add: upd_log_def pkst.defs)

lemma did_upd_log: "cache_ok a me {} s \<Longrightarrow> did a me [] s (f (klog s)) (upd_log f s)"
  by (simp add: did_def)

lemma frame_klog: "frame t = frame s \<Longrightarrow> klog t = klog s"
  by (cases s; cases t) (simp add: frame_def)

lemma did_one:
  "cache_ok a me {} t \<Longrightarrow> disk t = (disk s)[unat b := d] \<Longrightarrow> pend t = (pend s)(b := None) \<Longrightarrow>
   wtrace t = wtrace s @ [(unat b, d)] \<Longrightarrow> frame t = frame s \<Longrightarrow> did a me [(unat b, d)] s (klog s) t"
  by (frule frame_klog) (simp add: did_def frame_def fun_eq_iff word_unat_eq_iff [symmetric])

lemma forR_did:
  assumes ok: "cache_ok a me {} s"
    and step: "\<And>i t. i < n \<Longrightarrow> did a me (map w [0..<i]) s (klog s) t \<Longrightarrow> \<exists>u. f i t = Ok () u \<and> did a me [w i] t (klog s) u"
  shows "\<exists>t. forR [0..<n] f s = Ok () t \<and> did a me (map w [0..<n]) s (klog s) t"
  using step
proof (induction n)
  case 0
  then show ?case using did_refl [OF ok] by simp
next
  case (Suc n)
  obtain t where t: "forR [0..<n] f s = Ok () t" "did a me (map w [0..<n]) s (klog s) t" using Suc by force
  obtain u where u: "f n t = Ok () u" "did a me [w n] t (klog s) u" using Suc.prems [OF _ t(2)] by blast
  show ?case using t u did_trans [OF t(2) u(2)] by (simp add: forR_append)
qed

section \<open>Single steps\<close>

text \<open>The block named by \<open>b\<close> can be read while \<open>k\<close> buffers are held.\<close>

definition fits :: "u32 \<Rightarrow> nat \<Rightarrow> 'e bkst_scheme \<Rightarrow> bool" where
  "fits b k s \<longleftrightarrow> unat b < length (disk s) \<and> (pend s b \<noteq> None \<or> card (dom (pend s)) + k < NBUF)"

lemma write_log_one_did:
  assumes "cache_ok a me {} s" "lg_dev (klog s) = 1" "log_block i s \<noteq> lh_block (klog s) ! i"
    "fits (log_block i s) 0 s" "fits (lh_block (klog s) ! i) 1 s"
  shows "\<exists>t. write_log_one a i s = Ok () t \<and> did a me [(unat (log_block i s), content s (lh_block (klog s) ! i))] s (klog s) t"
proof -
  let ?b = "lh_block (klog s) ! i"
  have g: "bread a (lg_dev (klog t)) (lh_block (klog t) ! i) t = bread a 1 ?b t" if "frame t = frame s" for t
    unfolding frame_klog [OF that] assms(2) ..
  obtain t where t: "write_log_one a i s = Ok () t" "bc.written a me (log_block i s) (bc.val s ?b) s t"
    using bc.copy_first [OF assms(1,3) _ _ _ _ g] assms(4,5) unfolding write_log_one_def assms(2) fits_def by auto
  then show ?thesis by (auto simp: bc.written_def bc.val_def content_def intro!: did_one)
qed

lemma install_one_did:
  assumes "cache_ok a me {} s" "lg_dev (klog s) = 1" "log_block i s \<noteq> lh_block (klog s) ! i"
    "fits (log_block i s) 0 s" "fits (lh_block (klog s) ! i) 1 s"
  shows "\<exists>t. install_one a i s = Ok () t \<and> did a me [(unat (lh_block (klog s) ! i), content s (log_block i s))] s (klog s) t"
proof -
  let ?b = "lh_block (klog s) ! i"
  have g: "bread a (lg_dev (klog t)) (lh_block (klog t) ! i) t = bread a 1 ?b t" if "frame t = frame s" for t
    unfolding frame_klog [OF that] assms(2) ..
  obtain t where t: "install_one a i s = Ok () t" "bc.written a me ?b (bc.val s (log_block i s)) s t"
    using bc.copy_second [OF assms(1,3) _ _ _ _ g] assms(4,5) unfolding install_one_def assms(2) fits_def by auto
  then show ?thesis by (auto simp: bc.written_def bc.val_def content_def intro!: did_one)
qed

text \<open>The header block that \<open>write_head\<close> writes over the old one.\<close>

definition head_block :: "log \<Rightarrow> block \<Rightarrow> block" where
  "head_block l d = put_blocks 4 (take (nat (lh_n l)) (lh_block l)) (put32 0 (word_of_int (lh_n l)) d)"

lemma write_head_did:
  assumes "cache_ok a me {} s" "lg_dev (klog s) = 1" "fits (lg_start (klog s)) 0 s"
  shows "\<exists>t. write_head a s = Ok () t \<and>
    did a me [(unat (lg_start (klog s)), head_block (klog s) (content s (lg_start (klog s))))] s (klog s) t"
proof -
  have g: "put_blocks 4 (take (nat (lh_n (klog t))) (lh_block (klog t))) (put32 0 (word_of_int (lh_n (klog t))) (b_data (bf i t)))
      = head_block (klog s) (b_data (bf i t))" if "frame t = frame s" for i t
    unfolding frame_klog [OF that] head_block_def ..
  obtain t where "write_head a s = Ok () t" "bc.written a me (lg_start (klog s)) (head_block (klog s) (bc.val s (lg_start (klog s)))) s t"
    using bc.rewrite_block [where f = "head_block (klog s)", OF assms(1) _ _ g] assms(3) unfolding write_head_def assms(2) fits_def Let_def by auto
  then show ?thesis by (auto simp: bc.written_def bc.val_def content_def intro!: did_one)
qed

text \<open>What \<open>read_head\<close> leaves in memory.\<close>

definition head_count :: "block \<Rightarrow> int" where "head_count d = sint (get32 d 0)"

definition head_list :: "block \<Rightarrow> u32 list" where
  "head_list d = map (\<lambda>i. get32 d (4 * Suc i)) [0..<nat (head_count d)]"

definition head_load :: "block \<Rightarrow> log \<Rightarrow> log" where
  "head_load d l = l\<lparr>lh_n := head_count d, lh_block := head_list d @ drop (length (head_list d)) (lh_block l)\<rparr>"

lemma head_load_fun:
  "(\<lambda>l. l\<lparr>lh_n := sint (get32 d 0), lh_block := map (\<lambda>i. get32 d (4 + 4 * i)) [0..<nat (sint (get32 d 0))] @
       drop (nat (sint (get32 d 0))) (lh_block l)\<rparr>) = head_load d"
  by (simp add: head_load_def head_list_def head_count_def fun_eq_iff)

lemma read_head_did:
  assumes "cache_ok a me {} s" "lg_dev (klog s) = 1" "fits (lg_start (klog s)) 0 s"
  shows "\<exists>t. read_head a s = Ok () t \<and> did a me [] s (head_load (content s (lg_start (klog s))) (klog s)) t"
proof -
  let ?b = "lg_start (klog s)" and ?f = "head_load (content s (lg_start (klog s)))"
  obtain i t where t: "bread a 1 ?b s = Ok i t" "cache_ok a me {i} t" "b_data (bf i t) = content s ?b"
     "disk t = disk s" "pend t = pend s" "wtrace t = wtrace s" "frame t = frame s"
    using bc.read_ok [OF assms(1), of ?b] assms(3) by (auto simp: fits_def content_def)
  have ok: "cache_ok a me {i} (upd_log ?f t)" using t(2) by simp
  obtain u where u: "brelse a i (upd_log ?f t) = Ok () u" "cache_ok a me ({i} - {i}) u" "disk u = disk (upd_log ?f t)"
     "pend u = pend (upd_log ?f t)" "wtrace u = wtrace (upd_log ?f t)" "frame u = frame (upd_log ?f t)"
    using bc.release_ok [OF ok, of i] by blast
  have "klog u = ?f (klog s)" using frame_klog [OF u(6)] frame_klog [OF t(7)] by simp
  moreover have "read_head a s = Ok () u"
    using t(1,3) u(1) by (simp add: read_head_def assms(2) Let_def head_load_fun)
  moreover have "pkst.truncate u = pkst.truncate s" using u(6) t(7) by (simp add: frame_def)
  ultimately show ?thesis using u t by (simp add: did_def)
qed

section \<open>The log area and a transaction\<close>

definition in_log :: "log \<Rightarrow> nat \<Rightarrow> bool" where
  "in_log l n \<longleftrightarrow> unat (lg_start l) \<le> n \<and> n < unat (lg_start l) + nat (lg_size l)"

definition log_ok :: "log \<Rightarrow> block list \<Rightarrow> bool" where
  "log_ok l d \<longleftrightarrow> lg_dev l = 1 \<and> 0 < lg_size l \<and> unat (lg_start l) + nat (lg_size l) \<le> length d \<and> length d \<le> 2 ^ 32"

definition logged :: "log \<Rightarrow> u32 list" where "logged l = take (nat (lh_n l)) (lh_block l)"

definition batch_ok :: "log \<Rightarrow> block list \<Rightarrow> bool" where
  "batch_ok l d \<longleftrightarrow> log_ok l d \<and> 0 \<le> lh_n l \<and> lh_n l < lg_size l \<and> lh_n l < LOGSIZE \<and> lh_n l \<le> int (length (lh_block l)) \<and>
     (\<forall>b \<in> set (logged l). unat b < length d \<and> \<not> in_log l (unat b))"

text \<open>The cache has nothing that waits to be written but the blocks of the transaction, or nothing at all.\<close>

definition drained :: "'e lkst_scheme \<Rightarrow> bool" where
  "drained s \<longleftrightarrow> pend s = Map.empty \<or> distinct (logged (klog s)) \<and> dom (pend s) = set (logged (klog s))"

lemma log_okD:
  assumes "log_ok l d"
  shows "lg_dev l = 1" "0 < lg_size l" "unat (lg_start l) < length d" "in_log l (unat (lg_start l))"
  using assms by (auto simp: log_ok_def in_log_def)

lemma batch_okD:
  assumes "batch_ok l d"
  shows "log_ok l d" "lh_n l = int (length (logged l))" "length (logged l) < nat (lg_size l)" "length (logged l) < 30"
    "i < length (logged l) \<Longrightarrow> lh_block l ! i = logged l ! i"
  using assms by (auto simp: batch_ok_def logged_def LOGSIZE_def)

lemma batch_ok_home:
  assumes "batch_ok l d" "i < length (logged l)"
  shows "unat (logged l ! i) < length d" "\<not> in_log l (unat (logged l ! i))"
  using assms nth_mem [OF assms(2)] by (auto simp: batch_ok_def)

lemma log_block_unat:
  assumes "log_ok (klog s) d" "Suc i < nat (lg_size (klog s))"
  shows "unat (log_block i s) = unat (lg_start (klog s)) + Suc i"
proof -
  have "unat (lg_start (klog s)) + Suc i < 2 ^ 32" using assms by (auto simp: log_ok_def)
  moreover have "log_block i s = lg_start (klog s) + word_of_nat (Suc i)" by (simp add: log_block_def)
  ultimately show ?thesis by (simp only: unat_word_ariths unat_of_nat) simp
qed

lemma drained_card: "batch_ok (klog s) d \<Longrightarrow> drained s \<Longrightarrow> card (dom (pend s)) < NBUF"
  using batch_okD(4) [of "klog s" d] card_length [of "logged (klog s)"] by (auto simp: drained_def NBUF_def)

lemma did_card: "did a me ws s l t \<Longrightarrow> finite (dom (pend s)) \<Longrightarrow> card (dom (pend t)) \<le> card (dom (pend s))"
  by (rule card_mono) (auto simp: did_def split: if_splits)

lemma drained_finite: "drained s \<Longrightarrow> finite (dom (pend s))"
  by (auto simp: drained_def)

lemma drained_log: "batch_ok (klog s) d \<Longrightarrow> drained s \<Longrightarrow> in_log (klog s) (unat b) \<Longrightarrow> pend s b = None"
  by (auto simp: drained_def batch_ok_def)

section \<open>Copying the log to its blocks and blocks to the log\<close>

lemma in_log_block: "i < length (logged l) \<Longrightarrow> batch_ok l d \<Longrightarrow> in_log l (unat (lg_start l) + Suc i)"
  using batch_okD(3) [of l d] by (simp add: in_log_def)

definition install_writes :: "log \<Rightarrow> block list \<Rightarrow> (nat \<times> block) list" where
  "install_writes l d = map (\<lambda>i. (unat (logged l ! i), d ! (unat (lg_start l) + Suc i))) [0..<length (logged l)]"

definition copy_writes :: "log \<Rightarrow> (u32 \<Rightarrow> block) \<Rightarrow> (nat \<times> block) list" where
  "copy_writes l c = map (\<lambda>i. (unat (lg_start l) + Suc i, c (logged l ! i))) [0..<length (logged l)]"

text \<open>In the middle of either copy, both blocks of the next step can be read.\<close>

lemma batch_step:
  assumes b: "batch_ok (klog s) (disk s)" and dr: "drained s" and i: "i < length (logged (klog s))" and d: "did a me ws s (klog s) t"
    and un: "drained s \<Longrightarrow> pend s \<noteq> Map.empty \<Longrightarrow> unat (logged (klog s) ! i) \<notin> fst ` set ws"
  shows "unat (log_block i t) = unat (lg_start (klog s)) + Suc i" "lh_block (klog t) ! i = logged (klog s) ! i"
    "pend t (log_block i t) = None" "fits (log_block i t) 0 t" "fits (lh_block (klog t) ! i) 1 t"
    "log_block i t \<noteq> lh_block (klog t) ! i" "lg_dev (klog t) = 1"
proof -
  let ?l = "klog s"
  have c: "klog t = ?l" "disk t = apply_writes ws (disk s)" "pend t = (\<lambda>b. if unat b \<in> fst ` set ws then None else pend s b)"
    using d by (simp_all add: did_def)
  show lb: "unat (log_block i t) = unat (lg_start ?l) + Suc i"
    using log_block_unat [of t "disk s" i] batch_okD(1,3) [OF b] i c(1) by simp
  have il: "in_log ?l (unat (log_block i t))" using lb in_log_block [OF i b] by simp
  show "pend t (log_block i t) = None" using c(3) drained_log [OF b dr il] by simp
  show hb: "lh_block (klog t) ! i = logged ?l ! i" using batch_okD(5) [OF b i] c(1) by simp
  have cd: "card (dom (pend t)) < NBUF" "length (disk t) = length (disk s)"
    using did_card [OF d drained_finite [OF dr]] drained_card [OF b dr] c(2) by simp_all
  show "fits (log_block i t) 0 t"
    using il batch_okD(1) [OF b] cd by (auto simp: fits_def log_ok_def in_log_def)
  have "pend t (logged ?l ! i) \<noteq> None \<or> card (dom (pend t)) + 1 < NBUF"
  proof (cases "pend s = Map.empty")
    case False
    then have "logged ?l ! i \<in> dom (pend s)" using dr i by (auto simp: drained_def)
    then show ?thesis using c(3) un [OF dr False] by auto
  qed (use c(3) in \<open>simp add: NBUF_def dom_def\<close>)
  then show "fits (lh_block (klog t) ! i) 1 t" using batch_ok_home(1) [OF b i] cd hb by (simp add: fits_def)
  show "log_block i t \<noteq> lh_block (klog t) ! i" using il batch_ok_home(2) [OF b i] hb by auto
  show "lg_dev (klog t) = 1" using log_okD(1) [OF batch_okD(1) [OF b]] c(1) by simp
qed

lemma install_trans_did:
  assumes ok: "cache_ok a me {} s" and b: "batch_ok (klog s) (disk s)" and dr: "drained s"
  shows "\<exists>t. install_trans a s = Ok () t \<and> did a me (install_writes (klog s) (disk s)) s (klog s) t"
proof -
  let ?l = "klog s" and ?w = "\<lambda>i. (unat (logged (klog s) ! i), disk s ! (unat (lg_start (klog s)) + Suc i))"
  have "\<exists>u. install_one a i t = Ok () u \<and> did a me [?w i] t ?l u"
    if i: "i < length (logged ?l)" and d: "did a me (map ?w [0..<i]) s ?l t" for i t
  proof -
    have "distinct (logged ?l)" if "drained s" "pend s \<noteq> Map.empty" using that by (auto simp: drained_def)
    then have un: "unat (logged ?l ! i) \<notin> fst ` set (map ?w [0..<i])" if "drained s" "pend s \<noteq> Map.empty"
      using that i by (auto simp: distinct_conv_nth word_unat_eq_iff [symmetric])
    note st = batch_step [OF b dr i d un]
    have "unat (log_block i t) \<notin> fst ` set (map ?w [0..<i])" using st(1) in_log_block [OF i b] batch_ok_home(2) [OF b] i by auto
    then have v: "content t (log_block i t) = disk s ! (unat (lg_start ?l) + Suc i)"
      using st(1,3) d by (simp add: content_def did_def apply_writes_other)
    have c: "cache_ok a me {} t" "klog t = ?l" using d by (simp_all add: did_def)
    show ?thesis using install_one_did [OF c(1) st(7,6,4,5)] v st(2) c(2) by simp
  qed
  then show ?thesis using forR_did [OF ok, of "length (logged ?l)" ?w "install_one a"] batch_okD(2) [OF b]
    by (simp add: install_trans_def install_writes_def)
qed

lemma write_log_did:
  assumes ok: "cache_ok a me {} s" and b: "batch_ok (klog s) (disk s)" and dr: "drained s"
  shows "\<exists>t. write_log a s = Ok () t \<and> did a me (copy_writes (klog s) (content s)) s (klog s) t"
proof -
  let ?l = "klog s" and ?w = "\<lambda>i. (unat (lg_start (klog s)) + Suc i, content s (logged (klog s) ! i))"
  have "\<exists>u. write_log_one a i t = Ok () u \<and> did a me [?w i] t ?l u"
    if i: "i < length (logged ?l)" and d: "did a me (map ?w [0..<i]) s ?l t" for i t
  proof -
    have "in_log ?l n" if "n \<in> fst ` set (map ?w [0..<i])" for n
      using that i in_log_block [OF _ b] by auto
    then have un: "unat (logged ?l ! i) \<notin> fst ` set (map ?w [0..<i])" using batch_ok_home(2) [OF b i] by blast
    note st = batch_step [OF b dr i d un]
    have v: "content t (logged ?l ! i) = content s (logged ?l ! i)"
      using un d unfolding content_def did_def by (simp add: apply_writes_other cong: option.case_cong)
    have c: "cache_ok a me {} t" "klog t = ?l" using d by (simp_all add: did_def)
    show ?thesis using write_log_one_did [OF c(1) st(7,6,4,5)] v st(1,2) c(2) by simp
  qed
  then show ?thesis using forR_did [OF ok, of "length (logged ?l)" ?w "write_log_one a"] batch_okD(2) [OF b]
    by (simp add: write_log_def copy_writes_def)
qed

section \<open>The writes of a commit and of a recovery\<close>

definition home_writes :: "log \<Rightarrow> (u32 \<Rightarrow> block) \<Rightarrow> (nat \<times> block) list" where
  "home_writes l c = map (\<lambda>b. (unat b, c b)) (logged l)"

definition commit_writes :: "log \<Rightarrow> (u32 \<Rightarrow> block) \<Rightarrow> block list \<Rightarrow> (nat \<times> block) list" where
  "commit_writes l c d =
     (let st = unat (lg_start l); h = head_block l (d ! st) in copy_writes l c @ [(st, h)] @ home_writes l c @ [(st, put32 0 0 h)])"

definition recovery_writes :: "log \<Rightarrow> block list \<Rightarrow> (nat \<times> block) list" where
  "recovery_writes l d = (let st = unat (lg_start l) in install_writes (head_load (d ! st) l) d @ [(st, put32 0 0 (d ! st))])"

lemma head_block_clear: "head_block (l\<lparr>lh_n := 0\<rparr>) d = put32 0 0 d"
  by (simp add: head_block_def)

lemma copy_writes_in_log: "batch_ok l d \<Longrightarrow> n \<in> fst ` set (copy_writes l c) \<Longrightarrow> in_log l n"
  and home_writes_not_in_log: "batch_ok l d \<Longrightarrow> n \<in> fst ` set (home_writes l c) \<Longrightarrow> \<not> in_log l n"
  using in_log_block [of _ l d] by (auto simp: copy_writes_def home_writes_def batch_ok_def)

lemma install_writes_not_in_log: "batch_ok l d \<Longrightarrow> n \<in> fst ` set (install_writes l d') \<Longrightarrow> \<not> in_log l n"
  using batch_ok_home(2) [of l d] by (auto simp: install_writes_def)

lemma copy_writes_start: "unat (lg_start l) \<notin> fst ` set (copy_writes l c)"
  by (auto simp: copy_writes_def)

lemma apply_copy_writes:
  assumes "i < length (logged l)" "batch_ok l d"
  shows "apply_writes (copy_writes l c) d ! (unat (lg_start l) + Suc i) = c (logged l ! i)"
proof -
  have "unat (lg_start l) + Suc i < length d"
    using in_log_block [OF assms] batch_okD(1) [OF assms(2)] by (auto simp: in_log_def log_ok_def)
  moreover have "unat (lg_start l) + Suc i \<in> fst ` set (copy_writes l c)" using assms(1) by (force simp: copy_writes_def)
  moreover have "\<forall>w \<in> set (copy_writes l c). snd w = c (logged l ! (fst w - Suc (unat (lg_start l))))"
    by (auto simp: copy_writes_def)
  ultimately show ?thesis
    by (subst apply_writes_const [where f = "\<lambda>n. c (logged l ! (n - Suc (unat (lg_start l))))"]) auto
qed

lemma install_after_copy:
  assumes "batch_ok l d"
  shows "install_writes l (apply_writes (copy_writes l c @ [(unat (lg_start l), h)]) d) = home_writes l c"
proof (rule nth_equalityI)
  fix i assume "i < length (install_writes l (apply_writes (copy_writes l c @ [(unat (lg_start l), h)]) d))"
  then have i: "i < length (logged l)" by (simp add: install_writes_def)
  then show "install_writes l (apply_writes (copy_writes l c @ [(unat (lg_start l), h)]) d) ! i = home_writes l c ! i"
    using apply_copy_writes [OF i assms, of c] by (simp add: install_writes_def home_writes_def)
qed (simp add: install_writes_def home_writes_def)

lemma batch_ok_length: "batch_ok l d \<Longrightarrow> length d' = length d \<Longrightarrow> batch_ok l d'"
  by (simp add: batch_ok_def log_ok_def)

text \<open>A state after writes that leave the pending blocks of the transaction alone, or write all of them.\<close>

lemma did_drained:
  assumes "did a me ws s (klog s) t" "drained s" "\<And>b. b \<in> set (logged (klog s)) \<Longrightarrow> unat b \<notin> fst ` set ws"
  shows "drained t"
  using assms unfolding did_def drained_def by (auto simp: dom_def split: if_splits)

lemma write_head_did':
  assumes "cache_ok a me {} s" "log_ok (klog s) (disk s)" "card (dom (pend s)) < NBUF" "pend s (lg_start (klog s)) = None"
  shows "\<exists>t. write_head a s = Ok () t \<and>
    did a me [(unat (lg_start (klog s)), head_block (klog s) (disk s ! unat (lg_start (klog s))))] s (klog s) t"
  using write_head_did [OF assms(1)] log_okD(1,3) [OF assms(2)] assms(3,4) by (simp add: fits_def content_def)

lemma clear_head_did:
  assumes "cache_ok a me {} s" "log_ok (klog s) (disk s)" "card (dom (pend s)) < NBUF" "pend s (lg_start (klog s)) = None"
  shows "\<exists>t. write_head a (upd_log (\<lambda>l. l\<lparr>lh_n := 0\<rparr>) s) = Ok () t \<and>
    did a me [(unat (lg_start (klog s)), put32 0 0 (disk s ! unat (lg_start (klog s))))] s ((klog s)\<lparr>lh_n := 0\<rparr>) t"
  using write_head_did' [of a me "upd_log (\<lambda>l. l\<lparr>lh_n := 0\<rparr>) s"] assms
  by (auto simp: head_block_clear log_ok_def did_def cong: if_cong)

lemma commit_point_did:
  assumes ok: "cache_ok a me {} s" and b: "batch_ok (klog s) (disk s)" and dr: "drained s"
  shows "\<exists>t. bnd (write_log a s) (\<lambda>_ s. write_head a s) = Ok () t \<and> drained t \<and>
    did a me (copy_writes (klog s) (content s) @ [(unat (lg_start (klog s)), head_block (klog s) (disk s ! unat (lg_start (klog s))))])
      s (klog s) t"
proof -
  let ?l = "klog s" and ?st = "unat (lg_start (klog s))" and ?c = "copy_writes (klog s) (content s)"
  have start: "in_log ?l ?st" using log_okD(4) [OF batch_okD(1) [OF b]] by simp
  obtain t where t: "write_log a s = Ok () t" "did a me ?c s ?l t" using write_log_did [OF ok b dr] by blast
  have k: "klog t = ?l" "disk t ! ?st = disk s ! ?st" "cache_ok a me {} t" "length (disk t) = length (disk s)"
    using t(2) apply_writes_other [OF copy_writes_start] by (simp_all add: did_def)
  have un: "unat b \<notin> fst ` set ?c" if "b \<in> set (logged ?l)" for b
    using that copy_writes_in_log [OF b] b by (auto simp: batch_ok_def)
  note dr1 = did_drained [OF t(2) dr un]
  have b1: "batch_ok (klog t) (disk t)" using batch_ok_length [OF b k(4)] k(1) by simp
  have p1: "pend t (lg_start ?l) = None" using drained_log [OF b1 dr1] start k(1) by simp
  obtain u where u: "write_head a t = Ok () u" "did a me [(?st, head_block ?l (disk s ! ?st))] t ?l u"
    using write_head_did' [OF k(3) batch_okD(1) [OF b1] drained_card [OF b1 dr1]] p1 unfolding k(1,2) by blast
  have "unat b \<noteq> ?st" if "b \<in> set (logged ?l)" for b using that b start by (auto simp: batch_ok_def)
  then have "drained u" using did_drained [OF u(2) [folded k(1)] dr1] unfolding k(1) by auto
  then show ?thesis using t(1) u(1) did_trans [OF t(2) u(2)] by auto
qed

lemma commit_did:
  assumes ok: "cache_ok a me {} s" and b: "batch_ok (klog s) (disk s)" and dr: "drained s" and n: "0 < lh_n (klog s)"
  shows "\<exists>t. commit a s = Ok () t \<and> did a me (commit_writes (klog s) (content s) (disk s)) s ((klog s)\<lparr>lh_n := 0\<rparr>) t"
proof -
  let ?l = "klog s" and ?st = "unat (lg_start (klog s))" and ?d = "disk s"
  let ?h = "head_block ?l (?d ! ?st)" and ?hw = "home_writes ?l (content s)" and ?c = "copy_writes ?l (content s)"
  have start: "in_log ?l ?st" "?st < length ?d" using log_okD(3,4) [OF batch_okD(1) [OF b]] by simp_all
  obtain t where t: "bnd (write_log a s) (\<lambda>_ s. write_head a s) = Ok () t" "drained t" "did a me (?c @ [(?st, ?h)]) s ?l t"
    using commit_point_did [OF ok b dr] by blast
  then have k: "klog t = ?l" "disk t = apply_writes (?c @ [(?st, ?h)]) ?d" "cache_ok a me {} t" by (simp_all add: did_def)
  have b': "batch_ok (klog t) (disk t)" using batch_ok_length [OF b] k(1,2) by simp
  obtain u where u: "install_trans a t = Ok () u" "did a me ?hw t ?l u"
    using install_trans_did [OF k(3) b' t(2)] install_after_copy [OF b, of "content s" ?h] unfolding k(1,2) by auto
  note d = did_trans [OF t(3) u(2)]
  have "?st \<notin> fst ` set ?hw" using home_writes_not_in_log [OF b] start by blast
  then have k: "klog u = ?l" "disk u ! ?st = ?h" "cache_ok a me {} u" "length (disk u) = length ?d" "pend u (lg_start ?l) = None"
    using d start by (auto simp: did_def apply_writes_other)
  have g: "log_ok (klog u) (disk u)" using b k(1,4) by (simp add: batch_ok_def log_ok_def)
  have cd: "card (dom (pend u)) < NBUF" using did_card [OF d drained_finite [OF dr]] drained_card [OF b dr] by simp
  obtain v where v: "write_head a (upd_log (\<lambda>l. l\<lparr>lh_n := 0\<rparr>) u) = Ok () v" "did a me [(?st, put32 0 0 ?h)] u (?l\<lparr>lh_n := 0\<rparr>) v"
    using clear_head_did [OF k(3) g cd] k(5) unfolding k(1,2) by blast
  have "commit a s = bnd (bnd (write_log a s) (\<lambda>_ s. write_head a s)) (\<lambda>_ s. bnd (install_trans a s) (\<lambda>_ s.
        write_head a (upd_log (\<lambda>l. l\<lparr>lh_n := 0\<rparr>) s)))" using n by (simp add: commit_def bnd_assoc)
  then show ?thesis using did_trans [OF d v(2)] t(1) u(1) v(1) by (simp add: commit_writes_def Let_def)
qed

lemma recover_did:
  assumes ok: "cache_ok a me {} s" and b: "batch_ok (head_load (disk s ! unat (lg_start (klog s))) (klog s)) (disk s)"
    and p: "pend s = Map.empty"
  shows "\<exists>t. recover_from_log a s = Ok () t \<and> did a me (recovery_writes (klog s) (disk s)) s
    ((head_load (disk s ! unat (lg_start (klog s))) (klog s))\<lparr>lh_n := 0\<rparr>) t"
proof -
  let ?st = "unat (lg_start (klog s))" and ?l = "head_load (disk s ! unat (lg_start (klog s))) (klog s)"
  have st: "lg_start ?l = lg_start (klog s)" "lg_dev (klog s) = lg_dev ?l" "lg_size ?l = lg_size (klog s)" by (simp_all add: head_load_def)
  note g = log_okD [OF batch_okD(1) [OF b]]
  have f: "fits (lg_start (klog s)) 0 s" using g(3) p by (simp add: fits_def st NBUF_def)
  obtain t where t: "read_head a s = Ok () t" "did a me [] s ?l t"
    using read_head_did [OF ok _ f] g(1) p by (auto simp: st content_def)
  then have k: "klog t = ?l" "disk t = disk s" "cache_ok a me {} t" "pend t = Map.empty" using p by (simp_all add: did_def)
  then have b1: "batch_ok (klog t) (disk t)" and dr: "drained t" using b by (simp_all add: drained_def)
  obtain u where u: "install_trans a t = Ok () u" "did a me (install_writes ?l (disk s)) t ?l u"
    using install_trans_did [OF k(3) b1 dr] k(1,2) by auto
  have "?st \<notin> fst ` set (install_writes ?l (disk s))"
    using g(4) install_writes_not_in_log [OF b] unfolding st(1) by blast
  then have k': "klog u = ?l" "disk u ! ?st = disk s ! ?st" "cache_ok a me {} u" "length (disk u) = length (disk s)" "pend u = Map.empty"
    using u(2) k by (auto simp: did_def apply_writes_other)
  obtain v where v: "write_head a (upd_log (\<lambda>l. l\<lparr>lh_n := 0\<rparr>) u) = Ok () v" "did a me [(?st, put32 0 0 (disk s ! ?st))] u (?l\<lparr>lh_n := 0\<rparr>) v"
    using clear_head_did [OF k'(3)] batch_okD(1) [OF batch_ok_length [OF b k'(4)]] k'(2,5) unfolding k'(1) st
    by (auto simp: NBUF_def)
  have "recover_from_log a s = Ok () v" using t(1) u(1) v(1) by (simp add: recover_from_log_def)
  then show ?thesis using did_trans [OF t(2) did_trans [OF u(2) v(2)]] by (simp add: recovery_writes_def Let_def)
qed

section \<open>Crashes\<close>

definition recovered :: "log \<Rightarrow> block list \<Rightarrow> block list" where
  "recovered l d = apply_writes (recovery_writes l d) d"

definition same_place :: "log \<Rightarrow> log \<Rightarrow> bool" where
  "same_place l l' \<longleftrightarrow> lg_start l' = lg_start l \<and> lg_size l' = lg_size l \<and> lg_dev l' = lg_dev l"

lemma same_place_in_log: "same_place l l' \<Longrightarrow> in_log l' = in_log l" "same_place l l' \<Longrightarrow> log_ok l' = log_ok l"
  by (simp_all add: same_place_def in_log_def log_ok_def fun_eq_iff)

lemma head_load_place [simp]: "lg_start (head_load d l) = lg_start l" "in_log (head_load d l) = in_log l" "log_ok (head_load d l) = log_ok l"
  by (simp_all add: head_load_def in_log_def log_ok_def fun_eq_iff)

lemma not_start: "log_ok l d \<Longrightarrow> \<not> in_log l n \<Longrightarrow> unat (lg_start l) \<noteq> n"
  using log_okD(4) by blast

lemma head_count_clear: "3 < length d \<Longrightarrow> head_count (put32 0 0 d) = 0"
  by (simp add: head_count_def codec)

lemma head_block_round_trip:
  assumes "batch_ok l d" "BSIZE \<le> length x"
  shows "head_count (head_block l x) = lh_n l" "head_list (head_block l x) = logged l"
proof -
  have n: "length (logged l) < 30" using batch_okD(4) [OF assms(1)] .
  have "head_count (head_block l x) = sint (word_of_int (lh_n l) :: u32)"
    using assms(2) by (simp add: head_count_def head_block_def codec BSIZE_def)
  then show c: "head_count (head_block l x) = lh_n l"
    using batch_okD(2) [OF assms(1)] n sint_small [of "lh_n l"] by simp
  have "get32 (head_block l x) (4 * Suc i) = logged l ! i" if "i < length (logged l)" for i
    using get32_put_blocks [OF that, of 4 "put32 0 (word_of_int (lh_n l)) x"] n assms(2)
    by (simp add: head_block_def logged_def [symmetric] BSIZE_def)
  then show "head_list (head_block l x) = logged l"
    using batch_okD(2) [OF assms(1)] by (intro nth_equalityI) (simp_all add: head_list_def c)
qed

lemma recovered_empty:
  assumes "log_ok l d" "head_count (d ! unat (lg_start l)) = 0"
  shows "batch_ok (head_load (d ! unat (lg_start l)) l) d" "\<not> in_log l n \<Longrightarrow> recovered l d ! n = d ! n"
proof -
  have e: "logged (head_load (d ! unat (lg_start l)) l) = []" by (simp add: logged_def head_load_def assms(2))
  show "batch_ok (head_load (d ! unat (lg_start l)) l) d"
    using assms log_okD(2) [OF assms(1)] by (simp add: batch_ok_def e) (simp add: head_load_def LOGSIZE_def)
  show "recovered l d ! n = d ! n" if "\<not> in_log l n"
    using not_start [OF assms(1) that] by (simp add: recovered_def recovery_writes_def Let_def install_writes_def e)
qed

lemma logged_head_load:
  assumes "head_count x = lh_n l" "head_list x = logged l" "batch_ok l d"
  shows "logged (head_load x l') = logged l" "lh_n (head_load x l') = lh_n l" "lh_block (head_load x l') = logged l @ drop (length (logged l)) (lh_block l')"
  using batch_okD(2) [OF assms(3)] by (simp_all add: head_load_def logged_def [of "_ \<lparr>lh_n := _, lh_block := _\<rparr>"] assms(1,2))

lemma recovered_full:
  assumes b: "batch_ok l d" and pl: "same_place l l'" and len: "length d' = length d"
    and h: "head_count (d' ! unat (lg_start l)) = lh_n l" "head_list (d' ! unat (lg_start l)) = logged l"
    and c: "\<And>i. i < length (logged l) \<Longrightarrow> d' ! (unat (lg_start l) + Suc i) = c (logged l ! i)"
  shows "batch_ok (head_load (d' ! unat (lg_start l')) l') d'"
    "n < length d \<Longrightarrow> \<not> in_log l n \<Longrightarrow> recovered l' d' ! n = apply_writes (home_writes l c) d' ! n"
proof -
  have st: "lg_start l' = lg_start l" using pl by (simp add: same_place_def)
  note lg = logged_head_load [OF h b, of l']
  have sz: "lg_size (head_load (d' ! unat (lg_start l)) l') = lg_size l" using pl by (simp add: head_load_def same_place_def)
  show "batch_ok (head_load (d' ! unat (lg_start l')) l') d'"
    using b batch_ok_length [OF b len] same_place_in_log [OF pl] batch_okD(2) [OF b] unfolding batch_ok_def st lg sz by simp
  have "install_writes (head_load (d' ! unat (lg_start l)) l') d' = home_writes l c"
    by (rule nth_equalityI) (simp_all add: install_writes_def home_writes_def lg st c [unfolded add_Suc_right])
  then show "recovered l' d' ! n = apply_writes (home_writes l c) d' ! n" if "n < length d" "\<not> in_log l n"
    using not_start [OF batch_okD(1) [OF b] that(2)] by (simp add: recovered_def recovery_writes_def Let_def st)
qed

text \<open>The disk after the first \<open>k\<close> writes of a commit, before and after the header is written.\<close>

lemma crash_before:
  assumes b: "batch_ok l d" and k: "k \<le> length (logged l)"
  shows "apply_writes (take k (commit_writes l c d)) d ! unat (lg_start l) = d ! unat (lg_start l)"
    "\<not> in_log l n \<Longrightarrow> apply_writes (take k (commit_writes l c d)) d ! n = d ! n"
proof -
  have e: "take k (commit_writes l c d) = take k (copy_writes l c)"
    using k by (simp add: commit_writes_def Let_def copy_writes_def)
  have sub: "fst ` set (take k (copy_writes l c)) \<subseteq> fst ` set (copy_writes l c)" by (intro image_mono set_take_subset)
  show "apply_writes (take k (commit_writes l c d)) d ! unat (lg_start l) = d ! unat (lg_start l)"
    unfolding e using copy_writes_start sub by (blast intro: apply_writes_other)
  show "apply_writes (take k (commit_writes l c d)) d ! n = d ! n" if "\<not> in_log l n"
    unfolding e using copy_writes_in_log [OF b] that sub by (blast intro: apply_writes_other)
qed

lemma apply_home_writes:
  assumes c: "\<And>b. b \<notin> set (logged l) \<Longrightarrow> c b = d ! unat b" and "unat b < length d"
    "d' ! unat b = c b \<or> d' ! unat b = d ! unat b" "length d' = length d"
  shows "apply_writes (home_writes l c) d' ! unat b = c b"
proof -
  have "unat b \<in> fst ` set (home_writes l c) \<longleftrightarrow> b \<in> set (logged l)" by (auto simp: home_writes_def image_image word_unat_eq_iff [symmetric])
  moreover have "\<forall>w \<in> set (home_writes l c). snd w = c (word_of_nat (fst w))" by (auto simp: home_writes_def)
  ultimately have "apply_writes (home_writes l c) d' ! unat b = (if b \<in> set (logged l) then c b else d' ! unat b)"
    using apply_writes_const [of "home_writes l c" "\<lambda>n. c (word_of_nat n)" "unat b" d'] assms(2,4) by simp
  then show ?thesis using c [of b] assms(3) by (cases "b \<in> set (logged l)") simp_all
qed

text \<open>The disk once the header is written and some of the blocks are installed.\<close>

definition installing :: "log \<Rightarrow> (u32 \<Rightarrow> block) \<Rightarrow> block list \<Rightarrow> nat \<Rightarrow> block list" where
  "installing l c d m = apply_writes (take m (home_writes l c))
     (apply_writes (copy_writes l c @ [(unat (lg_start l), head_block l (d ! unat (lg_start l)))]) d)"

lemma length_installing [simp]: "length (installing l c d m) = length d"
  by (simp add: installing_def)

lemma installing_in_log:
  assumes b: "batch_ok l d" and n: "in_log l n"
  shows "installing l c d m ! n = (apply_writes (copy_writes l c) d)[unat (lg_start l) := head_block l (d ! unat (lg_start l))] ! n"
proof -
  have "n \<notin> fst ` set (home_writes l c)" using home_writes_not_in_log [OF b] n by blast
  then have "n \<notin> fst ` set (take m (home_writes l c))" using set_take_subset by fastforce
  then show ?thesis by (simp add: installing_def apply_writes_other)
qed

lemma installing_log:
  assumes b: "batch_ok l d"
  shows "installing l c d m ! unat (lg_start l) = head_block l (d ! unat (lg_start l))"
    "i < length (logged l) \<Longrightarrow> installing l c d m ! (unat (lg_start l) + Suc i) = c (logged l ! i)"
  using installing_in_log [OF b log_okD(4) [OF batch_okD(1) [OF b]]] installing_in_log [OF b in_log_block [OF _ b]]
    log_okD(3) [OF batch_okD(1) [OF b]] apply_copy_writes [OF _ b, of i c] by simp_all

lemma installing_home:
  assumes b: "batch_ok l d" and x: "unat x < length d" "\<not> in_log l (unat x)"
  shows "installing l c d m ! unat x = c x \<or> installing l c d m ! unat x = d ! unat x"
proof -
  have "unat x \<notin> fst ` set (copy_writes l c)" using copy_writes_in_log [OF b] x(2) by blast
  then have "apply_writes (copy_writes l c @ [(unat (lg_start l), head_block l (d ! unat (lg_start l)))]) d ! unat x = d ! unat x"
    using not_start [OF batch_okD(1) [OF b] x(2)] by (simp add: apply_writes_other)
  moreover have "\<forall>w \<in> set (take m (home_writes l c)). snd w = c (word_of_nat (fst w))"
    by (auto simp: home_writes_def take_map)
  ultimately show ?thesis using x(1) unfolding installing_def
    by (subst (1 2) apply_writes_const [where f = "\<lambda>n. c (word_of_nat n)"]) auto
qed

lemma installed_home:
  assumes b: "batch_ok l d" and x: "unat x < length d" "\<not> in_log l (unat x)" and c: "\<And>b. b \<notin> set (logged l) \<Longrightarrow> c b = d ! unat b"
    and m: "length (logged l) \<le> m"
  shows "installing l c d m ! unat x = c x"
proof -
  have "installing l c d m = apply_writes (home_writes l c) (installing l c d 0)" using m by (simp add: installing_def home_writes_def)
  then show ?thesis using apply_home_writes [OF c x(1), where d' = "installing l c d 0"] installing_home [OF b x] by simp
qed

lemma commit_image:
  assumes b: "batch_ok l d" and x: "unat x < length d" "\<not> in_log l (unat x)" and c: "\<And>b. b \<notin> set (logged l) \<Longrightarrow> c b = d ! unat b"
  shows "apply_writes (commit_writes l c d) d ! unat x = c x"
proof -
  have "apply_writes (commit_writes l c d) d = (installing l c d (length (logged l)))
      [unat (lg_start l) := put32 0 0 (head_block l (d ! unat (lg_start l)))]"
    by (simp add: commit_writes_def installing_def Let_def home_writes_def)
  then show ?thesis using installed_home [OF b x c order_refl] not_start [OF batch_okD(1) [OF b] x(2)] by simp
qed

lemma take_commit_writes:
  assumes "length (logged l) < k"
  shows "apply_writes (take k (commit_writes l c d)) d =
    (let e = installing l c d (k - Suc (length (logged l))) in
     if k \<le> Suc (2 * length (logged l)) then e else e[unat (lg_start l) := put32 0 0 (head_block l (d ! unat (lg_start l)))])"
  using assms by (auto simp: commit_writes_def Let_def take_Cons' copy_writes_def home_writes_def installing_def)

lemma crash_after:
  assumes b: "batch_ok l d" and pl: "same_place l l'" and c: "\<And>b. b \<notin> set (logged l) \<Longrightarrow> c b = d ! unat b"
    and len: "BSIZE \<le> length (d ! unat (lg_start l))" and k: "length (logged l) < k"
    and d': "d' = apply_writes (take k (commit_writes l c d)) d"
  shows "batch_ok (head_load (d' ! unat (lg_start l')) l') d'"
    "unat x < length d \<Longrightarrow> \<not> in_log l (unat x) \<Longrightarrow> recovered l' d' ! unat x = c x"
proof -
  let ?e = "installing l c d (k - Suc (length (logged l)))" and ?st = "unat (lg_start l)"
  note rt = head_block_round_trip [OF b len] and g = batch_okD(1) [OF b]
  have st: "lg_start l' = lg_start l" using pl by (simp add: same_place_def)
  have "batch_ok (head_load (d' ! unat (lg_start l')) l') d' \<and>
    (unat x < length d \<longrightarrow> \<not> in_log l (unat x) \<longrightarrow> recovered l' d' ! unat x = c x)"
  proof (cases "k \<le> Suc (2 * length (logged l))")
    case True
    then have e: "d' = ?e" using take_commit_writes [OF k, of c d] d' by simp
    have h: "head_count (d' ! ?st) = lh_n l" "head_list (d' ! ?st) = logged l" using rt installing_log(1) [OF b] e by simp_all
    have cc: "d' ! (?st + Suc i) = c (logged l ! i)" if "i < length (logged l)" for i using installing_log(2) [OF b that] e by simp
    have len': "length d' = length d" using e by simp
    note r = recovered_full [OF b pl len' h, of c, OF cc]
    have "recovered l' d' ! unat x = c x" if x: "unat x < length d" "\<not> in_log l (unat x)"
      using r(2) [OF _ x] apply_home_writes [OF c x(1) _ len'] installing_home [OF b x] e by simp
    then show ?thesis using r(1) by simp
  next
    case False
    then have e: "d' = ?e[?st := put32 0 0 (head_block l (d ! ?st))]" using take_commit_writes [OF k, of c d] d' by (simp add: Let_def)
    have z: "head_count (d' ! unat (lg_start l')) = 0"
      using log_okD(3) [OF g] len head_count_clear [of "head_block l (d ! ?st)"] by (simp add: e st head_block_def BSIZE_def)
    have g': "log_ok l' d'" using g same_place_in_log(2) [OF pl] e by (simp add: log_ok_def)
    have "?e ! unat x = c x" if "unat x < length d" "\<not> in_log l (unat x)"
      using installed_home [OF b that c] False by simp
    then have "d' ! unat x = c x" if "unat x < length d" "\<not> in_log l (unat x)" using that not_start [OF g that(2)] e by simp
    then show ?thesis using recovered_empty(1) [OF g' z] recovered_empty(2) [OF g' z, of "unat x"] same_place_in_log(1) [OF pl] by simp
  qed
  then show "batch_ok (head_load (d' ! unat (lg_start l')) l') d'"
    "unat x < length d \<Longrightarrow> \<not> in_log l (unat x) \<Longrightarrow> recovered l' d' ! unat x = c x" by blast+
qed

section \<open>Atomic commit\<close>

text \<open>A machine that has just booted: an empty cache and the same log area.\<close>

definition rebooted :: "nat \<Rightarrow> nat \<Rightarrow> log \<Rightarrow> 'e lkst_scheme \<Rightarrow> bool" where
  "rebooted a me l r \<longleftrightarrow> cache_ok a me {} r \<and> pend r = Map.empty \<and> same_place l (klog r)"

lemma recover_recovered:
  assumes "rebooted a me l r" "batch_ok (head_load (disk r ! unat (lg_start (klog r))) (klog r)) (disk r)"
  shows "\<exists>u. recover_from_log a r = Ok () u \<and> disk u = recovered (klog r) (disk r) \<and> wtrace u = wtrace r @ recovery_writes (klog r) (disk r)"
  using recover_did [of a me r] assms by (auto simp: rebooted_def did_def recovered_def)

lemma drained_content: "drained s \<Longrightarrow> b \<notin> set (logged (klog s)) \<Longrightarrow> content s b = disk s ! unat b"
  by (auto simp: drained_def content_def split: option.split)

lemma recovered_head:
  assumes "log_ok l d" "batch_ok (head_load (d ! unat (lg_start l)) l) d" "BSIZE \<le> length (d ! unat (lg_start l))"
  shows "head_count (recovered l d ! unat (lg_start l)) = 0"
  using log_okD(3) [OF assms(1)] assms(3) by (simp add: recovered_def recovery_writes_def Let_def head_count_clear BSIZE_def)

lemma commit_crash_image:
  assumes b: "batch_ok l d" and pl: "same_place l l'" and c: "\<And>b. b \<notin> set (logged l) \<Longrightarrow> c b = d ! unat b"
    and h: "head_count (d ! unat (lg_start l)) = 0" "BSIZE \<le> length (d ! unat (lg_start l))"
    and d': "d' = apply_writes (take k (if 0 < lh_n l then commit_writes l c d else [])) d"
  shows "batch_ok (head_load (d' ! unat (lg_start l')) l') d' \<and> (\<forall>x. unat x < length d \<and> \<not> in_log l (unat x) \<longrightarrow>
      recovered l' d' ! unat x = (if k \<le> length (logged l) then d ! unat x else c x))"
proof (cases "0 < lh_n l \<and> length (logged l) < k")
  case True
  then have "d' = apply_writes (take k (commit_writes l c d)) d" using d' by simp
  from crash_after [OF b pl c h(2) _ this] True show ?thesis by auto
next
  case False
  have st: "lg_start l' = lg_start l" using pl by (simp add: same_place_def)
  have e: "d' ! unat (lg_start l) = d ! unat (lg_start l)" "d' ! n = d ! n" if "\<not> in_log l n" for n
    using d' False crash_before(1) [OF b, of k c] crash_before(2) [OF b _ that, of k c] by (auto split: if_splits)
  have "length d' = length d" using d' by simp
  then have g: "log_ok l' d'" using batch_okD(1) [OF b] same_place_in_log(2) [OF pl] by (simp add: log_ok_def)
  have "logged l = []" if "\<not> 0 < lh_n l" using that batch_okD(2) [OF b] by simp
  then have "c x = d ! unat x" if "\<not> 0 < lh_n l" for x using that c [of x] by simp
  moreover have "head_count (d' ! unat (lg_start l')) = 0" using e h(1) st crash_before(1) [OF b, of k c] d' False by (auto split: if_splits)
  ultimately show ?thesis using recovered_empty [OF g] e(2) same_place_in_log(1) [OF pl] False by auto
qed

text \<open>
  C2. A commit is atomic with respect to crashes. From a transaction of distinct blocks outside the log, all of them
  pending in the cache and nothing else, with an empty header on disk, commit succeeds and writes a sequence of blocks.
  If the machine stops after any number of these writes and recovers, recovery succeeds, and every block outside the
  log has its old contents if the header had not been written and its new contents otherwise.
\<close>

theorem commit_crash_safe:
  assumes ok: "cache_ok a me {} s" and b: "batch_ok (klog s) (disk s)" and dr: "drained s"
    and h: "head_count (disk s ! unat (lg_start (klog s))) = 0" "BSIZE \<le> length (disk s ! unat (lg_start (klog s)))"
  shows "\<exists>t ws. commit a s = Ok () t \<and> wtrace t = wtrace s @ ws \<and> disk t = apply_writes ws (disk s) \<and>
    (\<forall>k r. rebooted a me (klog s) r \<and> disk r = apply_writes (take k ws) (disk s) \<longrightarrow>
      (\<exists>u. recover_from_log a r = Ok () u \<and>
        (\<forall>x. unat x < length (disk s) \<and> \<not> in_log (klog s) (unat x) \<longrightarrow>
           disk u ! unat x = (if k \<le> length (logged (klog s)) then disk s ! unat x else content s x))))"
proof -
  let ?l = "klog s" and ?d = "disk s"
  let ?ws = "if 0 < lh_n ?l then commit_writes ?l (content s) ?d else []"
  obtain t where t: "commit a s = Ok () t" "wtrace t = wtrace s @ ?ws" "disk t = apply_writes ?ws ?d"
    using commit_did [OF ok b dr] by (cases "0 < lh_n ?l") (auto simp: did_def commit_def)
  have "\<exists>u. recover_from_log a r = Ok () u \<and> (\<forall>x. unat x < length ?d \<and> \<not> in_log ?l (unat x) \<longrightarrow>
      disk u ! unat x = (if k \<le> length (logged ?l) then ?d ! unat x else content s x))"
    if r: "rebooted a me ?l r" "disk r = apply_writes (take k ?ws) ?d" for k r
  proof -
    have "same_place ?l (klog r)" using r(1) by (simp add: rebooted_def)
    from commit_crash_image [OF b this drained_content [OF dr] h r(2)] show ?thesis
      using recover_recovered [OF r(1)] by auto
  qed
  then show ?thesis using t by (intro exI [of _ t] exI [of _ ?ws]) blast
qed

section \<open>Crashes during recovery\<close>

lemma apply_writes_in:
  "n \<in> fst ` set ws \<Longrightarrow> n < length d \<Longrightarrow> length d = length d' \<Longrightarrow> apply_writes ws d ! n = apply_writes ws d' ! n"
proof (induction ws rule: rev_induct)
  case (snoc w ws)
  then show ?case by (cases "n = fst w") auto
qed simp

lemma apply_writes_again:
  assumes "fst ` set xs \<subseteq> fst ` set ws"
  shows "apply_writes ws (apply_writes xs d) = apply_writes ws d"
proof (rule nth_equalityI)
  fix n assume n: "n < length (apply_writes ws (apply_writes xs d))"
  show "apply_writes ws (apply_writes xs d) ! n = apply_writes ws d ! n"
  proof (cases "n \<in> fst ` set ws")
    case True
    show ?thesis by (rule apply_writes_in [OF True]) (use n in simp_all)
  next
    case False
    then have "n \<notin> fst ` set xs" using assms by blast
    with False show ?thesis by (simp add: apply_writes_other)
  qed
qed simp

lemma logged_load: "logged (head_load x l) = head_list x"
  by (simp add: logged_def head_load_def head_list_def)

lemma batch_ok_load: "same_place l l' \<Longrightarrow> batch_ok (head_load x l) d \<Longrightarrow> batch_ok (head_load x l') d"
  unfolding batch_ok_def logged_load head_load_place
  by (simp add: head_load_def head_list_def same_place_def log_ok_def in_log_def)

lemma recovery_writes_place: "same_place l l' \<Longrightarrow> recovery_writes l' d = recovery_writes l d"
  by (simp add: recovery_writes_def install_writes_def logged_load same_place_def Let_def)

lemma recovered_place: "same_place l l' \<Longrightarrow> recovered l' d = recovered l d"
  by (simp add: recovered_def recovery_writes_place)

lemma recovery_crash_image:
  assumes b: "batch_ok (head_load (d ! unat (lg_start l)) l) d" and len: "BSIZE \<le> length (d ! unat (lg_start l))"
    and d': "d' = apply_writes (take k (recovery_writes l d)) d"
  shows "batch_ok (head_load (d' ! unat (lg_start l)) l) d' \<and> (\<forall>n. \<not> in_log l n \<longrightarrow> recovered l d' ! n = recovered l d ! n)"
proof -
  let ?st = "unat (lg_start l)" and ?l = "head_load (d ! unat (lg_start l)) l"
  let ?I = "install_writes ?l d"
  have g: "log_ok l d" using batch_okD(1) [OF b] by simp
  have w: "recovery_writes l d = ?I @ [(?st, put32 0 0 (d ! ?st))]" by (simp add: recovery_writes_def Let_def)
  have l': "length d' = length d" using d' by simp
  show ?thesis
  proof (cases "k \<le> length ?I")
    case True
    then have d': "d' = apply_writes (take k ?I) d" using d' w by simp
    have sub: "fst ` set (take k ?I) \<subseteq> fst ` set ?I" by (intro image_mono set_take_subset)
    have same: "d' ! n = d ! n" if "in_log l n" for n
    proof -
      have "n \<notin> fst ` set (take k ?I)" using that install_writes_not_in_log [OF b, unfolded head_load_place] sub by blast
      then show ?thesis by (simp add: d' apply_writes_other)
    qed
    have hd: "d' ! ?st = d ! ?st" using same log_okD(4) [OF g] by simp
    have "d' ! (?st + Suc i) = d ! (?st + Suc i)" if "i < length (logged ?l)" for i
      using same in_log_block [OF that b] by simp
    then have "recovery_writes l d' = recovery_writes l d"
      by (simp add: recovery_writes_def Let_def hd install_writes_def)
    moreover have "apply_writes (recovery_writes l d) d' = apply_writes (recovery_writes l d) d"
      unfolding d' by (rule apply_writes_again) (use sub in \<open>auto simp: w\<close>)
    ultimately show ?thesis using batch_ok_length [OF b l'] hd by (simp add: recovered_def)
  next
    case False
    then have d': "d' = recovered l d" using d' w by (simp add: recovered_def)
    have "head_count (d' ! ?st) = 0" unfolding d' by (rule recovered_head [OF g b len])
    moreover have "log_ok l d'" using g l' by (simp add: log_ok_def)
    ultimately show ?thesis using recovered_empty [of l d'] d' by simp
  qed
qed

text \<open>
  C7. Recovery can be restarted. If the machine stops after any number of the writes of a recovery and recovers again,
  every block outside the log ends as the first recovery would have left it.
\<close>

theorem recovery_restarts:
  assumes r: "rebooted a me l r" and b: "batch_ok (head_load (disk r ! unat (lg_start l)) l) (disk r)"
    and len: "BSIZE \<le> length (disk r ! unat (lg_start l))"
  shows "\<exists>t ws. recover_from_log a r = Ok () t \<and> wtrace t = wtrace r @ ws \<and>
    (\<forall>k r'. rebooted a me l r' \<and> disk r' = apply_writes (take k ws) (disk r) \<longrightarrow>
      (\<exists>u. recover_from_log a r' = Ok () u \<and> (\<forall>n. \<not> in_log l n \<longrightarrow> disk u ! n = disk t ! n)))"
proof -
  have pl: "same_place l (klog r)" "lg_start (klog r) = lg_start l" using r by (simp_all add: rebooted_def same_place_def)
  obtain t where t: "recover_from_log a r = Ok () t" "disk t = recovered l (disk r)" "wtrace t = wtrace r @ recovery_writes l (disk r)"
    using recover_recovered [OF r] batch_ok_load [OF pl(1) b] pl recovery_writes_place recovered_place by fastforce
  have "\<exists>u. recover_from_log a r' = Ok () u \<and> (\<forall>n. \<not> in_log l n \<longrightarrow> disk u ! n = disk t ! n)"
    if r': "rebooted a me l r'" "disk r' = apply_writes (take k (recovery_writes l (disk r))) (disk r)" for k r'
  proof -
    have p: "same_place l (klog r')" "lg_start (klog r') = lg_start l" using r' by (simp_all add: rebooted_def same_place_def)
    note i = recovery_crash_image [OF b len r'(2)]
    then show ?thesis using recover_recovered [OF r'(1)] batch_ok_load [OF p(1)] recovered_place [OF p(1)] t(2) p(2) by auto
  qed
  then show ?thesis using t by blast
qed

section \<open>A transaction of one block\<close>

text \<open>
  A disk of six blocks with the log in blocks 1 and 2, and a cache whose first buffer holds new data for block 4, which
  the transaction has logged. The state after a crash has an empty cache.
\<close>

definition empty_buf :: buf where
  "empty_buf = \<lparr>b_valid = False, b_dirty = False, b_dev = 0, b_blockno = 0, b_refcnt = 0, b_data = []\<rparr>"

definition with_disk :: "block list \<Rightarrow> buf list \<Rightarrow> u32 list \<Rightarrow> ikst" where
  "with_disk d bs l = (sample (Some 0) [a_proc 1 RUNNING 2 1])
     \<lparr>disk := d, bufs := bs @ replicate (NBUF - length bs) empty_buf, lru := [0..<NBUF],
      klog := \<lparr>lg_start = 1, lg_size = 2, lg_outstanding = 0, lg_committing = True, lg_dev = 1, lh_n = int (length l), lh_block = l\<rparr>\<rparr>"

definition small_disk :: "block list" where "small_disk = replicate 6 (replicate BSIZE 0)"

definition new_data :: buf where
  "new_data = \<lparr>b_valid = True, b_dirty = True, b_dev = 1, b_blockno = 4, b_refcnt = 0, b_data = replicate BSIZE 7\<rparr>"

lemma with_disk_cache:
  assumes "bs \<in> {[], [new_data]}" "4 < length d"
  shows "cache_ok 0 0 {} (with_disk d bs l)"
proof -
  have n: "(bs @ replicate (NBUF - length bs) empty_buf) ! i = (if i < length bs then new_data else empty_buf)" if "i < NBUF" for i
    using that assms(1) by (auto simp: nth_append)
  have "calm 0 0 (with_disk d bs l)"
    by (auto simp: calm_def with_disk_def table_nth)
  moreover have "held_by 0 {} (with_disk d bs l)"
    by (simp add: held_by_def with_disk_def n) (simp add: sample_def new_data_def empty_buf_def)
  moreover have "bufs_ok (bufs (with_disk d bs l)) d"
  proof -
    have "length bs \<le> 1" "length (bs @ replicate (NBUF - length bs) empty_buf) = NBUF" using assms(1) by (auto simp: NBUF_def)
    then show ?thesis using assms(2) unfolding bufs_ok_def
      by (simp add: with_disk_def n) (auto simp: new_data_def empty_buf_def)
  qed
  ultimately show ?thesis by (simp add: cache_ok_def) (simp add: with_disk_def)
qed

lemma with_disk_pend:
  "pend (with_disk d [] l) = Map.empty" "pend (with_disk d [new_data] l) = [4 \<mapsto> replicate BSIZE 7]"
proof -
  have "find (\<lambda>i. b_dirty (bf i (with_disk d [] l)) \<and> b_blockno (bf i (with_disk d [] l)) = b) [0..<NBUF] = None" for b
    by (auto simp: find_None_iff with_disk_def empty_buf_def)
  then show "pend (with_disk d [] l) = Map.empty" by (simp add: pend_def fun_eq_iff)
  have n: "bf 0 (with_disk d [new_data] l) = new_data" "i \<in> {1..<NBUF} \<Longrightarrow> bf i (with_disk d [new_data] l) = empty_buf" for i
    by (auto simp: with_disk_def nth_Cons' NBUF_def)
  have u: "[0..<NBUF] = 0 # [1..<NBUF]" by (simp add: NBUF_def upt_rec)
  have "find (\<lambda>i. b_dirty (bf i (with_disk d [new_data] l)) \<and> b_blockno (bf i (with_disk d [new_data] l)) = b) [1..<NBUF] = None" for b
    using n(2) by (auto simp: find_None_iff empty_buf_def)
  then have "find (\<lambda>i. b_dirty (bf i (with_disk d [new_data] l)) \<and> b_blockno (bf i (with_disk d [new_data] l)) = b) [0..<NBUF] =
      (if b = 4 then Some 0 else None)" for b
    unfolding u by (simp add: n(1)) (simp add: new_data_def)
  then show "pend (with_disk d [new_data] l) = [4 \<mapsto> replicate BSIZE 7]" using n(1) by (auto simp: pend_def fun_eq_iff new_data_def)
qed

lemma with_disk_fields: "disk (with_disk d bs l) = d" "wtrace (with_disk d bs l) = []"
  "klog (with_disk d bs l) = \<lparr>lg_start = 1, lg_size = 2, lg_outstanding = 0, lg_committing = True, lg_dev = 1, lh_n = int (length l), lh_block = l\<rparr>"
  by (simp_all add: with_disk_def) (simp add: sample_def)

lemma rebooted_sample: "length d = 6 \<Longrightarrow> rebooted 0 0 (klog (with_disk d' bs l)) (with_disk d [] l')"
  by (simp add: rebooted_def with_disk_cache with_disk_pend same_place_def with_disk_fields)

lemma zero_head: "head_count (replicate BSIZE 0) = 0"
  by (simp add: head_count_def get32_def BSIZE_def)

theorem commit_crash_safe_witness:
  "\<exists>t ws. commit 0 (with_disk small_disk [new_data] [4]) = Ok () t \<and> wtrace t = ws \<and>
     (\<forall>k. \<exists>u. recover_from_log 0 (with_disk (apply_writes (take k ws) small_disk) [] []) = Ok () u \<and>
        disk u ! 4 = (if k \<le> 1 then replicate BSIZE 0 else replicate BSIZE 7))"
proof -
  let ?s = "with_disk small_disk [new_data] [4]"
  note f = with_disk_fields
  have ok: "cache_ok 0 0 {} ?s" by (rule with_disk_cache) (simp_all add: small_disk_def)
  have b: "batch_ok (klog ?s) (disk ?s)" by (simp add: batch_ok_def f log_ok_def logged_def in_log_def small_disk_def LOGSIZE_def)
  have dr: "drained ?s" by (simp add: drained_def with_disk_pend f logged_def)
  have h: "head_count (disk ?s ! unat (lg_start (klog ?s))) = 0" "BSIZE \<le> length (disk ?s ! unat (lg_start (klog ?s)))"
    by (simp_all add: f small_disk_def zero_head)
  have e: "disk ?s = small_disk" "wtrace ?s = []" "length (logged (klog ?s)) = 1" "length small_disk = 6"
    by (simp_all add: f logged_def small_disk_def)
  have c: "content ?s 4 = replicate BSIZE 7" by (simp add: content_def with_disk_pend)
  obtain t ws where t: "commit 0 ?s = Ok () t" "wtrace t = [] @ ws" and cr: "\<forall>k (r :: ikst). rebooted 0 0 (klog ?s) r \<and>
      disk r = apply_writes (take k ws) small_disk \<longrightarrow> (\<exists>u. recover_from_log 0 r = Ok () u \<and>
        (\<forall>x. unat x < 6 \<and> \<not> in_log (klog ?s) (unat x) \<longrightarrow> disk u ! unat x = (if k \<le> 1 then small_disk ! unat x else content ?s x)))"
    using commit_crash_safe [OF ok b dr h] unfolding e by blast
  have "\<exists>u. recover_from_log 0 (with_disk (apply_writes (take k ws) small_disk) [] []) = Ok () u \<and>
        disk u ! 4 = (if k \<le> 1 then replicate BSIZE 0 else replicate BSIZE 7)" for k
  proof -
    have "rebooted 0 0 (klog ?s) (with_disk (apply_writes (take k ws) small_disk) [] [])" by (rule rebooted_sample) (simp add: e)
    from cr [rule_format, OF conjI [OF this f(1)]] obtain u where "recover_from_log 0 (with_disk (apply_writes (take k ws) small_disk) [] []) = Ok () u"
        "\<forall>x. unat x < 6 \<and> \<not> in_log (klog ?s) (unat x) \<longrightarrow> disk u ! unat x = (if k \<le> 1 then small_disk ! unat x else content ?s x)"
      by blast
    then show ?thesis using c by (auto simp: f in_log_def small_disk_def dest!: spec [of _ "4 :: u32"])
  qed
  then show ?thesis using t by auto
qed

theorem recovery_restarts_witness:
  "\<exists>t ws. recover_from_log 0 (with_disk small_disk [] []) = Ok () t \<and> wtrace t = ws \<and>
     (\<forall>k. \<exists>u. recover_from_log 0 (with_disk (apply_writes (take k ws) small_disk) [] []) = Ok () u \<and> disk u ! 4 = disk t ! 4)"
proof -
  let ?s = "with_disk small_disk [] []" and ?l = "klog (with_disk small_disk [] [])"
  note f = with_disk_fields
  have r: "rebooted 0 0 ?l ?s" by (rule rebooted_sample) (simp add: small_disk_def)
  have e: "disk ?s ! unat (lg_start ?l) = replicate BSIZE 0" by (simp add: f small_disk_def)
  have b: "batch_ok (head_load (disk ?s ! unat (lg_start ?l)) ?l) (disk ?s)"
    by (rule recovered_empty(1)) (simp_all add: e zero_head, simp add: log_ok_def f small_disk_def)
  have len: "BSIZE \<le> length (disk ?s ! unat (lg_start ?l))" by (simp add: e)
  obtain t ws where t: "recover_from_log 0 ?s = Ok () t" "wtrace t = wtrace ?s @ ws" and cr: "\<forall>k (r' :: ikst). rebooted 0 0 ?l r' \<and>
      disk r' = apply_writes (take k ws) (disk ?s) \<longrightarrow> (\<exists>u. recover_from_log 0 r' = Ok () u \<and> (\<forall>n. \<not> in_log ?l n \<longrightarrow> disk u ! n = disk t ! n))"
    using recovery_restarts [OF r b len] by blast
  have "\<exists>u. recover_from_log 0 (with_disk (apply_writes (take k ws) small_disk) [] []) = Ok () u \<and> disk u ! 4 = disk t ! 4" for k
  proof -
    have "rebooted 0 0 ?l (with_disk (apply_writes (take k ws) small_disk) [] [])" by (rule rebooted_sample) (simp add: small_disk_def)
    moreover have "disk (with_disk (apply_writes (take k ws) small_disk) [] []) = apply_writes (take k ws) (disk ?s)" by (simp add: f)
    moreover have "\<not> in_log ?l 4" by (simp add: f in_log_def)
    ultimately show ?thesis using cr by blast
  qed
  then show ?thesis using t by (auto simp: f)
qed

end
