(* ===== verification/Log_Ops.thy ===== *)
theory Log_Ops
  imports Log_Crash
begin

text \<open>
  Transactions as the file system sees them, \<^verbatim>\<open>src/log.c\<close>: \<open>begin_op\<close> reserves space, \<open>log_write\<close> records a
  changed block and pins its buffer, \<open>end_op\<close> commits with the last operation. The theory connects these
  operations with the hypotheses of the crash theorem: what \<open>log_write\<close> builds is a transaction that
  \<open>commit\<close> writes atomically.
\<close>

section \<open>Marking a buffer dirty\<close>

definition marked :: "nat \<Rightarrow> block \<Rightarrow> 'e bkst_scheme \<Rightarrow> 'e bkst_scheme" where
  "marked i d s = upd_buf i (\<lambda>x. x\<lparr>b_data := d, b_dirty := True\<rparr>) s"

lemma marked_fields [simp]:
  "disk (marked i d s) = disk s" "wtrace (marked i d s) = wtrace s" "bkst.more (marked i d s) = bkst.more s"
  "mach (marked i d s) = mach s" "ptab (marked i d s) = ptab s" "lru (marked i d s) = lru s"
  "slocks (marked i d s) = slocks s" "length (bufs (marked i d s)) = length (bufs s)"
  by (simp_all add: marked_def)

lemma marked_nth:
  "j < length (bufs s) \<Longrightarrow> bf j (marked i d s) = (if j = i then (bf i s)\<lparr>b_data := d, b_dirty := True\<rparr> else bf j s)"
  by (simp add: marked_def nth_upd)

lemma marked_ok:
  assumes ok: "cache_ok a me H s" and i: "i \<in> H"
  shows "cache_ok a me H (marked i d s)"
proof -
  note c = cache_okD [OF ok] and h = held_buffer [OF ok i]
  note e = marked_nth [of _ s i d, unfolded c(6)]
  have "bufs_ok (bufs (marked i d s)) (disk s)"
    unfolding bufs_ok_def
  proof (intro conjI allI impI)
    show "length (bufs (marked i d s)) = NBUF" using c(6) by simp
    {
      fix j assume j: "j < NBUF"
      show "b_dirty (bf j (marked i d s)) \<Longrightarrow> b_valid (bf j (marked i d s))"
        "b_valid (bf j (marked i d s)) \<Longrightarrow> b_dev (bf j (marked i d s)) = 1"
        "b_dev (bf j (marked i d s)) = 1 \<Longrightarrow> unat (b_blockno (bf j (marked i d s))) < length (disk s)"
        "b_valid (bf j (marked i d s)) \<and> \<not> b_dirty (bf j (marked i d s)) \<Longrightarrow>
          b_data (bf j (marked i d s)) = disk s ! unat (b_blockno (bf j (marked i d s)))"
        using bufs_okD(1-4) [OF c(5) j] h(2-4) by (simp_all add: e [OF j] split: if_splits)
    }
    fix j k assume jk: "j < NBUF" "k < NBUF" "b_dev (bf j (marked i d s)) = 1 \<and> b_dev (bf k (marked i d s)) = 1 \<and>
        b_blockno (bf j (marked i d s)) = b_blockno (bf k (marked i d s))"
    have "b_dev (bf j s) = 1 \<and> b_dev (bf k s) = 1 \<and> b_blockno (bf j s) = b_blockno (bf k s)"
      using jk(3) h(3) unfolding e [OF jk(1)] e [OF jk(2)] by (cases "j = i"; cases "k = i") simp_all
    then show "j = k" using bufs_okD(5) [OF c(5) jk(1,2)] by blast
  qed
  moreover have "H \<subseteq> {0..<NBUF}" using c(4) by (simp add: held_by_def)
  then have "held_by me H (marked i d s)" using c(4) unfolding held_by_def by (auto simp: e subset_iff)
  ultimately show ?thesis using c(1-3) by (simp add: cache_ok_def calm_def)
qed

lemma marked_pend:
  assumes ok: "cache_ok a me H s" and i: "i \<in> H"
  shows "pend (marked i d s) = (pend s)(b_blockno (bf i s) \<mapsto> d)"
proof
  fix b
  note c = cache_okD [OF ok] and h = held_buffer [OF ok i]
  note e = marked_nth [of _ s i d, unfolded c(6)]
  show "pend (marked i d s) b = ((pend s)(b_blockno (bf i s) \<mapsto> d)) b"
  proof (cases "b = b_blockno (bf i s)")
    case True
    have "pend (marked i d s) (b_blockno (bf i (marked i d s))) = Some (b_data (bf i (marked i d s)))"
      by (rule pend_Some [OF cache_okD(5) [OF marked_ok [OF ok i]] h(1)]) (simp add: e [OF h(1)])
    then show ?thesis using True by (simp add: e [OF h(1)])
  next
    case False
    have f: "find (\<lambda>j. b_dirty (bf j (marked i d s)) \<and> b_blockno (bf j (marked i d s)) = b) [0..<NBUF] =
        find (\<lambda>j. b_dirty (bf j s) \<and> b_blockno (bf j s) = b) [0..<NBUF]"
      using False by (intro find_cong) (auto simp: e split: if_splits)
    show ?thesis
    proof (cases "find (\<lambda>j. b_dirty (bf j s) \<and> b_blockno (bf j s) = b) [0..<NBUF]")
      case (Some j)
      then have "j < NBUF" "j \<noteq> i" using find_SomeD [OF Some] False by auto
      then show ?thesis using False Some by (simp add: pend_def f e)
    qed (use False in \<open>simp add: pend_def f\<close>)
  qed
qed

section \<open>Recording a block\<close>

definition record_block :: "u32 \<Rightarrow> log \<Rightarrow> log" where
  "record_block b l = (let i = absorb_index b l in
     l\<lparr>lh_block := (lh_block l)[i := b], lh_n := (if int i = lh_n l then lh_n l + 1 else lh_n l)\<rparr>)"

lemma record_block_place [simp]:
  "lg_start (record_block b l) = lg_start l" "lg_size (record_block b l) = lg_size l" "lg_dev (record_block b l) = lg_dev l"
  "length (lh_block (record_block b l)) = length (lh_block l)"
  by (simp_all add: record_block_def Let_def)

text \<open>A block that is in the transaction is absorbed; another one is appended.\<close>

lemma record_block_logged:
  assumes "0 \<le> lh_n l" "lh_n l < int (length (lh_block l))"
  shows "logged (record_block b l) = (if b \<in> set (logged l) then logged l else logged l @ [b])"
    "lh_n (record_block b l) = lh_n l + of_bool (b \<notin> set (logged l))"
proof -
  let ?n = "nat (lh_n l)"
  have len: "length (logged l) = ?n" using assms by (simp add: logged_def)
  have nth: "lh_block l ! i = logged l ! i" if "i < ?n" for i using that by (simp add: logged_def)
  have "logged (record_block b l) = (if b \<in> set (logged l) then logged l else logged l @ [b]) \<and>
      lh_n (record_block b l) = lh_n l + of_bool (b \<notin> set (logged l))"
  proof (cases "find (\<lambda>i. lh_block l ! i = b) [0..<?n]")
    case None
    then have "b \<notin> set (logged l)" using len nth by (auto simp: find_None_iff in_set_conv_nth)
    moreover have "absorb_index b l = ?n" using None by (simp add: absorb_index_def)
    ultimately show ?thesis using assms
      by (simp add: record_block_def Let_def logged_def nat_add_distrib take_Suc_conv_app_nth)
  next
    case (Some i)
    note i = find_SomeD [OF Some]
    then have "b \<in> set (logged l)" "lh_block l ! i = b" using len nth [of i] by (auto simp: in_set_conv_nth)
    moreover have "absorb_index b l = i" using Some by (simp add: absorb_index_def)
    moreover have "(lh_block l)[i := b] = lh_block l" using calculation(2) by (metis list_update_id)
    ultimately show ?thesis using i assms by (auto simp: record_block_def Let_def logged_def)
  qed
  then show "logged (record_block b l) = (if b \<in> set (logged l) then logged l else logged l @ [b])"
    "lh_n (record_block b l) = lh_n l + of_bool (b \<notin> set (logged l))" by simp_all
qed

lemma upd_log_mach: "upd_log f (s\<lparr>mach := m\<rparr>) = (upd_log f s)\<lparr>mach := m\<rparr>"
  by (simp add: upd_log_def)

lemma upd_buf_upd_log: "upd_buf i g (upd_log f s) = upd_log f (upd_buf i g s)"
  by (simp add: upd_buf_def upd_log_def)

lemma log_write_eq:
  assumes ok: "cache_ok a me H s" and i: "i \<in> H" and n: "lh_n (klog s) < LOGSIZE" "lh_n (klog s) < lg_size (klog s) - 1"
    and o: "1 \<le> lg_outstanding (klog s)"
  shows "log_write a i (set_data i d s) = Ok () (upd_log (record_block (b_blockno (bf i s))) (marked i d s))"
proof -
  note c = cache_okD [OF ok] and h = held_buffer [OF ok i]
  let ?t = "upd_log (record_block (b_blockno (bf i s))) (marked i d s)"
  have m: "upd_buf i (\<lambda>x. x\<lparr>b_dirty := True\<rparr>) (set_data i d s) = marked i d s"
    using h(1) c(6) by (simp add: upd_buf_def set_data_def marked_def)
  have k: "klog (set_data i d s) = klog s" "mach (set_data i d s) = mach s" "b_blockno (bf i (set_data i d s)) = b_blockno (bf i s)"
    using h(1) c(6) by (simp_all add: set_data_def upd_buf_def)
  have r: "upd_log (\<lambda>l. l\<lparr>lh_block := (lh_block l)[absorb_index b (klog s) := b],
      lh_n := (if int (absorb_index b (klog s)) = lh_n l then lh_n l + 1 else lh_n l)\<rparr>) (marked i d s) =
      upd_log (record_block b) (marked i d s)" for b
    by (simp add: record_block_def upd_log_def Let_def marked_def upd_buf_def)
  have "calm a me (set_data i d s)" "calm a me ?t"
    by (rule calm_cong [THEN iffD2, OF _ _ c(1)]; simp add: set_data_def upd_buf_def upd_log_def marked_def)+
  then show ?thesis using n o
    by (simp add: log_write_def k Let_def upd_log_mach upd_buf_mach upd_buf_upd_log m r calm_release_eq [of a me])
qed

text \<open>
  The state of an open transaction: the logged blocks are distinct blocks outside the log, and the pending blocks of
  the cache are exactly these.
\<close>

definition open_trans :: "'e lkst_scheme \<Rightarrow> bool" where
  "open_trans s \<longleftrightarrow> batch_ok (klog s) (disk s) \<and> distinct (logged (klog s)) \<and> dom (pend s) = set (logged (klog s)) \<and>
     lg_size (klog s) \<le> LOGSIZE \<and> length (lh_block (klog s)) = nat LOGSIZE"

lemma open_trans_drained: "open_trans s \<Longrightarrow> drained s" "open_trans s \<Longrightarrow> batch_ok (klog s) (disk s)"
  by (simp_all add: open_trans_def drained_def)

text \<open>
  C9. A process that holds a buffer, puts new data in it and calls \<^verbatim>\<open>log_write\<close> adds the block to the transaction, once.
  The block then reads as the new data, all other blocks as before, nothing is written to disk, and the
  transaction stays one that commits atomically. It panics exactly when the log is full.
\<close>

theorem log_write_records:
  assumes ok: "cache_ok a me H s" and i: "i \<in> H" and tr: "open_trans s" and o: "1 \<le> lg_outstanding (klog s)"
    and out: "\<not> in_log (klog s) (unat (b_blockno (bf i s)))"
  shows "if lh_n (klog s) \<ge> lg_size (klog s) - 1 then log_write a i (set_data i d s) = Panic ''too big a transaction''
    else \<exists>t. log_write a i (set_data i d s) = Ok () t \<and> cache_ok a me H t \<and> open_trans t \<and>
      set (logged (klog t)) = insert (b_blockno (bf i s)) (set (logged (klog s))) \<and>
      content t = (content s)(b_blockno (bf i s) := d) \<and> disk t = disk s \<and> wtrace t = wtrace s"
proof (cases "lh_n (klog s) \<ge> lg_size (klog s) - 1")
  case True
  then show ?thesis by (simp add: log_write_def set_data_def upd_buf_def)
next
  case False
  let ?b = "b_blockno (bf i s)"
  let ?t = "upd_log (record_block ?b) (marked i d s)"
  note t = tr [unfolded open_trans_def] and h = held_buffer [OF ok i]
  have b: "batch_ok (klog s) (disk s)" using t by simp
  have n: "0 \<le> lh_n (klog s)" "lh_n (klog s) < LOGSIZE" "lh_n (klog s) < lg_size (klog s) - 1" "lh_n (klog s) < int (length (lh_block (klog s)))"
    using t False by (auto simp: batch_ok_def LOGSIZE_def)
  note r = record_block_logged [OF n(1,4), of ?b]
  have k: "klog (marked i d s) = klog s" by (simp add: marked_def upd_buf_def)
  have s: "set (logged (klog ?t)) = insert ?b (set (logged (klog s)))" using r(1) k by auto
  have "batch_ok (klog ?t) (disk ?t)"
    using b n t h(4) out unfolding batch_ok_def s by (auto simp: k r(2) log_ok_def in_log_def)
  moreover have "distinct (logged (klog ?t))" using r(1) t k by auto
  moreover have "dom (pend ?t) = set (logged (klog ?t))" unfolding s using t by (simp add: marked_pend [OF ok i])
  ultimately have "open_trans ?t" using t k by (simp add: open_trans_def)
  moreover have "content ?t = (content s)(?b := d)"
    by (simp add: content_def fun_eq_iff marked_pend [OF ok i] cong: option.case_cong)
  ultimately show ?thesis using False log_write_eq [OF ok i n(2,3) o, of d] marked_ok [OF ok i, of d] s by simp
qed

section \<open>Beginning and ending an operation\<close>


lemma more_woken: "pkst.more (woken ch s) = pkst.more s"
proof -
  have "pkst.more (fold (wake_step ch) is s) = pkst.more s" for "is"
    by (induction "is" arbitrary: s)
      (simp_all add: wake_step_def runnable_at_def count_add_def upd_proc_def Let_def)
  then show ?thesis by (simp add: woken_def)
qed

lemma pkst_more_fields:
  "pkst.more t = pkst.more s \<Longrightarrow> slocks t = slocks s \<and> bufs t = bufs s \<and> lru t = lru s \<and> disk t = disk s \<and> wtrace t = wtrace s \<and> klog t = klog s"
  for s t :: "'e lkst_scheme"
  by (cases s; cases t) simp

lemma woken_log_fields [simp]:
  fixes s :: "'e lkst_scheme"
  shows "slocks (woken ch s) = slocks s" "bufs (woken ch s) = bufs s" "lru (woken ch s) = lru s" "disk (woken ch s) = disk s"
    "wtrace (woken ch s) = wtrace s" "klog (woken ch s) = klog s"
  using pkst_more_fields [OF more_woken, of ch s] by simp_all

lemma prc_woken: "sched_inv s \<Longrightarrow> i < NPROC \<Longrightarrow> prc i (woken ch s) = wake_proc (ticks s) ch (prc i s)"
  by (simp add: woken_ptab sched_inv_length)

lemma calm_woken: "calm a me s \<Longrightarrow> sched_inv s \<Longrightarrow> calm a me (woken ch s)"
  using prc_woken [of s] by (auto simp: calm_def wake_proc_def ready_fields_def)

lemma woken_cache_ok:
  fixes s :: "'e lkst_scheme"
  assumes "cache_ok a me H s" "sched_inv s" "me < NPROC"
  shows "cache_ok a me H (woken ch s)" "pend (woken ch s) = pend s"
proof -
  have "pid (prc me (woken ch s)) = pid (prc me s)" using assms(2,3) by (simp add: prc_woken wake_proc_def ready_fields_def)
  moreover have "calm a me (woken ch s)" using calm_woken [OF cache_okD(1) [OF assms(1)] assms(2)] .
  ultimately show "cache_ok a me H (woken ch s)" using assms(1) by (simp add: cache_ok_def held_by_def)
  show "pend (woken ch s) = pend s" by (simp add: pend_def fun_eq_iff)
qed

lemma truncate_sched_inv: "pkst.truncate t = pkst.truncate s \<Longrightarrow> sched_inv t = sched_inv s"
  by (cases s; cases t) (simp add: pkst.defs sched_inv_def counts_ok_def pids_ok_def)

lemma calm_wakeup_under:
  assumes "calm a me s" "l \<noteq> PtableLock" "l \<noteq> TicksLock" "l \<noteq> ConsLock" "l \<noteq> KmemLock"
  shows "wakeup a ch (s\<lparr>mach := acq a l (mach s)\<rparr>) = Ok () ((woken (Some ch) s)\<lparr>mach := acq a l (mach s)\<rparr>)"
proof -
  let ?s = "s\<lparr>mach := acq a l (mach s)\<rparr>"
  have "quiet a ?s" using assms by (simp add: calm_def quiet_def locks_free_def)
  moreover have "settled a ?s = ?s" using assms by (simp add: calm_def settled_def)
  ultimately show ?thesis by (simp add: wakeup_ok woken_mach)
qed

text \<open>The header block on disk says that the log is empty.\<close>

definition header_clear :: "'e lkst_scheme \<Rightarrow> bool" where
  "header_clear s \<longleftrightarrow> head_count (disk s ! unat (lg_start (klog s))) = 0 \<and> BSIZE \<le> length (disk s ! unat (lg_start (klog s)))"

lemma length_put_head [simp]: "length (put32 k w d) = length d" "length (put_blocks k bs d) = length d"
  by (simp add: put32_def, induction bs arbitrary: k d) (simp_all add: put32_def)

lemma commit_clears:
  assumes "log_ok l d" "BSIZE \<le> length (d ! unat (lg_start l))" "d' = apply_writes (commit_writes l c d) d"
  shows "head_count (d' ! unat (lg_start l)) = 0 \<and> BSIZE \<le> length (d' ! unat (lg_start l))"
proof -
  have "d' ! unat (lg_start l) = put32 0 0 (head_block l (d ! unat (lg_start l)))"
    using log_okD(3) [OF assms(1)] by (simp add: assms(3) commit_writes_def Let_def)
  then show ?thesis using assms(2) by (simp add: head_count_def head_block_def codec BSIZE_def)
qed

lemma commit_result:
  assumes ok: "cache_ok a me {} s" and tr: "open_trans s"
  shows "\<exists>t. commit a s = Ok () t \<and> cache_ok a me {} t \<and> klog t = (klog s)\<lparr>lh_n := 0\<rparr> \<and> pend t = Map.empty \<and>
    pkst.truncate t = pkst.truncate s \<and> length (disk t) = length (disk s) \<and>
    (\<forall>x. unat x < length (disk s) \<and> \<not> in_log (klog s) (unat x) \<longrightarrow> disk t ! unat x = content s x) \<and>
    (header_clear s \<longrightarrow> header_clear t)"
proof (cases "0 < lh_n (klog s)")
  case True
  note b = open_trans_drained(2) [OF tr] and dr = open_trans_drained(1) [OF tr]
  obtain t where t: "commit a s = Ok () t" "did a me (commit_writes (klog s) (content s) (disk s)) s ((klog s)\<lparr>lh_n := 0\<rparr>) t"
    using commit_did [OF ok b dr True] by blast
  have "unat b \<in> fst ` set (commit_writes (klog s) (content s) (disk s))" if "b \<in> set (logged (klog s))" for b
    using that by (force simp: commit_writes_def home_writes_def Let_def)
  moreover have "pend s b = None" if "b \<notin> set (logged (klog s))" for b using that tr by (auto simp: open_trans_def)
  ultimately have "pend t = Map.empty" using t(2) by (auto simp: did_def fun_eq_iff)
  moreover have "disk t ! unat x = content s x" if "unat x < length (disk s)" "\<not> in_log (klog s) (unat x)" for x
    using t(2) commit_image [OF b that drained_content [OF dr]] by (simp add: did_def)
  moreover have "header_clear t" if "header_clear s"
    using commit_clears [OF batch_okD(1) [OF b], of "disk t" "content s"] t(2) that by (simp add: header_clear_def did_def)
  ultimately show ?thesis using t by (auto simp: did_def)
next
  case False
  have "lh_n (klog s) = 0" using False open_trans_drained(2) [OF tr] by (simp add: batch_ok_def)
  then have e: "logged (klog s) = []" "(klog s)\<lparr>lh_n := 0\<rparr> = klog s" by (simp_all add: logged_def)
  then have "pend s = Map.empty" using tr by (simp add: open_trans_def)
  then show ?thesis using False ok e by (simp add: commit_def content_def)
qed

lemma truncate_procs: "pkst.truncate t = pkst.truncate s \<Longrightarrow> ptab t = ptab s \<and> ticks t = ticks s"
  by (cases s; cases t) (simp add: pkst.defs)

lemma end_op_last:
  assumes ok: "cache_ok a me {} s" and tr: "open_trans s" and inv: "sched_inv s" and me: "me < NPROC"
    and o: "lg_outstanding (klog s) = 1" "\<not> lg_committing (klog s)"
  shows "\<exists>t. end_op a s = Ok () t \<and> cache_ok a me {} t \<and> open_trans t \<and> sched_inv t \<and>
    klog t = (klog s)\<lparr>lg_outstanding := 0, lh_n := 0\<rparr> \<and>
    (\<forall>x. unat x < length (disk s) \<and> \<not> in_log (klog s) (unat x) \<longrightarrow> disk t ! unat x = content s x) \<and>
    (header_clear s \<longrightarrow> header_clear t) \<and>
    (\<forall>i < NPROC. prc i t = wake_proc (ticks s) (Some ChLog) (prc i s))"
proof -
  let ?s1 = "upd_log (\<lambda>l. l\<lparr>lg_committing := True\<rparr>) (upd_log (\<lambda>l. l\<lparr>lg_outstanding := lg_outstanding l - 1\<rparr>) s)"
  have tr1: "open_trans ?s1" and c1: "content ?s1 = content s" and h1: "header_clear ?s1 = header_clear s"
    using tr by (simp_all add: open_trans_def batch_ok_def log_ok_def logged_def in_log_def content_def fun_eq_iff header_clear_def cong: option.case_cong)
  have ok1: "cache_ok a me {} ?s1" using ok by simp
  obtain t where t: "commit a ?s1 = Ok () t" "cache_ok a me {} t" "klog t = (klog ?s1)\<lparr>lh_n := 0\<rparr>" "pend t = Map.empty"
      "pkst.truncate t = pkst.truncate ?s1" "length (disk t) = length (disk ?s1)"
      "\<forall>x. unat x < length (disk ?s1) \<and> \<not> in_log (klog ?s1) (unat x) \<longrightarrow> disk t ! unat x = content ?s1 x"
      "header_clear ?s1 \<longrightarrow> header_clear t"
    using commit_result [OF ok1 tr1] by blast
  let ?t = "upd_log (\<lambda>l. l\<lparr>lg_committing := False\<rparr>) t"
  let ?w = "woken (Some ChLog) ?t"
  have invt: "sched_inv ?t" using inv truncate_sched_inv [of ?t s] t(5) by simp
  have okw: "cache_ok a me {} ?w" "pend ?w = Map.empty" using woken_cache_ok [OF _ invt me, of a "{}"] t(2,4) by simp_all
  note cl = cache_okD(1) [OF ok] cache_okD(1) [OF ok1] cache_okD(1) [OF t(2)] cache_okD(1) [OF okw(1)]
  have cl2: "calm a me ?t" using cl(3) by (simp add: calm_def)
  have "end_op a s = Ok () ?w"
    using o t(1) cl cl2 calm_release_eq [OF cl(2), of "mach s" LogLock] calm_wakeup_under [OF cl2, of LogLock ChLog] calm_release_eq [OF cl(4), of "mach t" LogLock]
    by (simp add: end_op_def upd_log_mach Let_def)
  moreover have "open_trans ?w"
    using tr okw(2) t(3,6) by (simp add: open_trans_def batch_ok_def log_ok_def logged_def LOGSIZE_def)
  moreover have "ptab t = ptab s \<and> ticks t = ticks s" using truncate_procs [of t s] t(5) by simp
  then have "prc i ?w = wake_proc (ticks s) (Some ChLog) (prc i s)" if "i < NPROC" for i
    using prc_woken [OF invt that] by (simp add: upd_log_def)
  moreover have "sched_inv ?w" using sched_inv_woken [OF invt] .
  moreover have "disk ?w ! unat x = content s x" if "unat x < length (disk s)" "\<not> in_log (klog s) (unat x)" for x
    using t(7) that c1 by (simp add: in_log_def)
  moreover have "header_clear ?w" if "header_clear s" using t(8) that h1 by (simp add: header_clear_def)
  ultimately show ?thesis using okw t(3) o by (intro exI [of _ ?w]) (cases "klog s"; simp)
qed

text \<open>
  C8. The last operation to end commits the transaction. Afterwards every block outside the log is on disk as the
  operations left it; the log is empty in memory and in its header on disk, as the next commit needs it to be after a crash; new
  operations may begin, and exactly the processes that slept waiting for the log have become runnable.
\<close>

theorem end_op_commits:
  assumes ok: "cache_ok a me {} s" and tr: "open_trans s" and inv: "sched_inv s" and me: "me < NPROC"
    and o: "lg_outstanding (klog s) = 1" "\<not> lg_committing (klog s)"
    and h: "head_count (disk s ! unat (lg_start (klog s))) = 0" "BSIZE \<le> length (disk s ! unat (lg_start (klog s)))"
  shows "\<exists>t. end_op a s = Ok () t \<and> cache_ok a me {} t \<and> open_trans t \<and> sched_inv t \<and>
    logged (klog t) = [] \<and> lg_outstanding (klog t) = 0 \<and> \<not> lg_committing (klog t) \<and>
    (\<forall>x. unat x < length (disk s) \<and> \<not> in_log (klog s) (unat x) \<longrightarrow> disk t ! unat x = content s x) \<and>
    head_count (disk t ! unat (lg_start (klog s))) = 0 \<and>
    (\<forall>i < NPROC. prc i t = (if state (prc i s) = SLEEPING \<and> pchan (prc i s) = Some ChLog
       then (prc i s)\<lparr>state := RUNNABLE, arrival_time := sint (ticks s), waited_ticks := 0\<rparr> else prc i s))"
  using end_op_last [OF ok tr inv me o] h o(2) by (auto simp: header_clear_def logged_def wake_proc_def ready_fields_def)

section \<open>The space that operations reserve\<close>




















section \<open>Sample transactions\<close>

text \<open>The small disk of the crash theorem, with the given buffers, logged blocks and number of running operations.\<close>

definition in_trans :: "buf list \<Rightarrow> u32 list \<Rightarrow> int \<Rightarrow> ikst" where
  "in_trans bs l k = upd_log (\<lambda>_. \<lparr>lg_start = 1, lg_size = 2, lg_outstanding = k, lg_committing = False, lg_dev = 1,
      lh_n = int (length l), lh_block = l @ replicate (30 - length l) 0\<rparr>) (with_disk small_disk bs l)"

lemma in_trans_fields [simp]:
  "disk (in_trans bs l k) = small_disk" "pend (in_trans bs l k) = pend (with_disk small_disk bs l)"
  "klog (in_trans bs l k) = \<lparr>lg_start = 1, lg_size = 2, lg_outstanding = k, lg_committing = False, lg_dev = 1,
      lh_n = int (length l), lh_block = l @ replicate (30 - length l) 0\<rparr>"
  by (simp_all add: in_trans_def with_disk_fields)

lemma in_trans_cache: "bs \<in> {[], [new_data]} \<Longrightarrow> cache_ok 0 0 {} (in_trans bs l k)"
  by (simp add: in_trans_def with_disk_cache small_disk_def)

lemma in_trans_inv: "sched_inv (in_trans bs l k)"
proof -
  have "pkst.truncate (in_trans bs l k) = pkst.truncate (sample (Some 0) [a_proc 1 RUNNING 2 1])"
    by (simp add: in_trans_def) (simp add: with_disk_def pkst.defs)
  moreover have "fine [a_proc 1 RUNNING 2 1]" by (simp add: fine_def class_ok_def NPROC_def)
  ultimately show ?thesis using truncate_sched_inv sample_inv by blast
qed

lemma in_trans_open: "bs = [] \<and> l = [] \<or> bs = [new_data] \<and> l = [4] \<Longrightarrow> open_trans (in_trans bs l k)"
  by (auto simp: open_trans_def batch_ok_def log_ok_def logged_def LOGSIZE_def in_log_def with_disk_pend small_disk_def split: if_splits)


theorem log_write_records_witness:
  "\<exists>i s t. bread 0 1 4 (in_trans [] [] 1) = Ok i s \<and> log_write 0 i (set_data i (replicate BSIZE 9) s) = Ok () t \<and>
     set (logged (klog t)) = {4} \<and> content t 4 = replicate BSIZE 9 \<and> content t 5 = replicate BSIZE 0"
proof -
  let ?s = "in_trans [] [] 1"
  have ok: "cache_ok 0 0 {} ?s" by (simp add: in_trans_cache)
  obtain i s where s: "bread 0 1 4 ?s = Ok i s" "cache_ok 0 0 {i} s" "b_blockno (bf i s) = 4" "disk s = disk ?s" "pend s = pend ?s" "frame s = frame ?s"
    using bc.read_ok [OF ok, of 4] by (auto simp: with_disk_pend small_disk_def NBUF_def)
  note k = frame_klog [OF s(6)]
  have "open_trans s" using in_trans_open [of "[]" "[]" 1] s(4,5) k by (simp add: open_trans_def)
  then have "\<exists>t. log_write 0 i (set_data i (replicate BSIZE 9) s) = Ok () t \<and> cache_ok 0 0 {i} t \<and> open_trans t \<and>
      set (logged (klog t)) = insert 4 (set (logged (klog s))) \<and> content t = (content s)(4 := replicate BSIZE 9) \<and> disk t = disk s \<and> wtrace t = wtrace s"
    using log_write_records [OF s(2), of i "replicate BSIZE 9"] k s(3) by (simp add: in_log_def)
  moreover have "content s 5 = replicate BSIZE 0" "logged (klog s) = []"
    using s(4,5) k by (simp_all add: content_def with_disk_pend small_disk_def logged_def)
  ultimately show ?thesis using s(1) by auto
qed

text \<open>A log of \<open>n\<close> blocks with \<open>k\<close> recorded.\<close>

definition long_log :: "int \<Rightarrow> int \<Rightarrow> int \<Rightarrow> ikst" where
  "long_log n k out = upd_log (\<lambda>l. l\<lparr>lg_size := n, lh_n := k\<rparr>) (in_trans [] [] out)"

lemma long_log_fields [simp]: "lg_size (klog (long_log n k out)) = n" "lh_n (klog (long_log n k out)) = k"
  "lg_outstanding (klog (long_log n k out)) = out" "lg_committing (klog (long_log n k out)) = False"
  by (simp_all add: long_log_def)



theorem end_op_commits_witness:
  "\<exists>t. end_op 0 (in_trans [new_data] [4] 1) = Ok () t \<and> disk t ! 4 = replicate BSIZE 7 \<and> head_count (disk t ! 1) = 0 \<and> lg_outstanding (klog t) = 0"
proof -
  let ?s = "in_trans [new_data] [4] 1"
  have "cache_ok 0 0 {} ?s" "open_trans ?s" by (simp_all add: in_trans_cache in_trans_open)
  moreover have "head_count (disk ?s ! unat (lg_start (klog ?s))) = 0" "BSIZE \<le> length (disk ?s ! unat (lg_start (klog ?s)))"
    by (simp_all add: small_disk_def head_count_def get32_def BSIZE_def)
  ultimately obtain t where t: "end_op 0 ?s = Ok () t" "lg_outstanding (klog t) = 0"
      "\<forall>x. unat x < length (disk ?s) \<and> \<not> in_log (klog ?s) (unat x) \<longrightarrow> disk t ! unat x = content ?s x"
      "head_count (disk t ! unat (lg_start (klog ?s))) = 0"
    using end_op_commits [OF _ _ in_trans_inv, of 0 0 "[new_data]" "[4]" 1] by (auto simp: NPROC_def)
  have "disk t ! unat (4 :: u32) = content ?s 4" using spec [OF t(3), of 4] by (simp add: in_log_def small_disk_def)
  then show ?thesis using t by (simp add: content_def with_disk_pend)
qed

end
