(* ===== verification/Ring.thy ===== *)
theory Ring
  imports Xv6_Prelude
begin

text \<open>
  Ring buffers with free-running 32 bit counters, as \<^verbatim>\<open>src/pipe.c\<close> and \<^verbatim>\<open>src/console.c\<close> use them: slot
  \<open>n mod size\<close> holds byte number \<open>n\<close>. The size divides \<open>2^32\<close>, so that the counters may wrap around.
  \<open>ring size d r w\<close> is the sequence of bytes from counter \<open>r\<close> to counter \<open>w\<close>.
\<close>

definition slot :: "nat \<Rightarrow> u32 \<Rightarrow> nat" where
  "slot sz w = unat w mod sz"

definition ring :: "nat \<Rightarrow> u8 list \<Rightarrow> u32 \<Rightarrow> u32 \<Rightarrow> u8 list" where
  "ring sz d r w = map (\<lambda>k. d ! slot sz (r + word_of_nat k)) [0..<unat (w - r)]"

lemma length_ring [simp]: "length (ring sz d r w) = unat (w - r)"
  by (simp add: ring_def)

lemma slot_add: "sz dvd 2 ^ 32 \<Longrightarrow> slot sz (r + word_of_nat k) = (unat r + k) mod sz"
  by (simp add: slot_def unat_word_ariths unat_of_nat mod_mod_cancel mod_add_right_eq)

lemma unat_Suc_diff: "unat (w - r) < 2 ^ 32 - 1 \<Longrightarrow> unat (w + 1 - r) = Suc (unat (w - r))" for w r :: u32
proof -
  assume a: "unat (w - r) < 2 ^ 32 - 1"
  have "w + 1 - r = (w - r) + 1" by simp
  moreover have "unat ((w - r) + 1) = (unat (w - r) + 1) mod 2 ^ 32" by (simp add: unat_word_ariths)
  ultimately show ?thesis using a by (simp only: mod_less)
qed

lemma unat_diff_pred: "w \<noteq> r \<Longrightarrow> unat (w - (r + 1)) = unat (w - r) - 1" for w r :: u32
proof -
  assume "w \<noteq> r"
  then have "unat ((w - r) - 1) = unat (w - r) - 1" by (intro unat_minus_one) simp
  moreover have "w - (r + 1) = (w - r) - 1" by simp
  ultimately show ?thesis by (simp only:)
qed

lemma slot_other:
  assumes "sz dvd 2 ^ 32" "k < unat (w - r)" "unat (w - r) < sz"
  shows "slot sz (r + word_of_nat k) \<noteq> slot sz w"
proof
  let ?n = "unat (w - r)"
  assume "slot sz (r + word_of_nat k) = slot sz w"
  then have "(unat r + ?n) mod sz = (unat r + k) mod sz"
    using slot_add [OF assms(1), of r ?n] slot_add [OF assms(1), of r k] by simp
  then have "sz dvd ?n - k" using assms(2) mod_eq_dvd_iff_nat [of "unat r + k" "unat r + ?n" sz] by simp
  then show False using assms(2,3) by (auto dest: dvd_imp_le)
qed

lemma ring_put:
  assumes "sz dvd 2 ^ 32" "sz < 2 ^ 32" "length d = sz" "unat (w - r) < sz"
  shows "ring sz (d[slot sz w := c]) r (w + 1) = ring sz d r w @ [c]"
proof -
  have n: "unat (w + 1 - r) = Suc (unat (w - r))" by (rule unat_Suc_diff) (use assms in simp)
  have "slot sz w < length d" using assms(3,4) by (simp add: slot_def)
  moreover have "d[slot sz w := c] ! slot sz (r + word_of_nat k) = d ! slot sz (r + word_of_nat k)" if "k < unat (w - r)" for k
    using slot_other [OF assms(1) that assms(4)] by simp
  ultimately show ?thesis unfolding ring_def n by simp
qed

lemma ring_get:
  assumes "w \<noteq> r"
  shows "ring sz d r w = d ! slot sz r # ring sz d (r + 1) w"
proof -
  have "0 < unat (w - r)" using assms by (simp add: unat_gt_0)
  then have u: "[0..<unat (w - r)] = 0 # map Suc [0..<unat (w - r) - 1]" 
    using map_Suc_upt [of 0 "unat (w - r) - 1"] upt_conv_Cons [of 0 "unat (w - r)"] by (simp del: upt_Suc)
  have "map (\<lambda>k. d ! slot sz (r + word_of_nat k)) (map Suc ks) = map (\<lambda>k. d ! slot sz (r + 1 + word_of_nat k)) ks" for ks
    by (simp add: add.assoc)
  then show ?thesis unfolding ring_def u unat_diff_pred [OF assms] by (simp only: list.map) simp
qed

end
