(* ===== verification/Pipe_Props.thy ===== *)
theory Pipe_Props
  imports Ring Log_Ops
begin

text \<open>
  Pipes as queues of bytes. The interface \<open>byte_queue\<close> says what the loops of \<^verbatim>\<open>pipewrite\<close> and \<^verbatim>\<open>piperead\<close>
  rely on; the ring buffer of \<^verbatim>\<open>src/pipe.c\<close> provides it, also when its counters wrap around. The
  theorems give the effect of a write and of a read on every branch, and that bytes are
  delivered in order, none lost and none twice.
\<close>

section \<open>Queues of bytes\<close>

locale byte_queue =
  fixes cont :: "'q \<Rightarrow> u8 list" and put :: "u8 \<Rightarrow> 'q \<Rightarrow> 'q" and get :: "'q \<Rightarrow> u8 \<times> 'q"
    and full :: "'q \<Rightarrow> bool" and empty :: "'q \<Rightarrow> bool" and ok :: "'q \<Rightarrow> bool" and cap :: nat
  assumes ok_cap: "ok q \<Longrightarrow> length (cont q) \<le> cap"
    and full_iff: "ok q \<Longrightarrow> full q \<longleftrightarrow> length (cont q) = cap"
    and empty_iff: "ok q \<Longrightarrow> empty q \<longleftrightarrow> cont q = []"
    and put_ok: "ok q \<Longrightarrow> \<not> full q \<Longrightarrow> ok (put c q) \<and> cont (put c q) = cont q @ [c]"
    and get_ok: "ok q \<Longrightarrow> \<not> empty q \<Longrightarrow> \<exists>q'. get q = (hd (cont q), q') \<and> ok q' \<and> cont q' = tl (cont q)"
begin

lemma fold_put: "ok q \<Longrightarrow> length (cont q) + length cs \<le> cap \<Longrightarrow> ok (fold put cs q) \<and> cont (fold put cs q) = cont q @ cs"
proof (induction cs arbitrary: q)
  case (Cons c cs)
  then have "ok (put c q)" "cont (put c q) = cont q @ [c]" using put_ok [of q c] full_iff [of q] by auto
  then show ?case using Cons.IH [of "put c q"] Cons.prems by simp
qed simp

lemma put_unless_full: "ok q \<Longrightarrow> length (cont q) < cap \<Longrightarrow> \<not> full q"
  by (simp add: full_iff)

end

section \<open>The ring buffer of a pipe\<close>

definition pipe_bytes :: "pipe \<Rightarrow> u8 list" where
  "pipe_bytes q = ring PIPESIZE (p_data q) (nread q) (nwrite q)"

definition pipe_ok :: "pipe \<Rightarrow> bool" where
  "pipe_ok q \<longleftrightarrow> length (p_data q) = PIPESIZE \<and> unat (nwrite q - nread q) \<le> PIPESIZE"

lemma PIPESIZE_dvd: "PIPESIZE dvd 2 ^ 32" "PIPESIZE < 2 ^ 32"
  by (simp_all add: PIPESIZE_def)

interpretation pq: byte_queue pipe_bytes pipe_put pipe_get pipe_full pipe_empty pipe_ok PIPESIZE
proof
  fix q c assume ok: "pipe_ok q"
  show "length (pipe_bytes q) \<le> PIPESIZE" using ok by (simp add: pipe_bytes_def pipe_ok_def)
  have "pipe_full q \<longleftrightarrow> nwrite q - nread q = word_of_nat PIPESIZE" by (auto simp: pipe_full_def diff_eq_eq add.commute)
  also have "\<dots> \<longleftrightarrow> unat (nwrite q - nread q) = PIPESIZE" by (simp add: word_unat_eq_iff PIPESIZE_def)
  finally show f: "pipe_full q \<longleftrightarrow> length (pipe_bytes q) = PIPESIZE" by (simp add: pipe_bytes_def)
  have "pipe_empty q \<longleftrightarrow> unat (nwrite q - nread q) = 0" by (auto simp: pipe_empty_def unat_eq_0)
  then show e: "pipe_empty q \<longleftrightarrow> pipe_bytes q = []" using length_0_conv [of "pipe_bytes q"] by (simp add: pipe_bytes_def)
  show "pipe_ok (pipe_put c q) \<and> pipe_bytes (pipe_put c q) = pipe_bytes q @ [c]" if "\<not> pipe_full q"
  proof -
    have n: "unat (nwrite q - nread q) < PIPESIZE" using ok that f by (simp add: pipe_bytes_def pipe_ok_def)
    have "pipe_bytes (pipe_put c q) = pipe_bytes q @ [c]"
      using ring_put [OF PIPESIZE_dvd _ n, of "p_data q" c] ok by (simp add: pipe_bytes_def pipe_put_def pipe_ok_def slot_def)
    moreover have "unat (nwrite q + 1 - nread q) \<le> PIPESIZE"
      using n unat_Suc_diff [of "nwrite q" "nread q"] by (simp add: PIPESIZE_def)
    ultimately show ?thesis using ok by (simp add: pipe_ok_def pipe_put_def)
  qed
  show "\<exists>q'. pipe_get q = (hd (pipe_bytes q), q') \<and> pipe_ok q' \<and> pipe_bytes q' = tl (pipe_bytes q)" if "\<not> pipe_empty q"
  proof -
    have ne: "nwrite q \<noteq> nread q" using that by (auto simp: pipe_empty_def)
    show ?thesis using ok ring_get [OF ne, of PIPESIZE "p_data q"] unat_diff_pred [OF ne]
      by (auto simp: pipe_get_def pipe_bytes_def pipe_ok_def slot_def)
  qed
qed

lemma pipe_drain_ok: "pipe_ok q \<Longrightarrow> \<exists>q'. pipe_drain n q = (take n (pipe_bytes q), q') \<and> pipe_ok q' \<and> pipe_bytes q' = drop n (pipe_bytes q)
    \<and> readopen q' = readopen q \<and> writeopen q' = writeopen q"
proof (induction n arbitrary: q)
  case (Suc n)
  show ?case
  proof (cases "pipe_empty q")
    case True
    then show ?thesis using Suc.prems by (simp add: pq.empty_iff)
  next
    case False
    then obtain q' where g: "pipe_get q = (hd (pipe_bytes q), q')" "pipe_ok q'" "pipe_bytes q' = tl (pipe_bytes q)"
      using pq.get_ok [OF Suc.prems] by blast
    obtain c cs where c: "pipe_bytes q = c # cs" using False pq.empty_iff [OF Suc.prems] by (cases "pipe_bytes q") auto
    have o: "readopen q' = readopen q" "writeopen q' = writeopen q" using g(1) by (auto simp: pipe_get_def)
    obtain q'' where "pipe_drain n q' = (take n (pipe_bytes q'), q'')" "pipe_ok q''" "pipe_bytes q'' = drop n (pipe_bytes q')"
      "readopen q'' = readopen q'" "writeopen q'' = writeopen q'" using Suc.IH [OF g(2)] by blast
    then show ?thesis using False g c o by simp
  qed
qed simp

section \<open>Writing and reading\<close>

lemma upd_pipe_simps [simp]:
  "pipes (upd_pipe p f s) p = f (pipes s p)" "upd_pipe p g (upd_pipe p f s) = upd_pipe p (\<lambda>q. g (f q)) s"
  "mach (upd_pipe p f s) = mach s" "ptab (upd_pipe p f s) = ptab s" "upd_pipe p (\<lambda>q. q) s = s" "upd_pipe p id s = s"
  by (simp_all add: upd_pipe_def)

lemma ticks_upd_pipe [simp]: "ticks (upd_pipe p f s) = ticks s"
  by (simp add: upd_pipe_def)

lemma upd_pipe_mach: "upd_pipe p f (s\<lparr>mach := m\<rparr>) = (upd_pipe p f s)\<lparr>mach := m\<rparr>"
  by (simp add: upd_pipe_def)

lemma calm_upd_pipe [simp]: "calm a me (upd_pipe p f s) = calm a me s"
  by (rule calm_cong) simp_all

lemma sched_inv_upd_pipe [simp]: "sched_inv (upd_pipe p f s) = sched_inv s"
  by (rule truncate_sched_inv) (simp add: upd_pipe_def pkst.defs)

lemma pipes_woken [simp]: "pipes (woken ch s) = pipes s"
  using more_woken [of ch s] by (cases "woken ch s"; cases s) simp

definition pipe_room :: "pipe \<Rightarrow> nat" where
  "pipe_room q = PIPESIZE - length (pipe_bytes q)"

text \<open>The loop of \<^verbatim>\<open>pipewrite\<close> stores as many bytes as fit, and goes on with the rest.\<close>

lemma pipewrite_loop_fill:
  "pipe_ok (pipes s p) \<Longrightarrow> pipewrite_loop a p cs n s =
   pipewrite_loop a p (drop (pipe_room (pipes s p)) cs) n (upd_pipe p (fold pipe_put (take (pipe_room (pipes s p)) cs)) s)"
proof (induction cs arbitrary: s)
  case (Cons c cs)
  let ?q = "pipes s p"
  show ?case
  proof (cases "pipe_full ?q")
    case True
    then have "pipe_room ?q = 0" using pq.full_iff [OF Cons.prems] by (simp add: pipe_room_def)
    then show ?thesis by (simp del: pipewrite_loop.simps)
  next
    case False
    then have r: "pipe_room ?q = Suc (pipe_room (pipe_put c ?q))"
      using pq.full_iff [OF Cons.prems] pq.ok_cap [OF Cons.prems] pq.put_ok [OF Cons.prems False, of c] by (simp add: pipe_room_def)
    have ok: "pipe_ok (pipes (upd_pipe p (pipe_put c) s) p)" using pq.put_ok [OF Cons.prems False, of c] by simp
    have "pipewrite_loop a p (c # cs) n s = pipewrite_loop a p cs n (upd_pipe p (pipe_put c) s)" using False by simp
    also have "\<dots> = pipewrite_loop a p (drop (pipe_room (pipe_put c ?q)) cs) n
        (upd_pipe p (\<lambda>q. fold pipe_put (take (pipe_room (pipe_put c ?q)) cs) (pipe_put c q)) s)"
      using Cons.IH [OF ok] by simp
    finally show ?thesis unfolding r by (simp add: comp_def del: pipewrite_loop.simps)
  qed
qed simp

lemma pipe_fill_ok:
  assumes "pipe_ok q"
  shows "pipe_ok (fold pipe_put (take (pipe_room q) cs) q)"
    "pipe_bytes (fold pipe_put (take (pipe_room q) cs) q) = pipe_bytes q @ take (pipe_room q) cs"
    "pipe_room q < length cs \<Longrightarrow> pipe_full (fold pipe_put (take (pipe_room q) cs) q)"
proof -
  have "length (pipe_bytes q) + length (take (pipe_room q) cs) \<le> PIPESIZE" using pq.ok_cap [OF assms] by (simp add: pipe_room_def)
  note f = pq.fold_put [OF assms this]
  show "pipe_ok (fold pipe_put (take (pipe_room q) cs) q)"
    "pipe_bytes (fold pipe_put (take (pipe_room q) cs) q) = pipe_bytes q @ take (pipe_room q) cs" using f by simp_all
  show "pipe_full (fold pipe_put (take (pipe_room q) cs) q)" if "pipe_room q < length cs"
    using that f pq.full_iff pq.ok_cap [OF assms] by (simp add: pipe_room_def)
qed

lemma fold_put_open [simp]: "readopen (fold pipe_put cs q) = readopen q" "writeopen (fold pipe_put cs q) = writeopen q"
  by (induction cs arbitrary: q) (simp_all add: pipe_put_def)

text \<open>
  C11. The effect of \<^verbatim>\<open>pipewrite\<close> of the bytes \<open>cs\<close>. If they fit, they are appended to the contents of the pipe and the
  readers are woken. Otherwise the bytes that fit are appended; if nobody reads any more or the writer was
  killed the call fails without waking anybody, else it wakes the readers and sleeps until there is room. Exactly the processes that
  sleep for the pipe to have bytes are woken, with a fresh arrival; no other process changes but the writer that goes to sleep.
\<close>

theorem pipewrite_spec:
  fixes s :: "'e wkst_scheme"
  assumes c: "calm a me s" and inv: "sched_inv s" and q: "pipe_ok (pipes s p)"
    and p: "ncli_of a (mach s) = 0" "me < NPROC" "state (prc me s) = RUNNING"
  shows "if length cs \<le> pipe_room (pipes s p)
    then \<exists>t. pipewrite a p cs n s = Ok n t \<and> calm a me t \<and> sched_inv t \<and> pipe_ok (pipes t p) \<and> pipe_bytes (pipes t p) = pipe_bytes (pipes s p) @ cs \<and>
      (\<forall>i < NPROC. prc i t = wake_proc (ticks s) (Some (ChPipeRead (unat p))) (prc i s))
    else if \<not> readopen (pipes s p) \<or> killed (prc me s)
    then \<exists>t. pipewrite a p cs n s = Ok (-1) t \<and> calm a me t \<and> sched_inv t \<and> pipe_ok (pipes t p) \<and>
      pipe_bytes (pipes t p) = pipe_bytes (pipes s p) @ take (pipe_room (pipes s p)) cs \<and> ptab t = ptab s
    else \<exists>t. pipewrite a p cs n s = Off t \<and> sched_inv t \<and> pipe_ok (pipes t p) \<and> lk_free (pipe_lock p) (mach t) \<and>
      pipe_bytes (pipes t p) = pipe_bytes (pipes s p) @ take (pipe_room (pipes s p)) cs \<and>
      state (prc me t) = SLEEPING \<and> pchan (prc me t) = Some (ChPipeWrite (unat p)) \<and>
      (\<forall>i < NPROC. i \<noteq> me \<longrightarrow> prc i t = wake_proc (ticks s) (Some (ChPipeRead (unat p))) (prc i s))"
proof -
  let ?q = "pipes s p" and ?lk = "pipe_lock p"
  let ?s = "upd_pipe p (fold pipe_put (take (pipe_room ?q) cs)) s"
  let ?w = "woken (Some (ChPipeRead (unat p))) ?s"
  have e: "pipewrite a p cs n s = pipewrite_loop a p (drop (pipe_room ?q) cs) n (?s\<lparr>mach := acq a ?lk (mach s)\<rparr>)"
    using c pipewrite_loop_fill [of "s\<lparr>mach := acq a ?lk (mach s)\<rparr>" p a cs n] q by (simp add: pipewrite_def upd_pipe_mach)
  have "calm a me ?s" "sched_inv ?s" using c inv by simp_all
  then have cw: "calm a me ?s" "sched_inv ?s" "calm a me ?w" by (simp_all only: calm_woken)
  note wk = calm_wakeup_under [OF cw(1), of ?lk "ChPipeRead (unat p)"]
  note f = pipe_fill_ok [OF q, of cs]
  have my: "myproc a (?s\<lparr>mach := acq a ?lk (mach s)\<rparr>) = Ok (Some me) (?s\<lparr>mach := acq a ?lk (mach s)\<rparr>)"
    using calm_myproc [OF cw(1), of ?lk] by simp
  consider "length cs \<le> pipe_room ?q" | "pipe_room ?q < length cs" "\<not> readopen ?q \<or> killed (prc me s)"
    | "pipe_room ?q < length cs" "readopen ?q" "\<not> killed (prc me s)" by linarith
  then show ?thesis
  proof cases
    case 1
    have "prc i ?w = wake_proc (ticks s) (Some (ChPipeRead (unat p))) (prc i s)" if "i < NPROC" for i
      using prc_woken [OF cw(2) that] by simp
    moreover have "sched_inv ?w" using sched_inv_woken [OF cw(2)] .
    moreover have "pipewrite a p cs n s = Ok n ?w" using 1 wk calm_release_eq [OF cw(3), of "mach s" ?lk] by (simp add: e)
    ultimately show ?thesis using 1 cw f by simp
  next
    case 2
    then obtain d ds where d: "drop (pipe_room ?q) cs = d # ds" by (cases "drop (pipe_room ?q) cs") auto
    have "pipewrite a p cs n s = Ok (-1) ?s"
      using 2 d f(3) c calm_release_eq [OF cw(1), of "mach s" ?lk] by (auto simp: e with_myproc_def my)
    then show ?thesis using 2 cw f by simp
  next
    case 3
    then obtain d ds where d: "drop (pipe_room ?q) cs = d # ds" by (cases "drop (pipe_room ?q) cs") auto
    let ?o = "asleep (ChPipeWrite (unat p)) ?lk (eif (mach s) a) me (?w\<lparr>mach := acq a PtableLock (mach s)\<rparr>)"
    have st: "prc me ?w = prc me s" using prc_woken [OF cw(2) p(2)] p(3) by (simp add: wake_proc_def)
    have "(sleep a (ChPipeWrite (unat p)) ?lk (?w\<lparr>mach := acq a ?lk (mach s)\<rparr>) :: (int, 'e wkst_scheme) res) =
        Off (asleep (ChPipeWrite (unat p)) ?lk (eif (mach s) a) me (?w\<lparr>mach := acq a ?lk (mach s), mach := acq a PtableLock (mach s)\<rparr>))"
      by (rule sleep_off) (use c p st sched_inv_length [OF inv] in \<open>auto simp: calm_def locks_free_def\<close>)
    then have "pipewrite a p cs n s = Off ?o"
      using 3 d f(3) c wk by (auto simp: e with_myproc_def my)
    moreover have "state (prc me ?o) = SLEEPING" "pchan (prc me ?o) = Some (ChPipeWrite (unat p))" "lk_free ?lk (mach ?o)"
      "pipes ?o = pipes ?s"
      using c p sched_inv_length [OF inv] by (simp_all add: asleep_def proc_simps calm_def) (simp add: upd_proc_def)
    moreover have "prc i ?o = wake_proc (ticks s) (Some (ChPipeRead (unat p))) (prc i s)" if "i < NPROC" "i \<noteq> me" for i
      using prc_woken [OF cw(2) that(1)] that by (simp add: asleep_def proc_simps)
    moreover have "sched_inv ?o" using sched_inv_asleep [of "?w\<lparr>mach := acq a PtableLock (mach s)\<rparr>" me] sched_inv_woken [OF cw(2)] p st by simp
    ultimately show ?thesis using 3 f by simp
  qed
qed

text \<open>
  C12. The effect of \<^verbatim>\<open>piperead\<close> of at most \<open>n\<close> bytes. If the pipe is empty and has a writer, the call sleeps until there
  is something, or fails if the reader was killed. Otherwise it takes the oldest bytes out of the pipe,
  in order, and wakes the writers; at the end of an abandoned pipe it returns no bytes.
\<close>

theorem piperead_spec:
  fixes s :: "'e wkst_scheme"
  assumes c: "calm a me s" and inv: "sched_inv s" and q: "pipe_ok (pipes s p)"
    and p: "ncli_of a (mach s) = 0" "me < NPROC" "state (prc me s) = RUNNING"
  shows "if pipe_bytes (pipes s p) \<noteq> [] \<or> \<not> writeopen (pipes s p)
    then \<exists>t. piperead a p n s = Ok (int (length (take (nat n) (pipe_bytes (pipes s p)))), take (nat n) (pipe_bytes (pipes s p))) t \<and>
      calm a me t \<and> pipe_ok (pipes t p) \<and> pipe_bytes (pipes t p) = drop (nat n) (pipe_bytes (pipes s p)) \<and>
      (\<forall>i < NPROC. \<not> (state (prc i t) = SLEEPING \<and> pchan (prc i t) = Some (ChPipeWrite (unat p))))
    else if killed (prc me s) then piperead a p n s = Ok (-1, []) s
    else \<exists>t. piperead a p n s = Off t \<and> pipes t = pipes s \<and> lk_free (pipe_lock p) (mach t) \<and>
      state (prc me t) = SLEEPING \<and> pchan (prc me t) = Some (ChPipeRead (unat p))"
proof -
  let ?q = "pipes s p" and ?lk = "pipe_lock p" and ?s = "s\<lparr>mach := acq a (pipe_lock p) (mach s)\<rparr>"
  have e: "piperead a p n s = piperead_loop a p n ?s" using c by (simp add: piperead_def)
  consider "pipe_bytes ?q \<noteq> [] \<or> \<not> writeopen ?q" | "pipe_bytes ?q = []" "writeopen ?q" "killed (prc me s)"
    | "pipe_bytes ?q = []" "writeopen ?q" "\<not> killed (prc me s)" by blast
  then show ?thesis
  proof cases
    case 1
    obtain q' where q': "pipe_drain (nat n) ?q = (take (nat n) (pipe_bytes ?q), q')" "pipe_ok q'" "pipe_bytes q' = drop (nat n) (pipe_bytes ?q)"
      using pipe_drain_ok [OF q] by blast
    let ?t = "upd_pipe p (\<lambda>_. q') s"
    let ?w = "woken (Some (ChPipeWrite (unat p))) ?t"
    have "calm a me ?t" "sched_inv ?t" using c inv by simp_all
    then have cw: "calm a me ?t" "sched_inv ?t" "calm a me ?w" by (simp_all only: calm_woken)
    have "\<not> (state (prc i ?w) = SLEEPING \<and> pchan (prc i ?w) = Some (ChPipeWrite (unat p)))" if "i < NPROC" for i
      using prc_woken [OF cw(2) that] by (auto simp: wake_proc_def ready_fields_def)
    moreover have "piperead a p n s = Ok (int (length (take (nat n) (pipe_bytes ?q))), take (nat n) (pipe_bytes ?q)) ?w"
      using 1 q' pq.empty_iff [OF q] calm_wakeup_under [OF cw(1), of ?lk "ChPipeWrite (unat p)"] calm_release_eq [OF cw(3), of "mach s" ?lk]
      by (auto simp: e piperead_loop_def upd_pipe_mach)
    ultimately show ?thesis using 1 cw q' by simp
  next
    case 2
    then show ?thesis using c pq.empty_iff [OF q] by (simp add: e piperead_loop_def with_myproc_def calm_release_eq [of a me])
  next
    case 3
    let ?o = "asleep (ChPipeRead (unat p)) ?lk (eif (mach s) a) me (s\<lparr>mach := acq a PtableLock (mach s)\<rparr>)"
    have "(sleep a (ChPipeRead (unat p)) ?lk ?s :: (int \<times> u8 list, 'e wkst_scheme) res) =
        Off (asleep (ChPipeRead (unat p)) ?lk (eif (mach s) a) me (?s\<lparr>mach := acq a PtableLock (mach s)\<rparr>))"
      by (rule sleep_off) (use c p sched_inv_length [OF inv] in \<open>auto simp: calm_def locks_free_def\<close>)
    then have "piperead a p n s = Off ?o" using 3 c pq.empty_iff [OF q] by (simp add: e piperead_loop_def with_myproc_def)
    moreover have "state (prc me ?o) = SLEEPING" "pchan (prc me ?o) = Some (ChPipeRead (unat p))" "lk_free ?lk (mach ?o)" "pipes ?o = pipes s"
      using c p sched_inv_length [OF inv] by (simp_all add: asleep_def proc_simps calm_def) (simp add: upd_proc_def)
    ultimately show ?thesis using 3 by simp
  qed
qed

section \<open>The stream of bytes\<close>

text \<open>
  A run of a pipe: writers and readers in any order, each step the store of one byte by \<^verbatim>\<open>pipewrite\<close> into a pipe that is
  not full, or the fetch of one byte by \<^verbatim>\<open>piperead\<close> from a pipe that is not empty. The two lists are the bytes
  written and read so far.
\<close>

inductive pipe_step :: "pipe \<times> u8 list \<times> u8 list \<Rightarrow> pipe \<times> u8 list \<times> u8 list \<Rightarrow> bool" where
  write_byte: "\<not> pipe_full q \<Longrightarrow> pipe_step (q, ws, rs) (pipe_put c q, ws @ [c], rs)"
| read_byte: "\<not> pipe_empty q \<Longrightarrow> pipe_get q = (c, q') \<Longrightarrow> pipe_step (q, ws, rs) (q', ws, rs @ [c])"

lemma pipe_step_stream:
  "pipe_step (q, ws, rs) (q', ws', rs') \<Longrightarrow> pipe_ok q \<and> ws = rs @ pipe_bytes q \<Longrightarrow> pipe_ok q' \<and> ws' = rs' @ pipe_bytes q'"
proof (induction "(q, ws, rs)" "(q', ws', rs')" rule: pipe_step.induct)
  case (write_byte c)
  then show ?case using pq.put_ok [of q c] by auto
next
  case (read_byte c)
  then show ?case using pq.get_ok [of q] pq.empty_iff [of q] by auto
qed

text \<open>
  C10. A pipe is a queue: in every run, however often the counters wrap around, the bytes written are the bytes read
  followed by the contents of the pipe, which are at most \<^verbatim>\<open>PIPESIZE\<close>.
\<close>

theorem pipe_is_fifo:
  assumes "pipe_step\<^sup>*\<^sup>* (q, [], []) (q', ws, rs)" "pipe_ok q" "pipe_bytes q = []"
  shows "ws = rs @ pipe_bytes q' \<and> length (pipe_bytes q') \<le> PIPESIZE"
proof -
  have "pipe_ok q' \<and> ws = rs @ pipe_bytes q'"
    using assms(1)
  proof (induction "(q', ws, rs)" arbitrary: q' ws rs rule: rtranclp_induct)
    case base
    then show ?case using assms(2,3) by simp
  next
    case (step y)
    obtain q1 w1 r1 where y: "y = (q1, w1, r1)" by (cases y)
    from pipe_step_stream [OF step.hyps(2) [unfolded y]] step.hyps(3) [OF y] show ?case .
  qed
  then show ?thesis using pq.ok_cap by blast
qed

section \<open>A sample pipe\<close>

text \<open>A pipe whose counters are about to wrap around, with one byte in it.\<close>

definition late_pipe :: pipe where
  "late_pipe = \<lparr>p_data = replicate PIPESIZE 65, nread = 0xFFFFFFFE, nwrite = 0xFFFFFFFF, readopen = True, writeopen = True\<rparr>"

definition piped :: "pipe \<Rightarrow> ikst" where
  "piped q = upd_pipe 0x8D000000 (\<lambda>_. q) (sample (Some 0) [a_proc 1 RUNNING 2 1])"

lemma late_pipe_ok: "pipe_ok late_pipe" "pipe_bytes late_pipe = [65]"
  by (simp_all add: late_pipe_def pipe_ok_def pipe_bytes_def ring_def slot_def PIPESIZE_def)

lemma piped_state: "calm 0 0 (piped q)" "sched_inv (piped q)" "ncli_of 0 (mach (piped q)) = 0" "state (prc 0 (piped q)) = RUNNING"
  "pipes (piped q) 0x8D000000 = q" "\<not> killed (prc 0 (piped q))"
proof -
  have "fine [a_proc 1 RUNNING 2 1]" by (simp add: fine_def class_ok_def NPROC_def)
  then show "sched_inv (piped q)" using sample_inv by (simp add: piped_def)
  show "calm 0 0 (piped q)" by (auto simp: piped_def calm_def table_nth)
  show "ncli_of 0 (mach (piped q)) = 0" "state (prc 0 (piped q)) = RUNNING" "pipes (piped q) 0x8D000000 = q" "\<not> killed (prc 0 (piped q))"
    by (simp_all add: piped_def table_def)
qed

theorem pipewrite_spec_witness:
  "\<exists>t. pipewrite 0 0x8D000000 [66, 67] 2 (piped late_pipe) = Ok 2 t \<and> pipe_bytes (pipes t 0x8D000000) = [65, 66, 67]"
proof -
  have "pipe_room late_pipe = 511" using late_pipe_ok by (simp add: pipe_room_def PIPESIZE_def)
  then show ?thesis
    using pipewrite_spec [where p = "0x8D000000" and cs = "[66, 67]" and n = 2, OF piped_state(1,2) [of late_pipe] _ piped_state(3) _ piped_state(4)]
    by (auto simp: piped_state late_pipe_ok NPROC_def)
qed

theorem piperead_spec_witness:
  "\<exists>t. piperead 0 0x8D000000 9 (piped late_pipe) = Ok (1, [65]) t \<and> pipe_bytes (pipes t 0x8D000000) = []"
  using piperead_spec [where p = "0x8D000000" and n = 9, OF piped_state(1,2) [of late_pipe] _ piped_state(3) _ piped_state(4)]
  by (auto simp: piped_state late_pipe_ok NPROC_def)

definition drained_pipe :: pipe where
  "drained_pipe = late_pipe\<lparr>nread := 0xFFFFFFFF\<rparr>"

theorem pipe_is_fifo_witness:
  "\<exists>q'. pipe_step\<^sup>*\<^sup>* (drained_pipe, [], []) (q', [66, 67], [66]) \<and> pipe_bytes q' = [67]"
proof -
  let ?a = "pipe_put 66 drained_pipe"
  let ?b = "pipe_put 67 ?a"
  have ok: "pipe_ok drained_pipe" "pipe_bytes drained_pipe = []"
    by (simp_all add: drained_pipe_def late_pipe_def pipe_ok_def pipe_bytes_def ring_def PIPESIZE_def)
  have f: "\<not> pipe_full drained_pipe" "\<not> pipe_full ?a" "\<not> pipe_empty ?b"
    by (simp_all add: drained_pipe_def late_pipe_def pipe_full_def pipe_empty_def pipe_put_def PIPESIZE_def)
  have g: "pipe_get ?b = (66, ?b\<lparr>nread := 0\<rparr>)"
    by (simp add: drained_pipe_def late_pipe_def pipe_get_def pipe_put_def PIPESIZE_def)
  have "pipe_step (drained_pipe, [], []) (?a, [] @ [66], [])" by (rule write_byte [OF f(1)])
  moreover have "pipe_step (?a, [66], []) (?b, [66] @ [67], [])" by (rule write_byte [OF f(2)])
  moreover have "pipe_step (?b, [66, 67], []) (?b\<lparr>nread := 0\<rparr>, [66, 67], [] @ [66])" by (rule read_byte [OF f(3) g])
  ultimately have r: "pipe_step\<^sup>*\<^sup>* (drained_pipe, [], []) (?b\<lparr>nread := 0\<rparr>, [66, 67], [66])"
    by (simp add: converse_rtranclp_into_rtranclp r_into_rtranclp)
  then show ?thesis using pipe_is_fifo [OF r ok] by auto
qed

end
