(* ===== verification/Interact.thy ===== *)
theory Interact
  imports Main
begin

text \<open>
  Programs that talk to something outside: to the kernel through system calls, or to devices through ports. A program
  maps the replies that are still to come to the calls it makes and, unless it has ended or waits for a reply that
  does not come, its result and the replies left.
\<close>

type_synonym ('c, 'r, 'a) prog = "'r list \<Rightarrow> 'c list \<times> ('a \<times> 'r list) option"

definition ureturn :: "'a \<Rightarrow> ('c, 'r, 'a) prog" where
  "ureturn x rs = ([], Some (x, rs))"

definition ubind :: "('c, 'r, 'a) prog \<Rightarrow> ('a \<Rightarrow> ('c, 'r, 'b) prog) \<Rightarrow> ('c, 'r, 'b) prog" where
  "ubind m f rs =
     (case m rs of
        (cs, None) \<Rightarrow> (cs, None)
      | (cs, Some (x, rs')) \<Rightarrow> (case f x rs' of (ds, r) \<Rightarrow> (cs @ ds, r)))"

definition ucall :: "'c \<Rightarrow> ('c, 'r, 'r) prog" where
  "ucall c rs = (case rs of [] \<Rightarrow> ([c], None) | r # rs' \<Rightarrow> ([c], Some (r, rs')))"

text \<open>A call that has no reply.\<close>

definition emit :: "'c \<Rightarrow> ('c, 'r, unit) prog" where
  "emit c rs = ([c], Some ((), rs))"

text \<open>
  A loop: the body gives the next loop state, or a result. Every round of the loops here makes a call, so there are
  no more rounds than replies.
\<close>

fun uloop :: "nat \<Rightarrow> ('s \<Rightarrow> ('c, 'r, 's + 'a) prog) \<Rightarrow> 's \<Rightarrow> ('c, 'r, 'a) prog" where
  "uloop 0 body s rs = ([], None)"
| "uloop (Suc n) body s rs = ubind (body s) (\<lambda>r. case r of Inl s' \<Rightarrow> uloop n body s' | Inr x \<Rightarrow> ureturn x) rs"

definition uwhile :: "('s \<Rightarrow> ('c, 'r, 's + 'a) prog) \<Rightarrow> 's \<Rightarrow> ('c, 'r, 'a) prog" where
  "uwhile body s rs = uloop (Suc (length rs)) body s rs"

text \<open>The body takes a reply in every round after which the loop goes on.\<close>

definition busy :: "('s \<Rightarrow> ('c, 'r, 's + 'a) prog) \<Rightarrow> bool" where
  "busy body \<longleftrightarrow> (\<forall>s rs cs s' rs'. body s rs = (cs, Some (Inl s', rs')) \<longrightarrow> length rs' < length rs)"

lemma uloop_enough:
  "busy body \<Longrightarrow> length rs < n \<Longrightarrow> length rs < m \<Longrightarrow> uloop n body s rs = uloop m body s rs"
proof (induction n arbitrary: m s rs)
  case (Suc n)
  then obtain m' where m: "m = Suc m'" by (cases m) auto
  show ?case
  proof (cases "body s rs")
    case (Pair cs o')
    show ?thesis
    proof (cases o')
      case None
      then show ?thesis using Pair m by (simp add: ubind_def)
    next
      case (Some p)
      obtain r rs' where p: "p = (r, rs')" by (cases p)
      have l: "length rs' < length rs" if "r = Inl s'" for s' using Suc.prems(1) Pair Some p that by (auto simp: busy_def)
      have "uloop n body s' rs' = uloop m' body s' rs'" if "r = Inl s'" for s'
        by (rule Suc.IH [OF Suc.prems(1)]) (use Suc.prems(2,3) m l [OF that] in simp_all)
      then show ?thesis using Pair Some p m by (simp add: ubind_def split: sum.split)
    qed
  qed
qed simp

lemma uwhile_unfold:
  assumes "busy body"
  shows "uwhile body s = ubind (body s) (\<lambda>r. case r of Inl s' \<Rightarrow> uwhile body s' | Inr x \<Rightarrow> ureturn x)"
proof
  fix rs
  show "uwhile body s rs = ubind (body s) (\<lambda>r. case r of Inl s' \<Rightarrow> uwhile body s' | Inr x \<Rightarrow> ureturn x) rs"
  proof (cases "body s rs")
    case (Pair cs o')
    show ?thesis
    proof (cases o')
      case None
      then show ?thesis using Pair by (simp add: ubind_def uwhile_def)
    next
      case (Some p)
      obtain r rs' where p: "p = (r, rs')" by (cases p)
      have l: "length rs' < length rs" if "r = Inl s'" for s' using assms Pair Some p that by (auto simp: busy_def)
      have "uloop (length rs) body s' rs' = uwhile body s' rs'" if "r = Inl s'" for s'
        unfolding uwhile_def by (rule uloop_enough [OF assms]) (use l [OF that] in simp_all)
      then show ?thesis using Pair Some p by (simp add: ubind_def uwhile_def split: sum.split)
    qed
  qed
qed

lemma ubind_return [simp]: "ubind (ureturn x) f = f x"
  by (simp add: ubind_def ureturn_def fun_eq_iff)

lemma ubind_Some:
  "ubind m f rs = (cs, Some (x, rs')) \<longleftrightarrow>
   (\<exists>as y rs1 bs. m rs = (as, Some (y, rs1)) \<and> f y rs1 = (bs, Some (x, rs')) \<and> cs = as @ bs)"
  by (auto simp: ubind_def split: prod.splits option.splits)

lemma ureturn_iff [simp]: "ureturn x rs = (cs, Some (y, rs')) \<longleftrightarrow> cs = [] \<and> y = x \<and> rs' = rs"
  by (auto simp: ureturn_def)

lemma uwhile_step:
  "busy body \<Longrightarrow> body s rs = (cs, Some (Inl s', rs')) \<Longrightarrow> uwhile body s rs = (case uwhile body s' rs' of (ds, r) \<Rightarrow> (cs @ ds, r))"
  by (simp add: uwhile_unfold [of body s] ubind_def)

lemma uwhile_stop: "busy body \<Longrightarrow> body s rs = (cs, Some (Inr x, rs')) \<Longrightarrow> uwhile body s rs = (cs, Some (x, rs'))"
  by (simp add: uwhile_unfold [of body s] ubind_def ureturn_def)

text \<open>
  Programs that take a reply whenever they return, and programs that take back none. They show that the loops of this
  development have enough fuel.
\<close>

definition eats :: "('c, 'r, 'a) prog \<Rightarrow> bool" where
  "eats m \<longleftrightarrow> (\<forall>rs cs x rs'. m rs = (cs, Some (x, rs')) \<longrightarrow> length rs' < length rs)"

definition mild :: "('c, 'r, 'a) prog \<Rightarrow> bool" where
  "mild m \<longleftrightarrow> (\<forall>rs cs x rs'. m rs = (cs, Some (x, rs')) \<longrightarrow> length rs' \<le> length rs)"

lemma eats_mild [simp]: "eats m \<Longrightarrow> mild m"
  unfolding eats_def mild_def by (meson less_imp_le)

lemma busy_eats: "(\<And>s. eats (body s)) \<Longrightarrow> busy body"
  unfolding eats_def busy_def by blast

lemma mild_simps [simp]: "mild (ureturn x)" "mild (emit c)" "mild (\<lambda>rs. ([], None))" "eats (ucall c)"
  by (auto simp: mild_def eats_def emit_def) (auto simp: ucall_def split: list.splits)

lemma mild_bind: "mild m \<Longrightarrow> (\<And>x. mild (f x)) \<Longrightarrow> mild (ubind m f)"
  unfolding mild_def by (auto simp: ubind_Some) (meson order_trans)

lemma eats_bind1: "eats m \<Longrightarrow> (\<And>x. mild (f x)) \<Longrightarrow> eats (ubind m f)"
  unfolding mild_def eats_def by (auto simp: ubind_Some) (meson le_less_trans)

lemma eats_bind2: "mild m \<Longrightarrow> (\<And>x. eats (f x)) \<Longrightarrow> eats (ubind m f)"
  unfolding mild_def eats_def by (auto simp: ubind_Some) (meson less_le_trans)

lemma mild_uloop: "(\<And>s. mild (body s)) \<Longrightarrow> mild (uloop n body s)"
proof (induction n arbitrary: s)
  case (Suc n)
  then have "mild (ubind (body s) (\<lambda>r. case r of Inl s' \<Rightarrow> uloop n body s' | Inr x \<Rightarrow> ureturn x))"
    by (intro mild_bind) (auto split: sum.split)
  then show ?case by (simp add: mild_def)
qed (simp add: mild_def)

lemma mild_uwhile: "(\<And>s. mild (body s)) \<Longrightarrow> mild (uwhile body s)"
  unfolding mild_def uwhile_def using mild_uloop [of body, unfolded mild_def] by blast


end
