(* ===== verification/User.thy ===== *)
theory User
  imports Printf Interact
begin

text \<open>
  User programs above the system call interface. A program is run against the replies of the kernel to its
  system calls: \<open>'a uprog\<close> maps the replies that are still to come to the calls the program makes and, unless it
  has exited or waits for a reply that does not come, its result and the replies left. The programs
  modelled are \<^verbatim>\<open>cat\<close>, \<^verbatim>\<open>wc\<close>, \<^verbatim>\<open>echo\<close>, \<^verbatim>\<open>kill\<close>, \<^verbatim>\<open>ln\<close>, \<^verbatim>\<open>rm\<close>, \<^verbatim>\<open>mkdir\<close>, \<^verbatim>\<open>zombie\<close>, \<^verbatim>\<open>init\<close>, \<^verbatim>\<open>forktest\<close> and \<^verbatim>\<open>stressfs\<close>.
\<close>

section \<open>Programs and system calls\<close>

datatype scall =
    COpen string int | CClose int | CRead int int | CWrite int string | CFork | CExec string "string list" | CWait
  | CExit | CKill int | CLink string string | CUnlink string | CMkdir string | CMknod string int int | CDup int
  | CSleep int | CPipe | CChdir string | CFstat int | CStat string | CSbrk int

datatype reply = RInt int | RBytes string | RPair int int | RStat int int int

type_synonym 'a uprog = "(scall, reply, 'a) prog"

definition exit_prog :: "'a uprog" where "exit_prog rs = ([CExit], None)"

text \<open>A call whose result is an \<^verbatim>\<open>int\<close>, and \<^verbatim>\<open>read\<close>, whose reply is the bytes it stores or an error.\<close>

definition usys :: "scall \<Rightarrow> int uprog" where
  "usys c = ubind (ucall c) (\<lambda>r. case r of RInt n \<Rightarrow> ureturn n | _ \<Rightarrow> (\<lambda>rs. ([], None)))"

definition uread :: "int \<Rightarrow> int \<Rightarrow> (int \<times> string) uprog" where
  "uread fd n = ubind (ucall (CRead fd n)) (\<lambda>r. case r of
     RBytes b \<Rightarrow> ureturn (int (length b), b) | RInt k \<Rightarrow> if k \<le> 0 then ureturn (k, []) else (\<lambda>rs. ([], None)) | _ \<Rightarrow> (\<lambda>rs. ([], None)))"

text \<open>\<^verbatim>\<open>printf\<close>: one \<^verbatim>\<open>write\<close> of one byte for every character; the results are ignored.\<close>

fun uputs :: "int \<Rightarrow> string \<Rightarrow> unit uprog" where
  "uputs fd [] = ureturn ()"
| "uputs fd (c # cs) = ubind (ucall (CWrite fd [c])) (\<lambda>_. uputs fd cs)"

definition uprintf :: "int \<Rightarrow> string \<Rightarrow> parg list \<Rightarrow> unit uprog" where
  "uprintf fd fmt args = (case uformat False fmt args of None \<Rightarrow> (\<lambda>rs. ([], None)) | Some out \<Rightarrow> uputs fd out)"

definition eol :: string where "eol = [CHR 0x0A]"

section \<open>Programs that read files\<close>

definition cat_round :: "int \<Rightarrow> unit \<Rightarrow> (unit + int) uprog" where
  "cat_round fd _ =
     ubind (uread fd 512) (\<lambda>(n, b).
       if n > 0 then
         ubind (usys (CWrite 1 b)) (\<lambda>k.
           if k \<noteq> n then ubind (uprintf 1 (''cat: write error'' @ eol) []) (\<lambda>_. exit_prog)
           else ureturn (Inl ()))
       else ureturn (Inr n))"

definition cat :: "int \<Rightarrow> unit uprog" where
  "cat fd = ubind (uwhile (cat_round fd) ()) (\<lambda>n.
     if n < 0 then ubind (uprintf 1 (''cat: read error'' @ eol) []) (\<lambda>_. exit_prog) else ureturn ())"

text \<open>The loop of \<^verbatim>\<open>main\<close> over its arguments, shared by \<^verbatim>\<open>cat\<close> and \<^verbatim>\<open>wc\<close>: open each file and pass it to \<open>f\<close>.\<close>

fun each_file :: "string \<Rightarrow> (int \<Rightarrow> string \<Rightarrow> unit uprog) \<Rightarrow> string list \<Rightarrow> unit uprog" where
  "each_file me f [] = exit_prog"
| "each_file me f (p # ps) =
     ubind (usys (COpen p 0)) (\<lambda>fd.
       if fd < 0 then ubind (uprintf 1 (me @ '': cannot open %s'' @ eol) [PStr (Some p)]) (\<lambda>_. exit_prog)
       else ubind (f fd p) (\<lambda>_. ubind (ucall (CClose fd)) (\<lambda>_. each_file me f ps)))"

definition cat_main :: "string list \<Rightarrow> unit uprog" where
  "cat_main argv = (if length argv \<le> 1 then ubind (cat 0) (\<lambda>_. exit_prog)
     else each_file ''cat'' (\<lambda>fd _. cat fd) (tl argv))"

record counts =
  wc_l :: int
  wc_w :: int
  wc_c :: int
  wc_inword :: bool

definition wc_space :: "char \<Rightarrow> bool" where
  "wc_space x \<longleftrightarrow> x \<in> {CHR '' '', CHR 0x0D, CHR 0x09, CHR 0x0A, CHR 0x0B}"

definition wc_char :: "char \<Rightarrow> counts \<Rightarrow> counts" where
  "wc_char x k =
     (let k = k\<lparr>wc_c := wc_c k + 1\<rparr>;
          k = (if x = CHR 0x0A then k\<lparr>wc_l := wc_l k + 1\<rparr> else k)
      in if wc_space x then k\<lparr>wc_inword := False\<rparr>
         else if \<not> wc_inword k then k\<lparr>wc_w := wc_w k + 1, wc_inword := True\<rparr> else k)"

definition wc_start :: counts where
  "wc_start = \<lparr>wc_l = 0, wc_w = 0, wc_c = 0, wc_inword = False\<rparr>"

definition wc_round :: "int \<Rightarrow> counts \<Rightarrow> (counts + (int \<times> counts)) uprog" where
  "wc_round fd k = ubind (uread fd 512) (\<lambda>(n, b). if n > 0 then ureturn (Inl (fold wc_char b k)) else ureturn (Inr (n, k)))"

definition wc_fmt :: string where "wc_fmt = ''%d %d %d %s'' @ eol"

definition wc :: "int \<Rightarrow> string \<Rightarrow> unit uprog" where
  "wc fd name = ubind (uwhile (wc_round fd) wc_start) (\<lambda>(n, k).
     if n < 0 then ubind (uprintf 1 (''wc: read error'' @ eol) []) (\<lambda>_. exit_prog)
     else uprintf 1 wc_fmt [PInt (word_of_int (wc_l k)), PInt (word_of_int (wc_w k)), PInt (word_of_int (wc_c k)), PStr (Some name)])"

definition wc_main :: "string list \<Rightarrow> unit uprog" where
  "wc_main argv = (if length argv \<le> 1 then ubind (wc 0 []) (\<lambda>_. exit_prog) else each_file ''wc'' wc (tl argv))"

section \<open>Small programs\<close>

fun echo_args :: "string list \<Rightarrow> unit uprog" where
  "echo_args [] = exit_prog"
| "echo_args (x # xs) =
     ubind (uprintf 1 ''%s%s'' [PStr (Some x), PStr (Some (if xs \<noteq> [] then '' '' else eol))]) (\<lambda>_. echo_args xs)"

definition echo_main :: "string list \<Rightarrow> unit uprog" where
  "echo_main argv = echo_args (tl argv)"

fun kill_args :: "string list \<Rightarrow> unit uprog" where
  "kill_args [] = exit_prog"
| "kill_args (x # xs) = ubind (ucall (CKill (atoi x))) (\<lambda>_. kill_args xs)"

definition kill_main :: "string list \<Rightarrow> unit uprog" where
  "kill_main argv = (if length argv < 2 then ubind (uprintf 2 (''usage: kill pid...'' @ eol) []) (\<lambda>_. exit_prog)
     else kill_args (tl argv))"

definition ln_main :: "string list \<Rightarrow> unit uprog" where
  "ln_main argv = (if length argv \<noteq> 3 then ubind (uprintf 2 (''Usage: ln old new'' @ eol) []) (\<lambda>_. exit_prog)
     else ubind (usys (CLink (argv ! 1) (argv ! 2))) (\<lambda>r.
       if r < 0 then ubind (uprintf 2 (''link %s %s: failed'' @ eol) [PStr (Some (argv ! 1)), PStr (Some (argv ! 2))]) (\<lambda>_. exit_prog)
       else exit_prog))"

fun rm_args :: "string list \<Rightarrow> unit uprog" where
  "rm_args [] = exit_prog"
| "rm_args (x # xs) = ubind (usys (CUnlink x)) (\<lambda>r.
     if r < 0 then ubind (uprintf 2 (''rm: %s failed to delete'' @ eol) [PStr (Some x)]) (\<lambda>_. exit_prog) else rm_args xs)"

definition rm_main :: "string list \<Rightarrow> unit uprog" where
  "rm_main argv = (if length argv < 2 then ubind (uprintf 2 (''Usage: rm files...'' @ eol) []) (\<lambda>_. exit_prog)
     else rm_args (tl argv))"

fun mkdir_args :: "string list \<Rightarrow> unit uprog" where
  "mkdir_args [] = exit_prog"
| "mkdir_args (x # xs) = ubind (usys (CMkdir x)) (\<lambda>r.
     if r < 0 then ubind (uprintf 2 (''mkdir: %s failed to create'' @ eol) [PStr (Some x)]) (\<lambda>_. exit_prog) else mkdir_args xs)"

definition mkdir_main :: "string list \<Rightarrow> unit uprog" where
  "mkdir_main argv = (if length argv < 2 then ubind (uprintf 2 (''Usage: mkdir files...'' @ eol) []) (\<lambda>_. exit_prog)
     else mkdir_args (tl argv))"

definition zombie_main :: "unit uprog" where
  "zombie_main = ubind (usys CFork) (\<lambda>pid. if pid > 0 then ubind (ucall (CSleep 5)) (\<lambda>_. exit_prog) else exit_prog)"

definition O_RDONLY_u :: int where "O_RDONLY_u = 0"
definition O_RDWR_u :: int where "O_RDWR_u = 2"
definition O_CREATE_u :: int where "O_CREATE_u = 0x200"

text \<open>\<^verbatim>\<open>init\<close>: the inner loop waits until the shell it started exits, or there is no child left.\<close>

definition init_wait :: "int \<Rightarrow> unit \<Rightarrow> (unit + unit) uprog" where
  "init_wait pid _ = ubind (usys CWait) (\<lambda>wpid.
     if wpid \<ge> 0 \<and> wpid \<noteq> pid then ubind (uprintf 1 (''zombie!'' @ eol) []) (\<lambda>_. ureturn (Inl ())) else ureturn (Inr ()))"

definition init_round :: "unit \<Rightarrow> (unit + unit) uprog" where
  "init_round _ =
     ubind (uprintf 1 (''init: starting sh'' @ eol) []) (\<lambda>_.
     ubind (usys CFork) (\<lambda>pid.
       if pid < 0 then ubind (uprintf 1 (''init: fork failed'' @ eol) []) (\<lambda>_. exit_prog)
       else if pid = 0 then
         ubind (ucall (CExec ''sh'' [''sh''])) (\<lambda>_.
         ubind (uprintf 1 (''init: exec sh failed'' @ eol) []) (\<lambda>_. exit_prog))
       else ubind (uwhile (init_wait pid) ()) (\<lambda>_. ureturn (Inl ()))))"

definition init_main :: "unit uprog" where
  "init_main =
     ubind (usys (COpen ''console'' O_RDWR_u)) (\<lambda>fd.
     ubind (if fd < 0 then
              ubind (ucall (CMknod ''console'' 1 1)) (\<lambda>_. ubind (ucall (COpen ''console'' O_RDWR_u)) (\<lambda>_. ureturn ()))
            else ureturn ()) (\<lambda>_.
     ubind (ucall (CDup 0)) (\<lambda>_. ubind (ucall (CDup 0)) (\<lambda>_. uwhile init_round ()))))"

text \<open>\<^verbatim>\<open>forktest\<close>, with a \<^verbatim>\<open>printf\<close> of its own: one write. The result of the first loop is the value of \<^verbatim>\<open>n\<close> after it.\<close>

definition ft_print :: "string \<Rightarrow> unit uprog" where
  "ft_print s = ubind (ucall (CWrite 1 s)) (\<lambda>_. ureturn ())"

fun ft_forks :: "nat \<Rightarrow> nat \<Rightarrow> nat uprog" where
  "ft_forks 0 n = ureturn n"
| "ft_forks (Suc k) n = ubind (usys CFork) (\<lambda>pid.
     if pid < 0 then ureturn n else if pid = 0 then exit_prog else ft_forks k (Suc n))"

fun ft_waits :: "nat \<Rightarrow> unit uprog" where
  "ft_waits 0 = ureturn ()"
| "ft_waits (Suc n) = ubind (usys CWait) (\<lambda>r.
     if r < 0 then ubind (ft_print (''wait stopped early'' @ eol)) (\<lambda>_. exit_prog) else ft_waits n)"

definition forktest :: "unit uprog" where
  "forktest =
     ubind (ft_print (''fork test'' @ eol)) (\<lambda>_.
     ubind (ft_forks 1000 0) (\<lambda>n.
       if n = 1000 then ubind (ft_print (''fork claimed to work N times!'' @ eol)) (\<lambda>_. exit_prog)
       else
         ubind (ft_waits n) (\<lambda>_.
         ubind (usys CWait) (\<lambda>r.
           if r \<noteq> -1 then ubind (ft_print (''wait got too many'' @ eol)) (\<lambda>_. exit_prog)
           else ft_print (''fork test OK'' @ eol)))))"

definition forktest_main :: "unit uprog" where
  "forktest_main = ubind forktest (\<lambda>_. exit_prog)"

text \<open>\<^verbatim>\<open>stressfs\<close>.\<close>

fun sf_forks :: "nat \<Rightarrow> nat \<Rightarrow> nat uprog" where
  "sf_forks 0 i = ureturn i"
| "sf_forks (Suc k) i = ubind (usys CFork) (\<lambda>pid. if pid > 0 then ureturn i else sf_forks k (Suc i))"

fun urepeat :: "nat \<Rightarrow> scall \<Rightarrow> unit uprog" where
  "urepeat 0 c = ureturn ()"
| "urepeat (Suc n) c = ubind (ucall c) (\<lambda>_. urepeat n c)"

definition stressfs_main :: "unit uprog" where
  "stressfs_main =
     ubind (uprintf 1 (''stressfs starting'' @ eol) []) (\<lambda>_.
     ubind (sf_forks 4 0) (\<lambda>i.
     ubind (uprintf 1 (''write %d'' @ eol) [PInt (word_of_nat i)]) (\<lambda>_.
     let path = ''stressfs'' @ [char_of (48 + i)]; data = replicate 512 (CHR ''a'') in
     ubind (usys (COpen path (O_CREATE_u + O_RDWR_u))) (\<lambda>fd.
     ubind (urepeat 20 (CWrite fd data)) (\<lambda>_.
     ubind (ucall (CClose fd)) (\<lambda>_.
     ubind (uprintf 1 (''read'' @ eol) []) (\<lambda>_.
     ubind (usys (COpen path O_RDONLY_u)) (\<lambda>fd.
     ubind (urepeat 20 (CRead fd 512)) (\<lambda>_.
     ubind (ucall (CClose fd)) (\<lambda>_.
     ubind (ucall CWait) (\<lambda>_. exit_prog)))))))))))"

section \<open>What \<^verbatim>\<open>cat\<close> and \<^verbatim>\<open>wc\<close> do\<close>

named_theorems user_simps

lemma uread_bytes [user_simps]: "ubind (uread fd n) f (RBytes b # rs) = (case f (int (length b), b) rs of (cs, r) \<Rightarrow> (CRead fd n # cs, r))"
  by (simp add: uread_def ubind_def ucall_def ureturn_def split: prod.split)

lemma uread_int [user_simps]: "k \<le> 0 \<Longrightarrow> ubind (uread fd n) f (RInt k # rs) = (case f (k, []) rs of (cs, r) \<Rightarrow> (CRead fd n # cs, r))"
  by (simp add: uread_def ubind_def ucall_def ureturn_def split: prod.split)

lemma usys_int [user_simps]: "ubind (usys c) f (RInt k # rs) = (case f k rs of (cs, r) \<Rightarrow> (c # cs, r))"
  by (simp add: usys_def ubind_def ucall_def ureturn_def split: prod.split)

lemma uread_less: "uread fd n rs = (cs, Some (x, rs')) \<Longrightarrow> length rs' < length rs"
  by (auto simp: uread_def ubind_def ucall_def ureturn_def split: list.splits reply.splits if_splits)

lemma busy_uread:
  assumes "\<And>s p rs cs r rs'. f s p rs = (cs, Some (r, rs')) \<Longrightarrow> length rs' \<le> length rs"
  shows "busy (\<lambda>s. ubind (uread fd (n s)) (f s))"
  unfolding busy_def
proof (intro allI impI)
  fix s rs cs s' rs'
  assume "ubind (uread fd (n s)) (f s) rs = (cs, Some (Inl s', rs'))"
  then obtain ds x rs1 es where "uread fd (n s) rs = (ds, Some (x, rs1))" "f s x rs1 = (es, Some (Inl s', rs'))"
    by (auto simp: ubind_def split: prod.splits option.splits)
  then show "length rs' < length rs" using uread_less [of fd "n s" rs] assms by (meson less_le_trans le_less_trans)
qed

lemma usys_le: "usys c rs = (cs, Some (x, rs')) \<Longrightarrow> length rs' < length rs"
  by (auto simp: usys_def ubind_def ucall_def ureturn_def split: list.splits reply.splits)

lemma exit_not_Some [simp]: "exit_prog rs \<noteq> (cs, Some p)"
  by (simp add: exit_prog_def)

lemma busy_cat: "busy (cat_round fd)"
  unfolding cat_round_def
  by (rule busy_uread) (auto simp: ubind_Some dest: usys_le split: prod.splits if_splits)

lemma busy_wc: "busy (wc_round fd)"
  unfolding wc_round_def by (rule busy_uread) (auto split: prod.splits if_splits)

lemma mild_calls [simp]: "mild exit_prog" "eats (usys c)" "eats (uread fd n)"
  by (auto simp: mild_def eats_def dest: usys_le uread_less)

lemma mild_uputs: "mild (uputs fd s)"
  by (induction s) (simp_all add: mild_bind)

lemma mild_uprintf [simp]: "mild (uprintf fd fmt args)"
  by (cases "uformat False fmt args") (simp_all add: uprintf_def mild_uputs)

lemma busy_init: "busy (init_wait pid)" "busy init_round"
proof -
  have w: "eats (init_wait pid s)" for pid s
    unfolding init_wait_def by (rule eats_bind1) (auto intro!: mild_bind)
  then show "busy (init_wait pid)" by (rule busy_eats)
  have "mild (uwhile (init_wait pid) ())" for pid by (rule mild_uwhile) (simp add: w)
  then have "eats (init_round s)" for s
    unfolding init_round_def by (intro eats_bind2 eats_bind1) (auto intro!: mild_bind)
  then show "busy init_round" by (rule busy_eats)
qed

lemma cat_round_eof: "cat_round fd () (RInt 0 # rs) = ([CRead fd 512], Some (Inr 0, rs))"
  by (simp add: cat_round_def uread_int ureturn_def)

lemma cat_round_copy:
  "b \<noteq> [] \<Longrightarrow> cat_round fd () (RBytes b # RInt (int (length b)) # rs) = ([CRead fd 512, CWrite 1 b], Some (Inl (), rs))"
  by (simp add: cat_round_def uread_bytes usys_int ureturn_def)

lemma wc_round_eof: "wc_round fd k (RInt 0 # rs) = ([CRead fd 512], Some (Inr (0, k), rs))"
  by (simp add: wc_round_def uread_int ureturn_def)

lemma wc_round_more: "b \<noteq> [] \<Longrightarrow> wc_round fd k (RBytes b # rs) = ([CRead fd 512], Some (Inl (fold wc_char b k), rs))"
  by (simp add: wc_round_def uread_bytes ureturn_def)

text \<open>
  \<^verbatim>\<open>cat\<close> copies: if \<^verbatim>\<open>read\<close> returns the pieces \<open>bs\<close> one after another and then the end of the file, and every write is
  complete, it writes these pieces to the standard output, in order, and nothing else.
\<close>

theorem cat_copies:
  assumes "[] \<notin> set bs"
  shows "cat fd (concat (map (\<lambda>b. [RBytes b, RInt (int (length b))]) bs) @ RInt 0 # rs) =
    (concat (map (\<lambda>b. [CRead fd 512, CWrite 1 b]) bs) @ [CRead fd 512], Some ((), rs))"
proof -
  have "uwhile (cat_round fd) () (concat (map (\<lambda>b. [RBytes b, RInt (int (length b))]) bs) @ RInt 0 # rs) =
    (concat (map (\<lambda>b. [CRead fd 512, CWrite 1 b]) bs) @ [CRead fd 512], Some (0, rs))"
    using assms
  proof (induction bs)
    case Nil
    show ?case using uwhile_stop [OF busy_cat cat_round_eof] by simp
  next
    case (Cons b bs)
    then have "b \<noteq> []" by auto
    then show ?case using Cons uwhile_step [OF busy_cat cat_round_copy, of b] by simp
  qed
  then show ?thesis by (simp add: cat_def ubind_def ureturn_def)
qed

theorem cat_copies_witness:
  "cat 3 [RBytes ''ab'', RInt 2, RBytes ''c'', RInt 1, RInt 0] =
   ([CRead 3 512, CWrite 1 ''ab'', CRead 3 512, CWrite 1 ''c'', CRead 3 512], Some ((), []))"
  using cat_copies [of "[''ab'', ''c'']" 3 "[]"] by simp

text \<open>The reference for \<^verbatim>\<open>wc\<close>: a word starts at a character that is not a space and follows a space or nothing.\<close>

definition word_starts :: "string \<Rightarrow> nat set" where
  "word_starts t = {i. i < length t \<and> \<not> wc_space (t ! i) \<and> (i = 0 \<or> wc_space (t ! (i - 1)))}"

lemma word_starts_snoc:
  "word_starts (t @ [x]) = word_starts t \<union> (if \<not> wc_space x \<and> (t = [] \<or> wc_space (last t)) then {length t} else {})"
  by (cases "t = []") (auto simp: word_starts_def nth_append last_conv_nth less_Suc_eq)

lemma finite_word_starts [simp]: "finite (word_starts t)" "length t \<notin> word_starts t"
  by (simp_all add: word_starts_def)

lemma wc_fold:
  "fold wc_char t wc_start = \<lparr>wc_l = int (count_list t (CHR 0x0A)), wc_w = int (card (word_starts t)), wc_c = int (length t),
     wc_inword = (t \<noteq> [] \<and> \<not> wc_space (last t))\<rparr>"
proof (induction t rule: rev_induct)
  case Nil
  then show ?case by (simp add: wc_start_def word_starts_def)
next
  case (snoc x t)
  have "wc_space (CHR 0x0A)" by (simp add: wc_space_def)
  then show ?case using snoc by (auto simp: wc_char_def Let_def word_starts_snoc)
qed

text \<open>
  C35. \<^verbatim>\<open>wc\<close> counts the newlines, the words and the bytes of its input, however \<^verbatim>\<open>read\<close> cuts it into pieces.
\<close>

theorem wc_counts:
  assumes "[] \<notin> set bs"
  shows "\<exists>cs k. uwhile (wc_round fd) wc_start (map RBytes bs @ RInt 0 # rs) = (cs, Some ((0, k), rs)) \<and>
    wc_l k = int (count_list (concat bs) (CHR 0x0A)) \<and> wc_w k = int (card (word_starts (concat bs))) \<and> wc_c k = int (length (concat bs))"
proof -
  have "uwhile (wc_round fd) k (map RBytes bs @ RInt 0 # rs) = (replicate (Suc (length bs)) (CRead fd 512), Some ((0, fold wc_char (concat bs) k), rs))" for k
    using assms
  proof (induction bs arbitrary: k)
    case Nil
    show ?case using uwhile_stop [OF busy_wc wc_round_eof] by simp
  next
    case (Cons b bs)
    then have "b \<noteq> []" by auto
    then show ?case using Cons uwhile_step [OF busy_wc wc_round_more, of b] by simp
  qed
  then show ?thesis by (simp add: wc_fold)
qed

theorem wc_counts_witness:
  "\<exists>cs k. uwhile (wc_round 0) wc_start [RBytes ''one tw'', RBytes (''o'' @ eol), RInt 0] = (cs, Some ((0, k), [])) \<and> wc_c k = 8"
proof -
  obtain cs k where "uwhile (wc_round 0) wc_start (map RBytes [''one tw'', ''o'' @ eol] @ [RInt 0]) = (cs, Some ((0, k), []))"
      "wc_c k = int (length (concat [''one tw'', ''o'' @ eol]))"
    using wc_counts [of "[''one tw'', ''o'' @ eol]" 0 "[]"] by auto
  then show ?thesis by (auto simp: eol_def)
qed

end
