(* ===== verification/Grep.thy ===== *)
theory Grep
  imports User
begin

text \<open>
  The user program \<^verbatim>\<open>src/grep.c\<close>: the matcher of Kernighan and Pike, and the loop that reads a file line by
  line. A C string is the list of its characters without the terminating zero. The reference is the
  language of a pattern; the matcher decides it.
\<close>

section \<open>The matcher\<close>

function matchhere :: "string \<Rightarrow> string \<Rightarrow> bool" and matchstar :: "char \<Rightarrow> string \<Rightarrow> string \<Rightarrow> bool" where
  "matchhere [] str = True"
| "matchhere (c # re) str =
     (if re \<noteq> [] \<and> hd re = CHR ''*'' then matchstar c (tl re) str
      else if c = CHR ''$'' \<and> re = [] then str = []
      else if str \<noteq> [] \<and> (c = CHR ''.'' \<or> c = hd str) then matchhere re (tl str)
      else False)"
| "matchstar c re str =
     (if matchhere re str then True
      else if str \<noteq> [] \<and> (hd str = c \<or> c = CHR ''.'') then matchstar c re (tl str)
      else False)"
  by pat_completeness auto
termination
  by (relation "measure (\<lambda>x. case x of Inl (re, str) \<Rightarrow> length re + length str
        | Inr (c, re, str) \<Rightarrow> Suc (length re + length str))")
     (auto simp: neq_Nil_conv)

declare matchhere.simps(2) [simp del] matchstar.simps [simp del]

fun match_scan :: "string \<Rightarrow> string \<Rightarrow> bool" where
  "match_scan re str = (if matchhere re str then True else (case str of [] \<Rightarrow> False | _ # ts \<Rightarrow> match_scan re ts))"

declare match_scan.simps [simp del]

definition match :: "string \<Rightarrow> string \<Rightarrow> bool" where
  "match re str = (if re \<noteq> [] \<and> hd re = CHR ''^'' then matchhere (tl re) str else match_scan re str)"

section \<open>The language of a pattern\<close>

datatype item = One char | Many char

text \<open>The items of a pattern, and whether it ends with the anchor \<^verbatim>\<open>$\<close>.\<close>

fun parse_pat :: "string \<Rightarrow> item list \<times> bool" where
  "parse_pat [] = ([], False)"
| "parse_pat [c] = (if c = CHR ''$'' then ([], True) else ([One c], False))"
| "parse_pat (c # d # re) =
     (if d = CHR ''*'' then (let (is, b) = parse_pat re in (Many c # is, b))
      else (let (is, b) = parse_pat (d # re) in (One c # is, b)))"

definition fits_char :: "char \<Rightarrow> char \<Rightarrow> bool" where
  "fits_char c t \<longleftrightarrow> c = CHR ''.'' \<or> c = t"

fun lang :: "item list \<Rightarrow> string set" where
  "lang [] = {[]}"
| "lang (One c # is) = {t # w | t w. fits_char c t \<and> w \<in> lang is}"
| "lang (Many c # is) = {u @ w | u w. (\<forall>t \<in> set u. fits_char c t) \<and> w \<in> lang is}"

text \<open>A prefix of the text is in the language; the whole text if the pattern is anchored at the end.\<close>

definition begins :: "item list \<times> bool \<Rightarrow> string \<Rightarrow> bool" where
  "begins p str \<longleftrightarrow> (\<exists>pre post. str = pre @ post \<and> pre \<in> lang (fst p) \<and> (if snd p then post = [] else True))"

lemma beginsI: "str = pre @ post \<Longrightarrow> pre \<in> lang is \<Longrightarrow> if b then post = [] else True \<Longrightarrow> begins (is, b) str"
  unfolding begins_def by (intro exI [of _ pre] exI [of _ post]) simp

lemma beginsE:
  assumes "begins (is, b) str"
  obtains pre post where "str = pre @ post" "pre \<in> lang is" "if b then post = [] else True"
  using assms by (auto simp: begins_def)

lemma lang_Many: "(\<And>t. t \<in> set u \<Longrightarrow> fits_char c t) \<Longrightarrow> w \<in> lang is \<Longrightarrow> u @ w \<in> lang (Many c # is)"
  by auto

lemma begins_One: "begins (One c # is, b) str \<longleftrightarrow> str \<noteq> [] \<and> fits_char c (hd str) \<and> begins (is, b) (tl str)" (is "?l = ?r")
proof
  assume ?l
  then obtain pre post where s: "str = pre @ post" "pre \<in> lang (One c # is)" "if b then post = [] else True" by (rule beginsE)
  then obtain t w where "pre = t # w" "fits_char c t" "w \<in> lang is" by auto
  then show ?r using s beginsI [of "w @ post" w post "is" b] by simp
next
  assume r: ?r
  then obtain pre post where "tl str = pre @ post" "pre \<in> lang is" "if b then post = [] else True" by (blast elim: beginsE)
  then show ?l using r by (intro beginsI [of str "hd str # pre" post]) (auto simp: list.expand)
qed

lemma begins_Many:
  "begins (Many c # is, b) str \<longleftrightarrow>
   begins (is, b) str \<or> str \<noteq> [] \<and> fits_char c (hd str) \<and> begins (Many c # is, b) (tl str)" (is "?l = ?r")
proof
  assume ?l
  then obtain pre post where s: "str = pre @ post" "pre \<in> lang (Many c # is)" "if b then post = [] else True" by (rule beginsE)
  then obtain u w where u: "pre = u @ w" "\<forall>t \<in> set u. fits_char c t" "w \<in> lang is" by auto
  show ?r
  proof (cases u)
    case Nil
    then show ?thesis using s u beginsI [of str w post "is" b] by simp
  next
    case (Cons t v)
    have "begins (Many c # is, b) (v @ w @ post)"
      by (rule beginsI [of _ "v @ w" post]) (use s u Cons in \<open>auto intro!: lang_Many simp del: lang.simps\<close>)
    then show ?thesis using Cons u s by simp
  qed
next
  assume ?r
  then show ?l
  proof
    assume "begins (is, b) str"
    then obtain pre post where "str = pre @ post" "pre \<in> lang is" "if b then post = [] else True" by (rule beginsE)
    then show ?thesis using lang_Many [of "[]" c pre "is"] by (intro beginsI [of str pre post]) simp_all
  next
    assume a: "str \<noteq> [] \<and> fits_char c (hd str) \<and> begins (Many c # is, b) (tl str)"
    then obtain pre post where s: "tl str = pre @ post" "pre \<in> lang (Many c # is)" "if b then post = [] else True" by (blast elim: beginsE)
    then obtain u w where u: "pre = u @ w" "\<forall>t \<in> set u. fits_char c t" "w \<in> lang is" by auto
    have "(hd str # u) @ w \<in> lang (Many c # is)" by (rule lang_Many) (use a u in auto)
    moreover have "str = ((hd str # u) @ w) @ post" using a s u by (metis append_Cons append_assoc list.collapse)
    ultimately show ?thesis using s(3) by (intro beginsI)
  qed
qed

lemma begins_Nil: "begins ([], b) str \<longleftrightarrow> (if b then str = [] else True)"
  by (simp add: begins_def)

lemma matchhere_begins: "matchhere re str \<longleftrightarrow> begins (parse_pat re) str"
  and matchstar_begins: "matchstar c re str \<longleftrightarrow> begins (Many c # fst (parse_pat re), snd (parse_pat re)) str"
proof (induction re str and c re str rule: matchhere_matchstar.induct)
  case (1 str)
  then show ?case by (simp add: begins_Nil)
next
  case (2 c re str)
  then show ?case
    by (cases re) (auto simp: matchhere.simps(2) begins_One begins_Nil fits_char_def split: prod.split)
next
  case (3 c re str)
  then show ?case
    by (subst matchstar.simps, subst begins_Many) (auto simp: fits_char_def)
qed

lemma match_scan_iff: "match_scan re str \<longleftrightarrow> (\<exists>pre post. str = pre @ post \<and> matchhere re post)"
proof (induction str)
  case Nil
  then show ?case by (subst match_scan.simps) simp
next
  case (Cons t ts)
  have "match_scan re (t # ts) \<longleftrightarrow> matchhere re (t # ts) \<or> match_scan re ts" by (subst match_scan.simps) simp
  also have "\<dots> \<longleftrightarrow> (\<exists>pre post. t # ts = pre @ post \<and> matchhere re post)"
    unfolding Cons.IH by (auto simp: Cons_eq_append_conv)
  finally show ?case .
qed

text \<open>The parts of a pattern: whether it starts with \<^verbatim>\<open>^\<close>, and the rest.\<close>

definition bol :: "string \<Rightarrow> bool" where "bol re \<longleftrightarrow> re \<noteq> [] \<and> hd re = CHR ''^''"

definition body :: "string \<Rightarrow> item list \<times> bool" where
  "body re = parse_pat (if bol re then tl re else re)"

text \<open>
  C33. The matcher of \<^verbatim>\<open>grep\<close> decides its patterns: it reports a match exactly if some part of the text is in the
  language of the pattern, at the start of the text if the pattern begins with \<^verbatim>\<open>^\<close>, and at its end if it
  ends with \<^verbatim>\<open>$\<close>. It terminates on every pattern and text.
\<close>

theorem match_decides:
  "match re str = (\<exists>pre mid post. str = pre @ mid @ post \<and> mid \<in> lang (fst (body re)) \<and>
     (if bol re then pre = [] else True) \<and> (if snd (body re) then post = [] else True))"
proof (cases "bol re")
  case True
  then have "match re str \<longleftrightarrow> begins (body re) str" by (simp add: match_def bol_def body_def matchhere_begins)
  then show ?thesis using True by (simp add: begins_def)
next
  case False
  then have "match re str \<longleftrightarrow> (\<exists>pre rest. str = pre @ rest \<and> begins (body re) rest)"
    by (auto simp: match_def bol_def body_def match_scan_iff matchhere_begins)
  then show ?thesis using False by (auto simp: begins_def)
qed

section \<open>Reading lines\<close>

text \<open>
  \<^verbatim>\<open>strchr(p, '\n')\<close>: the distance to the first newline before the end of the string, which the first zero byte ends.
\<close>

definition nl :: char where "nl = CHR 0x0A"

definition strchr_nl :: "string \<Rightarrow> nat option" where
  "strchr_nl p = (let z = takeWhile (\<lambda>c. c \<noteq> CHR 0x00) p; k = length (takeWhile (\<lambda>c. c \<noteq> nl) z) in
     if k < length z then Some k else None)"

lemma strchr_nl_less: "strchr_nl p = Some k \<Longrightarrow> k < length p"
  using length_takeWhile_le [of _ p] by (auto simp: strchr_nl_def Let_def split: if_splits intro: less_le_trans)

text \<open>The inner loop: the lines it writes, and the bytes from \<^verbatim>\<open>p\<close> to the end of the buffer.\<close>

function grep_lines :: "string \<Rightarrow> string \<Rightarrow> string list \<times> string" where
  "grep_lines pat p =
     (case strchr_nl p of
        None \<Rightarrow> ([], p)
      | Some k \<Rightarrow>
          let (out, rest) = grep_lines pat (drop (Suc k) p)
          in (if match pat (take k p) then take (Suc k) p # out else out, rest))"
  by pat_completeness auto
termination
  by (relation "measure (\<lambda>(pat, p). length p)") (auto dest: strchr_nl_less)

declare grep_lines.simps [simp del]

text \<open>
  The outer loop. \<open>buf\<close> is the part of \<^verbatim>\<open>buf\<close> below \<^verbatim>\<open>m\<close>, \<open>reads\<close> what the successive calls of \<^verbatim>\<open>read\<close> return: the loop
  ends with the first that returns nothing. If no line ended in the buffer its contents are dropped.
\<close>

fun grep :: "string \<Rightarrow> string \<Rightarrow> string list \<Rightarrow> string list" where
  "grep pat buf [] = []"
| "grep pat buf (r # reads) =
     (if r = [] then []
      else let b = buf @ r; (out, rest) = grep_lines pat b
        in out @ grep pat (if length rest = length b then [] else rest) reads)"

text \<open>The same loop as a program: it asks for as much as the buffer still holds besides the terminating zero.\<close>

fun grep_writes :: "string list \<Rightarrow> unit uprog" where
  "grep_writes [] = ureturn ()"
| "grep_writes (l # ls) = ubind (ucall (CWrite 1 l)) (\<lambda>_. grep_writes ls)"

definition grep_round :: "string \<Rightarrow> int \<Rightarrow> string \<Rightarrow> (string + unit) uprog" where
  "grep_round pat fd buf =
     ubind (uread fd (1024 - int (length buf) - 1)) (\<lambda>(n, r).
       if n > 0 then
         let b = buf @ r; (out, rest) = grep_lines pat b
         in ubind (grep_writes out) (\<lambda>_. ureturn (Inl (if length rest = length b then [] else rest)))
       else ureturn (Inr ()))"

definition grep_fd :: "string \<Rightarrow> int \<Rightarrow> unit uprog" where
  "grep_fd pat fd = uwhile (grep_round pat fd) []"

definition grep_main :: "string list \<Rightarrow> unit uprog" where
  "grep_main argv =
     (if length argv \<le> 1 then ubind (uprintf 2 (''usage: grep pattern [file ...]'' @ eol) []) (\<lambda>_. exit_prog)
      else let pat = argv ! 1 in
        if length argv \<le> 2 then ubind (grep_fd pat 0) (\<lambda>_. exit_prog)
        else each_file ''grep'' (\<lambda>fd _. grep_fd pat fd) (drop 2 argv))"

text \<open>The replies to the loop when \<^verbatim>\<open>read\<close> returns \<open>reads\<close> and every write succeeds, and the data of the writes of a program.\<close>

fun grep_replies :: "string \<Rightarrow> string \<Rightarrow> string list \<Rightarrow> reply list" where
  "grep_replies pat buf [] = [RInt 0]"
| "grep_replies pat buf (r # reads) =
     (let b = buf @ r; (out, rest) = grep_lines pat b
      in RBytes r # map (\<lambda>l. RInt (int (length l))) out @ grep_replies pat (if length rest = length b then [] else rest) reads)"

fun written :: "scall list \<Rightarrow> string list" where
  "written [] = []"
| "written (CWrite fd l # cs) = l # written cs"
| "written (_ # cs) = written cs"

lemma written_append [simp]: "written (xs @ ys) = written xs @ written ys"
  by (induction xs rule: written.induct) auto

lemma grep_writes_ok: "grep_writes out (map (\<lambda>l. RInt (int (length l))) out @ rs) = (map (CWrite 1) out, Some ((), rs))"
  by (induction out) (simp_all add: ureturn_def ubind_def ucall_def)

lemma grep_writes_le: "grep_writes out rs = (cs, Some (u, rs')) \<Longrightarrow> length rs' \<le> length rs"
  by (induction out arbitrary: rs cs)
     (fastforce simp: ureturn_def ubind_def ucall_def split: list.splits prod.splits option.splits)+

lemma written_writes [simp]: "written (map (CWrite 1) out) = out"
  by (induction out) auto

lemma busy_grep: "busy (grep_round pat fd)"
  unfolding grep_round_def
  by (rule busy_uread) (auto simp: Let_def ubind_Some dest: grep_writes_le split: prod.splits if_splits)

lemma grep_fd_writes:
  assumes "[] \<notin> set reads"
  shows "\<exists>cs. grep_fd pat fd (grep_replies pat [] reads) = (cs, Some ((), [])) \<and> written cs = grep pat [] reads"
proof -
  have "\<exists>cs. uwhile (grep_round pat fd) buf (grep_replies pat buf reads) = (cs, Some ((), [])) \<and> written cs = grep pat buf reads" for buf
    using assms
  proof (induction reads arbitrary: buf)
    case Nil
    have "grep_round pat fd buf [RInt 0] = ([CRead fd (1024 - int (length buf) - 1)], Some (Inr (), []))"
      by (simp add: grep_round_def uread_int ureturn_def)
    then show ?case using uwhile_stop [OF busy_grep] by fastforce
  next
    case (Cons r reads)
    obtain out rest where g: "grep_lines pat (buf @ r) = (out, rest)" by fastforce
    let ?b = "if length rest = length (buf @ r) then [] else rest"
    obtain cs where cs: "uwhile (grep_round pat fd) ?b (grep_replies pat ?b reads) = (cs, Some ((), []))" "written cs = grep pat ?b reads"
      using Cons.IH [of ?b] Cons.prems by auto
    have r: "r \<noteq> []" using Cons.prems by auto
    have "grep_round pat fd buf (grep_replies pat buf (r # reads)) =
        (CRead fd (1024 - int (length buf) - 1) # map (CWrite 1) out, Some (Inl ?b, grep_replies pat ?b reads))"
      using r by (simp add: grep_round_def uread_bytes g ubind_def [of "grep_writes _"] grep_writes_ok ureturn_def)
    from uwhile_step [OF busy_grep this] show ?case using cs r g by (simp add: Let_def)
  qed
  then show ?thesis by (simp add: grep_fd_def)
qed

text \<open>The reference: the complete lines of a text, without their newlines, and what follows the last newline.\<close>

fun full_lines :: "string \<Rightarrow> string \<Rightarrow> string list" where
  "full_lines acc [] = []"
| "full_lines acc (c # cs) = (if c = nl then acc # full_lines [] cs else full_lines (acc @ [c]) cs)"

fun unfinished :: "string \<Rightarrow> string \<Rightarrow> string" where
  "unfinished acc [] = acc"
| "unfinished acc (c # cs) = (if c = nl then unfinished [] cs else unfinished (acc @ [c]) cs)"

lemma full_lines_append: "full_lines acc (xs @ ys) = full_lines acc xs @ full_lines (unfinished acc xs) ys"
  by (induction xs arbitrary: acc) auto

lemma full_lines_prefix: "nl \<notin> set xs \<Longrightarrow> full_lines acc (xs @ ys) = full_lines (acc @ xs) ys \<and> unfinished acc (xs @ ys) = unfinished (acc @ xs) ys"
  by (induction xs arbitrary: acc) auto

lemma strchr_nl_split:
  assumes "CHR 0x00 \<notin> set p"
  shows "case strchr_nl p of None \<Rightarrow> nl \<notin> set p | Some k \<Rightarrow> k < length p \<and> p ! k = nl \<and> nl \<notin> set (take k p)"
proof -
  let ?k = "length (takeWhile (\<lambda>c. c \<noteq> nl) p)"
  have z: "takeWhile (\<lambda>c. c \<noteq> CHR 0x00) p = p" by (rule takeWhile_eq_all_conv [THEN iffD2]) (use assms in blast)
  have s: "strchr_nl p = (if ?k < length p then Some ?k else None)" unfolding strchr_nl_def z Let_def ..
  have t: "take ?k p = takeWhile (\<lambda>c. c \<noteq> nl) p" by (rule takeWhile_eq_take [symmetric])
  show ?thesis
  proof (cases "?k < length p")
    case True
    have "nl \<notin> set (take ?k p)" unfolding t by (blast dest: set_takeWhileD)
    then show ?thesis using True nth_length_takeWhile [OF True] s by simp
  next
    case False
    then have "nl \<notin> set p" using t set_takeWhileD [of nl "\<lambda>c. c \<noteq> nl" p] by auto
    then show ?thesis using False s by simp
  qed
qed

lemma grep_lines_ok:
  "CHR 0x00 \<notin> set p \<Longrightarrow> grep_lines pat p = (map (\<lambda>l. l @ [nl]) (filter (match pat) (full_lines [] p)), unfinished [] p)"
proof (induction pat p rule: grep_lines.induct)
  case (1 pat p)
  show ?case
  proof (cases "strchr_nl p")
    case None
    then have "nl \<notin> set p" using strchr_nl_split [OF 1(2)] by simp
    then show ?thesis using None full_lines_prefix [of p "[]" "[]"] by (subst grep_lines.simps) simp
  next
    case (Some k)
    then have k: "k < length p" "p ! k = nl" "nl \<notin> set (take k p)" using strchr_nl_split [OF 1(2)] by simp_all
    have p: "take k p @ nl # drop (Suc k) p = p" using id_take_nth_drop [OF k(1)] k(2) by simp
    have "CHR 0x00 \<notin> set (drop (Suc k) p)" using 1(2) by (auto dest: in_set_dropD)
    note ih = 1(1) [OF Some this]
    have f: "full_lines [] p = take k p # full_lines [] (drop (Suc k) p)" "unfinished [] p = unfinished [] (drop (Suc k) p)"
      using full_lines_prefix [OF k(3), of "[]" "nl # drop (Suc k) p", unfolded p] by simp_all
    have "take (Suc k) p = take k p @ [nl]" using take_Suc_conv_app_nth [OF k(1)] k(2) by simp
    then show ?thesis using Some ih f by (subst grep_lines.simps) simp
  qed
qed

lemma unfinished_le: "length (unfinished acc p) \<le> length acc + length p"
proof (induction p arbitrary: acc)
  case (Cons c p)
  then show ?case using Cons.IH [of "[]"] Cons.IH [of "acc @ [c]"] by simp
qed simp

lemma unfinished_less: "nl \<in> set p \<Longrightarrow> length (unfinished acc p) < length acc + length p"
proof (induction p arbitrary: acc)
  case (Cons c p)
  then show ?case using unfinished_le [of "[]" p] Cons.IH [of "acc @ [c]"] by auto
qed simp

lemma unfinished_no_nl: "nl \<notin> set p \<Longrightarrow> unfinished acc p = acc @ p"
  by (induction p arbitrary: acc) auto

lemma set_unfinished: "set (unfinished acc p) \<subseteq> set acc \<union> set p"
proof (induction p arbitrary: acc)
  case (Cons c p)
  then show ?case using Cons.IH [of "[]"] Cons.IH [of "acc @ [c]"] by auto
qed simp

lemma unfinished_nl: "nl \<notin> set acc \<Longrightarrow> nl \<notin> set (unfinished acc p)"
  by (induction p arbitrary: acc) auto

lemma grep_lines_of:
  assumes "CHR 0x00 \<notin> set buf" "nl \<notin> set buf" "\<And>r. r \<in> set reads \<Longrightarrow> nl \<in> set r \<and> CHR 0x00 \<notin> set r"
  shows "grep pat buf reads = map (\<lambda>l. l @ [nl]) (filter (match pat) (full_lines [] (buf @ concat reads)))"
  using assms
proof (induction reads arbitrary: buf)
  case Nil
  then show ?case using full_lines_prefix [of buf "[]" "[]"] by simp
next
  case (Cons r reads)
  let ?b = "buf @ r" and ?u = "unfinished [] (buf @ r)"
  have r: "nl \<in> set r" "CHR 0x00 \<notin> set ?b" using Cons.prems(1) Cons.prems(3) [of r] by simp_all
  then have ne: "r \<noteq> []" by auto
  have "CHR 0x00 \<notin> set ?u" "nl \<notin> set ?u" using set_unfinished [of "[]" ?b] r(2) unfinished_nl [of "[]" ?b] by auto
  then have "grep pat ?u reads = map (\<lambda>l. l @ [nl]) (filter (match pat) (full_lines [] (?u @ concat reads)))"
    using Cons.IH [of ?u] Cons.prems(3) by simp
  moreover have "full_lines [] (?u @ concat reads) = full_lines ?u (concat reads)"
    using full_lines_prefix [of ?u "[]" "concat reads"] unfinished_nl [of "[]" ?b] by simp
  moreover have "length ?u < length ?b" using unfinished_less [of ?b "[]"] r(1) by simp
  ultimately show ?case using r ne grep_lines_ok [OF r(2), of pat] full_lines_append [of "[]" ?b "concat reads"]
    by (simp add: Let_def)
qed

text \<open>
  C34. \<^verbatim>\<open>grep\<close> writes exactly the lines of its input that match, in order, each with its newline, however the input is cut into
  reads, if every read brings a newline. A last line without one is not reported.
\<close>

theorem grep_reports_lines:
  assumes "\<And>r. r \<in> set reads \<Longrightarrow> nl \<in> set r \<and> CHR 0x00 \<notin> set r"
  shows "grep pat [] reads = map (\<lambda>l. l @ [nl]) (filter (match pat) (full_lines [] (concat reads)))"
  using grep_lines_of [of "[]" reads pat] assms by simp

theorem grep_reports_lines_witness:
  "grep ''^b.*d$'' [] [''abcd'' @ [nl] @ ''bx'', ''yd'' @ [nl] @ ''bd'' @ [nl]] = [''bxyd'' @ [nl], ''bd'' @ [nl]]"
proof -
  have "grep ''^b.*d$'' [] [''abcd'' @ [nl] @ ''bx'', ''yd'' @ [nl] @ ''bd'' @ [nl]] =
      map (\<lambda>l. l @ [nl]) (filter (match ''^b.*d$'') (full_lines [] (concat [''abcd'' @ [nl] @ ''bx'', ''yd'' @ [nl] @ ''bd'' @ [nl]])))"
    by (rule grep_reports_lines) (auto simp: nl_def)
  also have "\<dots> = [''bxyd'' @ [nl], ''bd'' @ [nl]]" by code_simp
  finally show ?thesis .
qed

text \<open>A read without a newline is lost, together with what was kept from the read before.\<close>

lemma grep_drops_partial_line:
  assumes "CHR 0x00 \<notin> set (buf @ r)" "nl \<notin> set (buf @ r)" "r \<noteq> []"
  shows "grep pat buf (r # reads) = grep pat [] reads"
  using assms grep_lines_ok [OF assms(1), of pat] unfinished_no_nl [OF assms(2), of "[]"] full_lines_prefix [OF assms(2), of "[]" "[]"]
  by simp

end
