(* ===== verification/Sh_Parse.thy ===== *)
theory Sh_Parse
  imports User
begin

text \<open>
  The command parser of the shell, \<^verbatim>\<open>src/sh.c\<close> from \<^verbatim>\<open>gettoken\<close> on. The line is the buffer \<open>b\<close> of the characters before
  \<^verbatim>\<open>es\<close>, where the terminating zero stands; a pointer into it is a position. A command is a tree over its words: the
  parser yields words that are pairs of the positions \<^verbatim>\<open>q\<close> and \<^verbatim>\<open>eq\<close>, the program runs words that are strings. A call of \<^verbatim>\<open>panic\<close>
  is \<open>Inl\<close> with its message. The nodes come from \<^verbatim>\<open>malloc\<close>, whose failure the code does not check. The four mutually
  recursive functions have fuel, and a bound on it is enough for every line.
\<close>

section \<open>Commands and tokens\<close>

datatype 'w cmd =
    EXEC "'w list"
  | REDIR "'w cmd" 'w int int
  | PIPE "'w cmd" "'w cmd"
  | LIST "'w cmd" "'w cmd"
  | BACK "'w cmd"

type_synonym ptr_cmd = "(nat \<times> nat) cmd"

definition MAXARGS :: nat where "MAXARGS = 10"

definition white :: "char \<Rightarrow> bool" where
  "white c \<longleftrightarrow> c \<in> {CHR '' '', CHR 0x09, CHR 0x0D, CHR 0x0A, CHR 0x0B}"

definition symbol :: "char \<Rightarrow> bool" where
  "symbol c \<longleftrightarrow> c \<in> set ''<|>&;()''"

definition wordchar :: "char \<Rightarrow> bool" where
  "wordchar c \<longleftrightarrow> \<not> white c \<and> \<not> symbol c"

text \<open>\<^verbatim>\<open>*s\<close>, and the loop that moves \<^verbatim>\<open>s\<close> over white space.\<close>

definition ch :: "string \<Rightarrow> nat \<Rightarrow> char" where
  "ch b i = (if i < length b then b ! i else CHR 0x00)"

definition skip :: "string \<Rightarrow> nat \<Rightarrow> nat" where
  "skip b p = p + length (takeWhile white (drop p b))"

text \<open>The token, its first position, the position after it, and the new \<^verbatim>\<open>*ps\<close>.\<close>

definition gettoken :: "string \<Rightarrow> nat \<Rightarrow> char \<times> nat \<times> nat \<times> nat" where
  "gettoken b p =
     (let q = skip b p; c = ch b q;
          (ret, e) =
            (if c = CHR 0x00 then (c, q)
             else if c \<in> set ''|();&<'' then (c, Suc q)
             else if c = CHR ''>'' then
               if ch b (Suc q) = CHR ''>'' then (CHR ''+'', Suc (Suc q)) else (c, Suc q)
             else (CHR ''a'', q + length (takeWhile wordchar (drop q b))))
      in (ret, q, e, skip b e))"

definition peek :: "string \<Rightarrow> nat \<Rightarrow> string \<Rightarrow> bool \<times> nat" where
  "peek b p toks = (let q = skip b p in (ch b q \<noteq> CHR 0x00 \<and> ch b q \<in> set toks, q))"

text \<open>\<^verbatim>\<open>gettoken(ps, es, 0, 0)\<close> for its effect on \<^verbatim>\<open>*ps\<close>.\<close>

definition after :: "string \<Rightarrow> nat \<Rightarrow> nat" where
  "after b p = (case gettoken b p of (_, _, _, p') \<Rightarrow> p')"

lemma skip_ge [simp]: "p \<le> skip b p"
  by (simp add: skip_def)

lemma gettoken_ge: "gettoken b p = (t, q, e, p') \<Longrightarrow> p \<le> q \<and> q \<le> e \<and> e \<le> p'"
  by (auto simp: gettoken_def Let_def split: if_splits)

lemma peek_ge: "peek b p toks = (r, p') \<Longrightarrow> p \<le> p'"
  by (auto simp: peek_def Let_def)

lemma drop_skip: "drop (skip b p) b = dropWhile white (drop p b)"
  by (simp add: skip_def dropWhile_eq_drop add.commute)

lemma hd_dropWhile': "dropWhile P xs \<noteq> [] \<Longrightarrow> \<not> P (hd (dropWhile P xs))"
  by (induction xs) auto

lemma ch_skip: "ch b (skip b p) \<noteq> CHR 0x00 \<Longrightarrow> skip b p < length b \<and> \<not> white (ch b (skip b p))"
proof -
  assume "ch b (skip b p) \<noteq> CHR 0x00"
  then have l: "skip b p < length b" by (simp add: ch_def split: if_splits)
  then have n: "dropWhile white (drop p b) \<noteq> []" unfolding drop_skip [symmetric] by simp
  then have "\<not> white (hd (dropWhile white (drop p b)))" by (rule hd_dropWhile')
  then show ?thesis using l drop_skip [of b p] by (simp add: ch_def hd_drop_conv_nth [symmetric])
qed

lemma ch_drop: "ch b p = (case drop p b of [] \<Rightarrow> CHR 0x00 | c # _ \<Rightarrow> c)"
  by (auto simp: ch_def hd_drop_conv_nth [symmetric] split: list.split)

lemma gettoken_advances:
  assumes "gettoken b p = (t, q, e, p')" "t \<noteq> CHR 0x00"
  shows "p < p' \<and> p < length b"
proof -
  have c: "ch b (skip b p) \<noteq> CHR 0x00" using assms by (auto simp: gettoken_def Let_def split: if_splits)
  note s = ch_skip [OF c]
  have "wordchar (ch b (skip b p)) \<or> symbol (ch b (skip b p))" using s by (auto simp: wordchar_def)
  moreover have "drop (skip b p) b = ch b (skip b p) # drop (Suc (skip b p)) b"
    using s by (simp add: ch_def Cons_nth_drop_Suc)
  ultimately have "skip b p < e"
    using assms c by (auto simp: gettoken_def Let_def symbol_def split: if_splits)
  then show ?thesis using gettoken_ge [OF assms(1)] s skip_ge [of p b] by linarith
qed

lemma peek_token: "peek b p toks = (True, p') \<Longrightarrow> p \<le> p' \<and> p' < length b \<and> skip b p' = p' \<and> ch b p' \<in> set toks \<and> ch b p' \<noteq> CHR 0x00"
proof -
  assume "peek b p toks = (True, p')"
  then have p: "p' = skip b p" "ch b p' \<noteq> CHR 0x00" "ch b p' \<in> set toks" by (auto simp: peek_def Let_def)
  note s = ch_skip [OF p(2) [unfolded p(1)]]
  have "skip b (skip b p) = skip b p"
    using s unfolding skip_def [of b "skip b p"] by (auto simp: ch_def takeWhile_eq_Nil_iff hd_drop_conv_nth)
  then show ?thesis using p s by simp
qed

lemma after_less: "peek b p toks = (True, p1) \<Longrightarrow> p < after b p1 \<and> p < length b"
proof -
  assume a: "peek b p toks = (True, p1)"
  obtain t q e p2 where g: "gettoken b p1 = (t, q, e, p2)" by (cases "gettoken b p1") auto
  have "t \<noteq> CHR 0x00" using g peek_token [OF a] by (auto simp: gettoken_def Let_def split: if_splits)
  then show ?thesis using gettoken_advances [OF g] peek_ge [OF a] g by (simp add: after_def)
qed

lemma redirs_progress:
  assumes "peek b p toks = (True, p1)" "gettoken b p1 = (tok, q', e', p2)" "gettoken b p2 = (t, q, e, p3)"
  shows "length b - p3 < length b - p"
proof -
  have "p < after b p1 \<and> p < length b" "p2 \<le> p3" "after b p1 = p2"
    using after_less [OF assms(1)] gettoken_ge [OF assms(3)] assms(2) by (auto simp: after_def)
  then show ?thesis by auto
qed

section \<open>The parser\<close>

text \<open>The constructor \<^verbatim>\<open>redircmd\<close> for the three redirections; \<^verbatim>\<open>>>\<close> opens the file as \<^verbatim>\<open>>\<close> does.\<close>

definition redirected :: "char \<Rightarrow> 'w \<Rightarrow> 'w cmd \<Rightarrow> 'w cmd" where
  "redirected tok w c =
     (if tok = CHR ''<'' then REDIR c w 0 0
      else if tok = CHR ''>'' then REDIR c w 0x201 1
      else if tok = CHR ''+'' then REDIR c w 0x201 1
      else c)"

function parseredirs :: "string \<Rightarrow> ptr_cmd \<Rightarrow> nat \<Rightarrow> string + ptr_cmd \<times> nat" where
  "parseredirs b c p =
     (case peek b p ''<>'' of
        (False, p1) \<Rightarrow> Inr (c, p1)
      | (True, p1) \<Rightarrow>
          (case gettoken b p1 of (tok, _, _, p2) \<Rightarrow>
           case gettoken b p2 of (t, q, e, p3) \<Rightarrow>
             if t \<noteq> CHR ''a'' then Inl ''missing file for redirection''
             else parseredirs b (redirected tok (q, e) c) p3))"
  by pat_completeness auto
termination by (relation "measure (\<lambda>(b, c, p). length b - p)") (auto intro: redirs_progress [OF sym sym sym])

declare parseredirs.simps [simp del]

text \<open>
  \<^verbatim>\<open>cmd->argv[argc] = q; cmd->eargv[argc] = eq\<close>, where \<^verbatim>\<open>cmd\<close> is the \<^verbatim>\<open>execcmd\<close> inside the redirections around it.
\<close>

fun add_arg :: "'w \<Rightarrow> 'w cmd \<Rightarrow> 'w cmd" where
  "add_arg w (EXEC ws) = EXEC (ws @ [w])"
| "add_arg w (REDIR c f m d) = REDIR (add_arg w c) f m d"
| "add_arg w c = c"

text \<open>The loop of \<^verbatim>\<open>parseexec\<close>.\<close>

function parseargs :: "string \<Rightarrow> ptr_cmd \<Rightarrow> nat \<Rightarrow> nat \<Rightarrow> string + ptr_cmd \<times> nat" where
  "parseargs b c argc p =
     (case peek b p ''|)&;'' of
        (True, p1) \<Rightarrow> Inr (c, p1)
      | (False, p1) \<Rightarrow>
          (case gettoken b p1 of (t, q, e, p2) \<Rightarrow>
             if t = CHR 0x00 then Inr (c, p2)
             else if t \<noteq> CHR ''a'' then Inl ''syntax''
             else if Suc argc \<ge> MAXARGS then Inl ''too many args''
             else
               (case parseredirs b (add_arg (q, e) c) p2 of
                  Inl m \<Rightarrow> Inl m
                | Inr (c', p3) \<Rightarrow> parseargs b c' (Suc argc) p3)))"
  by pat_completeness auto
termination by (relation "measure (\<lambda>(b, c, argc, p). MAXARGS - argc)") auto

declare parseargs.simps [simp del]

text \<open>The loop of \<^verbatim>\<open>parseline\<close>.\<close>

function parseback :: "string \<Rightarrow> ptr_cmd \<Rightarrow> nat \<Rightarrow> ptr_cmd \<times> nat" where
  "parseback b c p =
     (case peek b p ''&'' of
        (True, p1) \<Rightarrow> parseback b (BACK c) (after b p1)
      | (False, p1) \<Rightarrow> (c, p1))"
  by pat_completeness auto
termination
proof (relation "measure (\<lambda>(b, c, p). length b - p)", goal_cases)
  case (2 b c p x p1)
  then show ?case using after_less [of b p "''&''" p1] by auto
qed simp

declare parseback.simps [simp del]

text \<open>\<open>None\<close>: out of fuel.\<close>

type_synonym 'a parse = "(string + 'a) option"

definition pbind :: "'a parse \<Rightarrow> ('a \<Rightarrow> 'b parse) \<Rightarrow> 'b parse" where
  "pbind m f = (case m of None \<Rightarrow> None | Some (Inl e) \<Rightarrow> Some (Inl e) | Some (Inr x) \<Rightarrow> f x)"

fun parseline :: "nat \<Rightarrow> string \<Rightarrow> nat \<Rightarrow> (ptr_cmd \<times> nat) parse"
  and parsepipe :: "nat \<Rightarrow> string \<Rightarrow> nat \<Rightarrow> (ptr_cmd \<times> nat) parse"
  and parseexec :: "nat \<Rightarrow> string \<Rightarrow> nat \<Rightarrow> (ptr_cmd \<times> nat) parse"
  and parseblock :: "nat \<Rightarrow> string \<Rightarrow> nat \<Rightarrow> (ptr_cmd \<times> nat) parse" where
  "parseline 0 b p = None"
| "parseline (Suc n) b p =
     pbind (parsepipe n b p) (\<lambda>(c, p1).
       case parseback b c p1 of (c, p2) \<Rightarrow>
       case peek b p2 '';'' of
         (True, p3) \<Rightarrow> pbind (parseline n b (after b p3)) (\<lambda>(c', p4). Some (Inr (LIST c c', p4)))
       | (False, p3) \<Rightarrow> Some (Inr (c, p3)))"
| "parsepipe 0 b p = None"
| "parsepipe (Suc n) b p =
     pbind (parseexec n b p) (\<lambda>(c, p1).
       case peek b p1 ''|'' of
         (True, p2) \<Rightarrow> pbind (parsepipe n b (after b p2)) (\<lambda>(c', p3). Some (Inr (PIPE c c', p3)))
       | (False, p2) \<Rightarrow> Some (Inr (c, p2)))"
| "parseexec 0 b p = None"
| "parseexec (Suc n) b p =
     (case peek b p ''('' of
        (True, p1) \<Rightarrow> parseblock n b p1
      | (False, p1) \<Rightarrow>
          pbind (Some (parseredirs b (EXEC []) p1)) (\<lambda>(c, p2). Some (parseargs b c 0 p2)))"
| "parseblock 0 b p = None"
| "parseblock (Suc n) b p =
     (case peek b p ''('' of
        (False, p1) \<Rightarrow> Some (Inl ''parseblock'')
      | (True, p1) \<Rightarrow>
          pbind (parseline n b (after b p1)) (\<lambda>(c, p2).
            case peek b p2 '')'' of
              (False, p3) \<Rightarrow> Some (Inl ''syntax - missing )'')
            | (True, p3) \<Rightarrow> Some (parseredirs b c (after b p3))))"

text \<open>\<^verbatim>\<open>nulterminate\<close> writes a zero after every word of the buffer.\<close>

fun nulterminate :: "ptr_cmd \<Rightarrow> string \<Rightarrow> string" where
  "nulterminate (EXEC ws) buf = fold (\<lambda>(q, e) buf. buf[e := CHR 0x00]) ws buf"
| "nulterminate (REDIR c (q, e) m d) buf = (nulterminate c buf)[e := CHR 0x00]"
| "nulterminate (PIPE l r) buf = nulterminate r (nulterminate l buf)"
| "nulterminate (LIST l r) buf = nulterminate r (nulterminate l buf)"
| "nulterminate (BACK c) buf = nulterminate c buf"

text \<open>The string a pointer into the buffer points to.\<close>

definition cstr :: "string \<Rightarrow> nat \<Rightarrow> string" where
  "cstr buf q = takeWhile (\<lambda>c. c \<noteq> CHR 0x00) (drop q buf)"

datatype syntax_error = Message string | Leftovers string

definition parse_fuel :: "string \<Rightarrow> nat" where
  "parse_fuel b = 4 * length b + 4"

text \<open>\<^verbatim>\<open>parsecmd\<close>: the tree, and the buffer after \<^verbatim>\<open>nulterminate\<close>.\<close>

definition parsecmd :: "string \<Rightarrow> (syntax_error + ptr_cmd \<times> string) option" where
  "parsecmd b =
     (case parseline (parse_fuel b) b 0 of
        None \<Rightarrow> None
      | Some (Inl m) \<Rightarrow> Some (Inl (Message m))
      | Some (Inr (c, p)) \<Rightarrow>
          (case peek b p [] of (_, p1) \<Rightarrow>
             if p1 \<noteq> length b then Some (Inl (Leftovers (drop p1 b)))
             else Some (Inr (c, nulterminate c (b @ [CHR 0x00])))))"

end
