(* ===== verification/Sh_Props.thy ===== *)
theory Sh_Props
  imports Sh_Parse
begin

text \<open>
  Properties of the parser of the shell: it ends on every line, its words are intervals of the line and its argument
  lists fit the arrays of \<^verbatim>\<open>struct execcmd\<close>, the zeros that \<^verbatim>\<open>nulterminate\<close> writes cut out exactly the words, and
  every command can be written as a line that parses to it.
\<close>

section \<open>What the parser returns\<close>

text \<open>A word of the line: a maximal interval of word characters.\<close>

definition word_at :: "string \<Rightarrow> nat \<times> nat \<Rightarrow> bool" where
  "word_at b w \<longleftrightarrow> (case w of (q, e) \<Rightarrow>
     q < e \<and> e \<le> length b \<and> (\<forall>i < e. q \<le> i \<longrightarrow> wordchar (b ! i)) \<and> (e < length b \<longrightarrow> \<not> wordchar (b ! e)))"

text \<open>Every argument list, with the zero pointer after it, fits an array of \<^verbatim>\<open>MAXARGS\<close> entries.\<close>

fun args_fit :: "'w cmd \<Rightarrow> bool" where
  "args_fit (EXEC ws) \<longleftrightarrow> length ws < MAXARGS"
| "args_fit (REDIR c f m d) \<longleftrightarrow> args_fit c"
| "args_fit (PIPE l r) \<longleftrightarrow> args_fit l \<and> args_fit r"
| "args_fit (LIST l r) \<longleftrightarrow> args_fit l \<and> args_fit r"
| "args_fit (BACK c) \<longleftrightarrow> args_fit c"

fun core :: "'w cmd \<Rightarrow> 'w list option" where
  "core (EXEC ws) = Some ws"
| "core (REDIR c f m d) = core c"
| "core c = None"

definition wf_cmd :: "string \<Rightarrow> ptr_cmd \<Rightarrow> bool" where
  "wf_cmd b c \<longleftrightarrow> args_fit c \<and> (\<forall>w \<in> set_cmd c. word_at b w)"

lemma takeWhile_word:
  assumes "q < length b" "wordchar (b ! q)"
  shows "word_at b (q, q + length (takeWhile wordchar (drop q b)))"
proof -
  let ?t = "takeWhile wordchar (drop q b)"
  have d: "drop q b = b ! q # drop (Suc q) b" using assms(1) by (simp add: Cons_nth_drop_Suc)
  have l: "length ?t \<le> length b - q" using length_takeWhile_le [of wordchar "drop q b"] by simp
  have "wordchar (b ! i)" if "q \<le> i" "i < q + length ?t" for i
  proof -
    have "?t ! (i - q) \<in> set ?t" using that by (intro nth_mem) simp
    moreover have "?t ! (i - q) = b ! i" using that l takeWhile_nth [of "i - q" wordchar "drop q b"] by simp
    ultimately show ?thesis by (auto dest: set_takeWhileD)
  qed
  moreover have "\<not> wordchar (b ! (q + length ?t))" if "q + length ?t < length b"
    using nth_length_takeWhile [of wordchar "drop q b"] that l by simp
  ultimately show ?thesis using d l assms by (auto simp: word_at_def)
qed

lemma token_word:
  assumes "gettoken b p = (CHR ''a'', q, e, p')"
  shows "word_at b (q, e)"
proof -
  let ?c = "ch b (skip b p)"
  have c: "?c \<noteq> CHR 0x00" "?c \<notin> set ''|();&<''" "?c \<noteq> CHR ''>''"
    and q: "q = skip b p" "e = q + length (takeWhile wordchar (drop q b))"
    using assms by (auto simp: gettoken_def Let_def split: if_splits)
  note s = ch_skip [OF c(1)]
  have "wordchar ?c" using s c by (auto simp: wordchar_def symbol_def)
  then show ?thesis using takeWhile_word [of q b] q s by (simp add: ch_def)
qed

lemma redirected_simps [simp]:
  "args_fit (redirected t w c) = args_fit c" "core (redirected t w c) = core c"
  by (auto simp: redirected_def)

lemma wf_redirected: "wf_cmd b c \<Longrightarrow> word_at b w \<Longrightarrow> wf_cmd b (redirected t w c)"
  by (auto simp: wf_cmd_def redirected_def)

lemma parseredirs_wf:
  "parseredirs b c p = Inr (c', p') \<Longrightarrow> wf_cmd b c \<Longrightarrow> p \<le> p' \<and> wf_cmd b c' \<and> core c' = core c"
proof (induction b c p rule: parseredirs.induct)
  case (1 b c p)
  obtain r p1 where pk: "peek b p ''<>'' = (r, p1)" by fastforce
  show ?case
  proof (cases r)
    case True
    obtain tok q' e' p2 where g: "gettoken b p1 = (tok, q', e', p2)" by (cases "gettoken b p1") auto
    obtain t q e p3 where g': "gettoken b p2 = (t, q, e, p3)" by (cases "gettoken b p2") auto
    have t: "t = CHR ''a''" using 1(2) pk True g g' by (subst (asm) parseredirs.simps) (auto split: if_splits)
    have r: "parseredirs b (redirected tok (q, e) c) p3 = Inr (c', p')"
      using 1(2) pk True g g' t by (subst (asm) parseredirs.simps) simp
    have "wf_cmd b (redirected tok (q, e) c)" using wf_redirected [OF 1(3)] token_word g' t by simp
    then have "p3 \<le> p' \<and> wf_cmd b c' \<and> core c' = core c"
      using "1.IH" [OF pk [symmetric]] g g' t r True by simp
    then show ?thesis using peek_ge [OF pk] gettoken_ge [OF g] gettoken_ge [OF g'] by auto
  next
    case False
    then show ?thesis using 1(2,3) pk peek_ge [OF pk] by (subst (asm) parseredirs.simps) auto
  qed
qed

lemma add_arg_simps:
  "core c = Some ws \<Longrightarrow> core (add_arg w c) = Some (ws @ [w]) \<and> set_cmd (add_arg w c) = insert w (set_cmd c) \<and>
     (args_fit (add_arg w c) \<longleftrightarrow> Suc (length ws) < MAXARGS)"
  by (induction c) auto

lemma parseargs_wf:
  "parseargs b c argc p = Inr (c', p') \<Longrightarrow> wf_cmd b c \<Longrightarrow> core c = Some ws \<Longrightarrow> length ws = argc \<Longrightarrow> p \<le> p' \<and> wf_cmd b c'"
proof (induction b c argc p arbitrary: ws rule: parseargs.induct)
  case (1 b c argc p)
  obtain r p1 where pk: "peek b p ''|)&;'' = (r, p1)" by fastforce
  obtain t q e p2 where g: "gettoken b p1 = (t, q, e, p2)" by (cases "gettoken b p1") auto
  note le = peek_ge [OF pk] gettoken_ge [OF g]
  show ?case
  proof (cases "r \<or> t = CHR 0x00")
    case True
    then show ?thesis using 1(2,3) pk g le by (subst (asm) parseargs.simps) (auto split: if_splits bool.splits)
  next
    case False
    have t: "t = CHR ''a''" "Suc argc < MAXARGS"
      using 1(2) pk False g by (auto simp: parseargs.simps [of b c argc p] split: if_splits)
    obtain c1 p3 where r: "parseredirs b (add_arg (q, e) c) p2 = Inr (c1, p3)" "parseargs b c1 (Suc argc) p3 = Inr (c', p')"
      using 1(2) pk False g t by (auto simp: parseargs.simps [of b c argc p] split: sum.splits)
    have "wf_cmd b (add_arg (q, e) c)"
      using 1(3) add_arg_simps [OF 1(4), of "(q, e)"] token_word [of b p1 q e p2] g t 1(5) by (auto simp: wf_cmd_def)
    note w = parseredirs_wf [OF r(1) this]
    have "p3 \<le> p' \<and> wf_cmd b c'"
      by (rule "1.IH" [OF pk [symmetric] _ g [symmetric] refl refl _ _ _ r(1) refl r(2)])
         (use False t w add_arg_simps [OF 1(4), of "(q, e)"] 1(5) in auto)
    then show ?thesis using w le by auto
  qed
qed

lemma parseback_wf: "parseback b c p = (c', p') \<Longrightarrow> p \<le> p' \<and> (wf_cmd b c \<longrightarrow> wf_cmd b c')"
proof (induction b c p rule: parseback.induct)
  case (1 b c p)
  obtain r p1 where pk: "peek b p ''&'' = (r, p1)" by fastforce
  show ?case
  proof (cases r)
    case True
    then have "after b p1 \<le> p' \<and> (wf_cmd b (BACK c) \<longrightarrow> wf_cmd b c')"
      using "1.IH" [OF pk [symmetric]] 1(2) pk by (simp add: parseback.simps [of b c p])
    then show ?thesis using after_less [of b p "''&''" p1] pk True by (auto simp: wf_cmd_def)
  next
    case False
    then show ?thesis using 1(2) pk peek_ge [OF pk] by (subst (asm) parseback.simps) simp
  qed
qed

lemma pbind_Inr: "pbind m f = Some (Inr y) \<longleftrightarrow> (\<exists>x. m = Some (Inr x) \<and> f x = Some (Inr y))"
  by (auto simp: pbind_def split: option.splits sum.splits)

lemma after_ge: "p \<le> after b p"
  using gettoken_ge [of b p] by (fastforce simp: after_def split: prod.splits)

lemma parselineE:
  assumes "parseline (Suc n) b p = Some (Inr (c, p'))"
  obtains c1 p1 c2 p2 c3 p3 where "parsepipe n b p = Some (Inr (c1, p1))" "parseback b c1 p1 = (c2, p2)"
      "peek b p2 '';'' = (True, p3)" "parseline n b (after b p3) = Some (Inr (c3, p'))" "c = LIST c2 c3"
  | c1 p1 p2 where "parsepipe n b p = Some (Inr (c1, p1))" "parseback b c1 p1 = (c, p2)" "peek b p2 '';'' = (False, p')"
proof -
  obtain c1 p1 where 1: "parsepipe n b p = Some (Inr (c1, p1))" using assms by (auto simp: pbind_Inr)
  obtain c2 p2 where 2: "parseback b c1 p1 = (c2, p2)" by fastforce
  obtain r p3 where 3: "peek b p2 '';'' = (r, p3)" by fastforce
  show thesis
  proof (cases r)
    case True
    then obtain c3 where "parseline n b (after b p3) = Some (Inr (c3, p'))" "c = LIST c2 c3"
      using assms 1 2 3 by (auto simp: pbind_Inr)
    then show thesis using that(1) 1 2 3 True by simp
  next
    case False
    then show thesis using that(2) 1 2 3 assms by (auto simp: pbind_Inr)
  qed
qed

lemma parsepipeE:
  assumes "parsepipe (Suc n) b p = Some (Inr (c, p'))"
  obtains c1 p1 c2 p2 where "parseexec n b p = Some (Inr (c1, p1))" "peek b p1 ''|'' = (True, p2)"
      "parsepipe n b (after b p2) = Some (Inr (c2, p'))" "c = PIPE c1 c2"
  | p1 where "parseexec n b p = Some (Inr (c, p1))" "peek b p1 ''|'' = (False, p')"
proof -
  obtain c1 p1 where 1: "parseexec n b p = Some (Inr (c1, p1))" using assms by (auto simp: pbind_Inr)
  obtain r p2 where 2: "peek b p1 ''|'' = (r, p2)" by fastforce
  show thesis
  proof (cases r)
    case True
    then obtain c2 where "parsepipe n b (after b p2) = Some (Inr (c2, p'))" "c = PIPE c1 c2"
      using assms 1 2 by (auto simp: pbind_Inr)
    then show thesis using that(1) 1 2 True by simp
  next
    case False
    then show thesis using that(2) 1 2 assms by (auto simp: pbind_Inr)
  qed
qed

lemma parseexecE:
  assumes "parseexec (Suc n) b p = Some (Inr (c, p'))"
  obtains p1 where "peek b p ''('' = (True, p1)" "parseblock n b p1 = Some (Inr (c, p'))"
  | p1 c1 p2 where "peek b p ''('' = (False, p1)" "parseredirs b (EXEC []) p1 = Inr (c1, p2)" "parseargs b c1 0 p2 = Inr (c, p')"
  using assms by (auto simp: pbind_Inr split: prod.splits bool.splits)

lemma parseblockE:
  assumes "parseblock (Suc n) b p = Some (Inr (c, p'))"
  obtains p1 c1 p2 p3 where "peek b p ''('' = (True, p1)" "parseline n b (after b p1) = Some (Inr (c1, p2))"
    "peek b p2 '')'' = (True, p3)" "parseredirs b c1 (after b p3) = Inr (c, p')"
proof -
  obtain p1 where 1: "peek b p ''('' = (True, p1)" using assms by (auto split: prod.splits bool.splits)
  then obtain c1 p2 where 2: "parseline n b (after b p1) = Some (Inr (c1, p2))" using assms by (auto simp: pbind_Inr)
  then show thesis using that 1 assms by (auto simp: pbind_Inr split: prod.splits bool.splits)
qed

text \<open>The four functions at one amount of fuel.\<close>

definition parse_post :: "string \<Rightarrow> nat \<Rightarrow> (ptr_cmd \<times> nat) parse \<Rightarrow> bool" where
  "parse_post b p r \<longleftrightarrow> (\<forall>c p'. r = Some (Inr (c, p')) \<longrightarrow> p \<le> p' \<and> wf_cmd b c)"

lemma parse_postD: "parse_post b p r \<Longrightarrow> r = Some (Inr (c, p')) \<Longrightarrow> p \<le> p'" "parse_post b p r \<Longrightarrow> r = Some (Inr (c, p')) \<Longrightarrow> wf_cmd b c"
  by (auto simp: parse_post_def)

lemma parse_postI: "(\<And>c p'. r = Some (Inr (c, p')) \<Longrightarrow> p \<le> p' \<and> wf_cmd b c) \<Longrightarrow> parse_post b p r"
  by (simp add: parse_post_def)

lemma wf_cmd_simps [simp]:
  "wf_cmd b (PIPE l r) \<longleftrightarrow> wf_cmd b l \<and> wf_cmd b r" "wf_cmd b (LIST l r) \<longleftrightarrow> wf_cmd b l \<and> wf_cmd b r" "wf_cmd b (BACK c) = wf_cmd b c"
  "wf_cmd b (EXEC [])"
  by (auto simp: wf_cmd_def MAXARGS_def)

lemma parse_wf_all:
  "(\<forall>p. parse_post b p (parseline n b p)) \<and> (\<forall>p. parse_post b p (parsepipe n b p)) \<and>
   (\<forall>p. parse_post b p (parseexec n b p)) \<and> (\<forall>p. parse_post b p (parseblock n b p))"
proof (induction n)
  case (Suc n)
  then have l: "parse_post b p (parseline n b p)" and i: "parse_post b p (parsepipe n b p)"
    and x: "parse_post b p (parseexec n b p)" and k: "parse_post b p (parseblock n b p)" for p by simp_all
  have "parse_post b p (parseline (Suc n) b p)" for p
    by (rule parse_postI, erule parselineE)
       (use parse_postD [OF l] parse_postD [OF i] after_ge [of _ b] parseback_wf peek_ge in \<open>simp, meson order_trans\<close>)+
  moreover have "parse_post b p (parsepipe (Suc n) b p)" for p
    by (rule parse_postI, erule parsepipeE)
       (use parse_postD [OF x] parse_postD [OF i] after_ge [of _ b] peek_ge in \<open>simp, meson order_trans\<close>)+
  moreover have "parse_post b p (parseexec (Suc n) b p)" for p
  proof (rule parse_postI, erule parseexecE)
    fix c p' p1 assume "peek b p ''('' = (True, p1)" "parseblock n b p1 = Some (Inr (c, p'))"
    then show "p \<le> p' \<and> wf_cmd b c" using parse_postD [OF k] peek_ge by (meson order_trans)
  next
    fix c p' p1 c1 p2 assume a: "peek b p ''('' = (False, p1)" "parseredirs b (EXEC []) p1 = Inr (c1, p2)" "parseargs b c1 0 p2 = Inr (c, p')"
    then show "p \<le> p' \<and> wf_cmd b c"
      using parseredirs_wf [OF a(2)] parseargs_wf [OF a(3)] peek_ge [OF a(1)] by auto
  qed
  moreover have "parse_post b p (parseblock (Suc n) b p)" for p
  proof (rule parse_postI, erule parseblockE)
    fix c p' p1 c1 p2 p3
    assume a: "peek b p ''('' = (True, p1)" "parseline n b (after b p1) = Some (Inr (c1, p2))"
      "peek b p2 '')'' = (True, p3)" "parseredirs b c1 (after b p3) = Inr (c, p')"
    show "p \<le> p' \<and> wf_cmd b c"
      using parse_postD [OF l a(2)] peek_ge [OF a(1)] peek_ge [OF a(3)] parseredirs_wf [OF a(4)] after_ge [of p1 b] after_ge [of p3 b] by auto
  qed
  ultimately show ?case by blast
qed (simp add: parse_post_def)

lemma parsed:
  "parseline n b p = Some (Inr (c, p')) \<Longrightarrow> p \<le> p' \<and> wf_cmd b c"
  "parsepipe n b p = Some (Inr (c, p')) \<Longrightarrow> p \<le> p' \<and> wf_cmd b c"
  "parseexec n b p = Some (Inr (c, p')) \<Longrightarrow> p \<le> p' \<and> wf_cmd b c"
  "parseblock n b p = Some (Inr (c, p')) \<Longrightarrow> p \<le> p' \<and> wf_cmd b c"
  using parse_wf_all [of b n] unfolding parse_post_def by blast+

section \<open>The fuel is enough\<close>

lemma pbind_None: "pbind m f = None \<longleftrightarrow> m = None \<or> (\<exists>x. m = Some (Inr x) \<and> f x = None)"
  by (auto simp: pbind_def split: option.splits sum.splits)

lemma pbind_total: "pbind m f = None \<Longrightarrow> (\<And>x. f x \<noteq> None) \<Longrightarrow> m = None"
  by (auto simp: pbind_None)

lemma parse_ends_all:
  "(\<forall>p. 4 * (length b - p) + 4 \<le> n \<longrightarrow> parseline n b p \<noteq> None) \<and> (\<forall>p. 4 * (length b - p) + 3 \<le> n \<longrightarrow> parsepipe n b p \<noteq> None) \<and>
   (\<forall>p. 4 * (length b - p) + 2 \<le> n \<longrightarrow> parseexec n b p \<noteq> None) \<and> (\<forall>p. 4 * (length b - p) + 1 \<le> n \<longrightarrow> parseblock n b p \<noteq> None)"
proof (induction n)
  case (Suc n)
  then have l: "4 * (length b - p) + 4 \<le> n \<Longrightarrow> parseline n b p \<noteq> None" and i: "4 * (length b - p) + 3 \<le> n \<Longrightarrow> parsepipe n b p \<noteq> None"
    and x: "4 * (length b - p) + 2 \<le> n \<Longrightarrow> parseexec n b p \<noteq> None" and k: "4 * (length b - p) + 1 \<le> n \<Longrightarrow> parseblock n b p \<noteq> None" for p
    by simp_all
  have "parseline (Suc n) b p \<noteq> None" if f: "4 * (length b - p) + 4 \<le> Suc n" for p
  proof
    assume "parseline (Suc n) b p = None"
    then obtain c1 p1 where 1: "parsepipe n b p = Some (Inr (c1, p1))"
      and r: "(case parseback b c1 p1 of (c, p2) \<Rightarrow> case peek b p2 '';'' of
         (True, p3) \<Rightarrow> pbind (parseline n b (after b p3)) (\<lambda>(c', p4). Some (Inr (LIST c c', p4))) | (False, p3) \<Rightarrow> Some (Inr (c, p3))) = None"
      using i [of p] f by (auto simp: pbind_None)
    obtain c2 p2 where 2: "parseback b c1 p1 = (c2, p2)" by fastforce
    obtain p3 where 3: "peek b p2 '';'' = (True, p3)" "parseline n b (after b p3) = None"
      using r 2 by (auto simp: pbind_None split: prod.splits bool.splits)
    have "4 * (length b - after b p3) + 4 \<le> n" using parsed(2) [OF 1] parseback_wf [OF 2] after_less [OF 3(1)] f by auto
    then show False using l 3(2) by blast
  qed
  moreover have "parsepipe (Suc n) b p \<noteq> None" if f: "4 * (length b - p) + 3 \<le> Suc n" for p
  proof
    assume "parsepipe (Suc n) b p = None"
    moreover have "parseexec n b p \<noteq> None" using x [of p] f by simp
    ultimately obtain y where y: "parseexec n b p = Some (Inr y)"
      and r: "(case y of (c1, p1) \<Rightarrow> case peek b p1 ''|'' of (True, p2) \<Rightarrow> pbind (parsepipe n b (after b p2)) (\<lambda>(c', p3). Some (Inr (PIPE c1 c', p3)))
         | (False, p2) \<Rightarrow> Some (Inr (c1, p2))) = None"
      unfolding parsepipe.simps(2) pbind_None by blast
    obtain c1 p1 where 1: "y = (c1, p1)" by fastforce
    obtain p2 where 2: "peek b p1 ''|'' = (True, p2)" "parsepipe n b (after b p2) = None"
      using r 1 by (auto simp: pbind_None split: prod.splits bool.splits)
    have "4 * (length b - after b p2) + 3 \<le> n" using parsed(3) [OF y [unfolded 1]] after_less [OF 2(1)] f by auto
    then show False using i 2(2) by blast
  qed
  moreover have "parseexec (Suc n) b p \<noteq> None" if f: "4 * (length b - p) + 2 \<le> Suc n" for p
  proof
    assume "parseexec (Suc n) b p = None"
    then obtain p1 where 1: "peek b p ''('' = (True, p1)" "parseblock n b p1 = None"
      by (auto simp: pbind_None split: prod.splits bool.splits)
    have "4 * (length b - p1) + 1 \<le> n" using peek_ge [OF 1(1)] f by auto
    then show False using k 1(2) by blast
  qed
  moreover have "parseblock (Suc n) b p \<noteq> None" if f: "4 * (length b - p) + 1 \<le> Suc n" for p
  proof
    assume n: "parseblock (Suc n) b p = None"
    obtain r p1 where pk: "peek b p ''('' = (r, p1)" by fastforce
    have r: r using n pk by (cases r) auto
    have "parseline n b (after b p1) = None"
    proof (rule pbind_total)
      show "pbind (parseline n b (after b p1)) (\<lambda>(c, p2). case peek b p2 '')'' of
          (False, p3) \<Rightarrow> Some (Inl ''syntax - missing )'') | (True, p3) \<Rightarrow> Some (parseredirs b c (after b p3))) = None"
        using n pk r by simp
    qed (simp split: prod.split bool.split)
    with pk r have 1: "peek b p ''('' = (True, p1)" "parseline n b (after b p1) = None" by simp_all
    have "4 * (length b - after b p1) + 4 \<le> n" using after_less [OF 1(1)] f by auto
    then show False using l 1(2) by blast
  qed
  ultimately show ?case by blast
qed simp

text \<open>More fuel does not change a result.\<close>

definition refines :: "'a option \<Rightarrow> 'a option \<Rightarrow> bool" where
  "refines m m' \<longleftrightarrow> m = None \<or> m' = m"

lemma refines_pbind: "refines m m' \<Longrightarrow> (\<And>x. refines (f x) (f' x)) \<Longrightarrow> refines (pbind m f) (pbind m' f')"
  by (auto simp: refines_def pbind_def split: option.splits sum.splits)

lemma refines_Some [simp]: "refines (Some x) (Some x)" "refines None m"
  by (simp_all add: refines_def)

lemma parse_more_fuel_all:
  "(\<forall>p. refines (parseline n b p) (parseline (Suc n) b p)) \<and> (\<forall>p. refines (parsepipe n b p) (parsepipe (Suc n) b p)) \<and>
   (\<forall>p. refines (parseexec n b p) (parseexec (Suc n) b p)) \<and> (\<forall>p. refines (parseblock n b p) (parseblock (Suc n) b p))"
proof (induction n)
  case (Suc n)
  have "refines (parseline (Suc n) b p) (parseline (Suc (Suc n)) b p)" for p
    unfolding parseline.simps(2) [of n] parseline.simps(2) [of "Suc n"]
    using Suc by (intro refines_pbind) (auto intro!: refines_pbind split: prod.split bool.split)
  moreover have "refines (parsepipe (Suc n) b p) (parsepipe (Suc (Suc n)) b p)" for p
    unfolding parsepipe.simps(2) [of n] parsepipe.simps(2) [of "Suc n"]
    using Suc by (intro refines_pbind) (auto intro!: refines_pbind split: prod.split bool.split)
  moreover have "refines (parseexec (Suc n) b p) (parseexec (Suc (Suc n)) b p)" for p
    unfolding parseexec.simps(2) [of n] parseexec.simps(2) [of "Suc n"]
    using Suc by (auto simp: refines_def split: prod.split bool.split)
  moreover have "refines (parseblock (Suc n) b p) (parseblock (Suc (Suc n)) b p)" for p
    unfolding parseblock.simps(2) [of n] parseblock.simps(2) [of "Suc n"]
    using Suc by (auto intro!: refines_pbind split: prod.split bool.split)
  ultimately show ?case by blast
qed simp

lemma parseline_fuel:
  assumes "parse_fuel b \<le> n"
  shows "parseline n b 0 = parseline (parse_fuel b) b 0"
  using assms
proof (induction n rule: dec_induct)
  case (step n)
  have "parseline n b 0 \<noteq> None" using parse_ends_all [of b n] step(1) unfolding parse_fuel_def by (metis diff_zero)
  moreover have "refines (parseline n b 0) (parseline (Suc n) b 0)" using parse_more_fuel_all by blast
  ultimately show ?case using step.IH unfolding refines_def by metis
qed simp

text \<open>
  C26. The parser of the shell ends on every line: the recursion of \<^verbatim>\<open>parseline\<close>, \<^verbatim>\<open>parsepipe\<close>, \<^verbatim>\<open>parseexec\<close> and \<^verbatim>\<open>parseblock\<close> is never
  deeper than four calls for every character, whatever the line, and more depth does not change the result.
\<close>

theorem parse_terminates:
  "parsecmd b \<noteq> None \<and> (n \<ge> parse_fuel b \<longrightarrow> parseline n b 0 = parseline (parse_fuel b) b 0)"
proof -
  have "parseline (parse_fuel b) b 0 \<noteq> None" using parse_ends_all [of b "parse_fuel b"] by (simp add: parse_fuel_def)
  then show ?thesis using parseline_fuel [of b n] by (auto simp: parsecmd_def split: sum.split prod.split)
qed

theorem parse_terminates_witness:
  "parsecmd ''((a|b)&c'' \<noteq> None \<and> parseline 100 ''((a|b)&c'' 0 = parseline (parse_fuel ''((a|b)&c'') ''((a|b)&c'' 0"
  using parse_terminates [of "''((a|b)&c''" 100] by (simp add: parse_fuel_def)

section \<open>The parser stays in the line\<close>

lemma skip_le: "p \<le> length b \<Longrightarrow> skip b p \<le> length b"
  using length_takeWhile_le [of white "drop p b"] by (simp add: skip_def)

lemma gettoken_le:
  assumes "gettoken b p = (t, q, e, p')" "p \<le> length b"
  shows "p' \<le> length b"
proof -
  have s: "skip b p \<le> length b" using skip_le [OF assms(2)] .
  have c: "ch b i \<noteq> CHR 0x00 \<Longrightarrow> Suc i \<le> length b" for i by (simp add: ch_def split: if_splits)
  have w: "skip b p + length (takeWhile wordchar (drop (skip b p) b)) \<le> length b"
    using length_takeWhile_le [of wordchar "drop (skip b p) b"] s by simp
  have "e \<le> length b" using assms(1) s w c [of "skip b p"] c [of "Suc (skip b p)"] by (auto simp: gettoken_def Let_def split: if_splits)
  then show ?thesis using assms(1) skip_le [of e b] by (auto simp: gettoken_def Let_def split: if_splits)
qed

lemma peek_le: "peek b p toks = (r, p') \<Longrightarrow> p \<le> length b \<Longrightarrow> p' \<le> length b"
  using skip_le [of p b] by (auto simp: peek_def Let_def)

lemma after_le: "p \<le> length b \<Longrightarrow> after b p \<le> length b"
  using gettoken_le [of b p] by (auto simp: after_def split: prod.splits)

lemma parseredirs_le: "parseredirs b c p = Inr (c', p') \<Longrightarrow> p \<le> length b \<Longrightarrow> p' \<le> length b"
proof (induction b c p rule: parseredirs.induct)
  case (1 b c p)
  obtain r p1 where pk: "peek b p ''<>'' = (r, p1)" by fastforce
  obtain tok q' e' p2 where g: "gettoken b p1 = (tok, q', e', p2)" by (cases "gettoken b p1") auto
  obtain t q e p3 where g': "gettoken b p2 = (t, q, e, p3)" by (cases "gettoken b p2") auto
  note le = peek_le [OF pk 1(3)]
  note le' = gettoken_le [OF g' gettoken_le [OF g le]]
  show ?case
  proof (cases r)
    case True
    then have "t = CHR ''a''" "parseredirs b (redirected tok (q, e) c) p3 = Inr (c', p')"
      using 1(2) pk g g' by (auto simp: parseredirs.simps [of b c p] split: if_splits)
    then show ?thesis using "1.IH" [OF pk [symmetric] True [THEN eqTrueI] g [symmetric] refl refl g' [symmetric] refl refl] le' by simp
  next
    case False
    then show ?thesis using 1(2) pk le by (simp add: parseredirs.simps [of b c p])
  qed
qed

lemma parseargs_le: "parseargs b c n p = Inr (c', p') \<Longrightarrow> p \<le> length b \<Longrightarrow> p' \<le> length b"
proof (induction b c n p rule: parseargs.induct)
  case (1 b c n p)
  obtain r p1 where pk: "peek b p ''|)&;'' = (r, p1)" by fastforce
  obtain t q e p2 where g: "gettoken b p1 = (t, q, e, p2)" by (cases "gettoken b p1") auto
  note le = peek_le [OF pk 1(3)]
  note le' = gettoken_le [OF g le]
  show ?case
  proof (cases "r \<or> t = CHR 0x00")
    case True
    then show ?thesis using 1(2) pk g le le' by (auto simp: parseargs.simps [of b c n p] split: bool.splits if_splits)
  next
    case False
    have t: "t = CHR ''a''" "Suc n < MAXARGS"
      using 1(2) pk False g by (auto simp: parseargs.simps [of b c n p] split: if_splits)
    obtain c1 p3 where r: "parseredirs b (add_arg (q, e) c) p2 = Inr (c1, p3)" "parseargs b c1 (Suc n) p3 = Inr (c', p')"
      using 1(2) pk False g t by (auto simp: parseargs.simps [of b c n p] split: sum.splits)
    show ?thesis
      by (rule "1.IH" [OF pk [symmetric] _ g [symmetric] refl refl _ _ _ r(1) refl r(2) parseredirs_le [OF r(1) le']])
         (use False t in auto)
  qed
qed

lemma parseback_le: "parseback b c p = (c', p') \<Longrightarrow> p \<le> length b \<Longrightarrow> p' \<le> length b"
proof (induction b c p rule: parseback.induct)
  case (1 b c p)
  obtain r p1 where pk: "peek b p ''&'' = (r, p1)" by fastforce
  note le = peek_le [OF pk 1(3)]
  show ?case
  proof (cases r)
    case True
    then show ?thesis using "1.IH" [OF pk [symmetric]] 1(2) pk after_le [OF le] by (simp add: parseback.simps [of b c p])
  next
    case False
    then show ?thesis using 1(2) pk le by (simp add: parseback.simps [of b c p])
  qed
qed

definition stays :: "string \<Rightarrow> (nat \<Rightarrow> (ptr_cmd \<times> nat) parse) \<Rightarrow> bool" where
  "stays b f \<longleftrightarrow> (\<forall>p c p'. f p = Some (Inr (c, p')) \<longrightarrow> p \<le> length b \<longrightarrow> p' \<le> length b)"

lemma staysD: "stays b f \<Longrightarrow> f p = Some (Inr (c, p')) \<Longrightarrow> p \<le> length b \<Longrightarrow> p' \<le> length b"
  unfolding stays_def by blast

lemma parse_le_all: "stays b (parseline n b) \<and> stays b (parsepipe n b) \<and> stays b (parseexec n b) \<and> stays b (parseblock n b)"
proof (induction n)
  case 0
  show ?case by (simp add: stays_def)
next
  case (Suc n)
  then have l: "stays b (parseline n b)" and i: "stays b (parsepipe n b)" and x: "stays b (parseexec n b)" and k: "stays b (parseblock n b)"
    by simp_all
  have "stays b (parseline (Suc n) b)"
    unfolding stays_def by (intro allI impI, erule parselineE) (blast dest: staysD [OF i] staysD [OF l] parseback_le peek_le after_le)+
  moreover have "stays b (parsepipe (Suc n) b)"
    unfolding stays_def by (intro allI impI, erule parsepipeE) (blast dest: staysD [OF i] staysD [OF x] peek_le after_le)+
  moreover have "stays b (parseexec (Suc n) b)"
    unfolding stays_def by (intro allI impI, erule parseexecE) (blast dest: staysD [OF k] peek_le parseredirs_le parseargs_le)+
  moreover have "stays b (parseblock (Suc n) b)"
    unfolding stays_def by (intro allI impI, erule parseblockE) (blast dest: staysD [OF l] peek_le parseredirs_le intro: after_le)
  ultimately show ?case by blast
qed

section \<open>The words of a command\<close>

definition text_of :: "string \<Rightarrow> nat \<times> nat \<Rightarrow> string" where
  "text_of b w = (case w of (q, e) \<Rightarrow> take (e - q) (drop q b))"

lemma nulterminate_args:
  "length (fold (\<lambda>(q, e) buf. buf[e := CHR 0x00]) ws buf) = length buf"
  "i < length buf \<Longrightarrow> fold (\<lambda>(q, e) buf. buf[e := CHR 0x00]) ws buf ! i = (if \<exists>q. (q, i) \<in> set ws then CHR 0x00 else buf ! i)"
  by (induction ws arbitrary: buf) (auto simp: nth_upd)

lemma length_nulterminate [simp]: "length (nulterminate c buf) = length buf"
  by (induction c buf rule: nulterminate.induct) (simp_all add: nulterminate_args(1))

lemma nulterminate_nth:
  "i < length buf \<Longrightarrow> nulterminate c buf ! i = (if \<exists>q. (q, i) \<in> set_cmd c then CHR 0x00 else buf ! i)"
  by (induction c buf rule: nulterminate.induct) (auto simp: nulterminate_args(2) nth_upd)

lemma cstr_word:
  assumes "\<forall>w \<in> set_cmd c. word_at b w" "(q, e) \<in> set_cmd c" "CHR 0x00 \<notin> set b"
  shows "cstr (nulterminate c (b @ [CHR 0x00])) q = text_of b (q, e)"
proof -
  let ?buf = "nulterminate c (b @ [CHR 0x00])"
  have w: "q < e" "e \<le> length b" "\<And>i. q \<le> i \<Longrightarrow> i < e \<Longrightarrow> wordchar (b ! i)" using assms by (auto simp: word_at_def)
  have e: "?buf ! e = CHR 0x00" using w assms(2) nulterminate_nth [of e "b @ [CHR 0x00]" c] by force
  have "?buf ! i = b ! i" if "q \<le> i" "i < e" for i
  proof -
    have "\<not> wordchar (b ! i)" if "(q', i) \<in> set_cmd c" for q' using assms(1) that w(2) \<open>i < e\<close> by (fastforce simp: word_at_def)
    then have "(q', i) \<notin> set_cmd c" for q' using w(3) [OF that] by blast
    then show ?thesis using that w nulterminate_nth [of i "b @ [CHR 0x00]" c] by (simp add: nth_append)
  qed
  then have t: "take (e - q) (drop q ?buf) = take (e - q) (drop q b)"
    using w by (intro nth_equalityI) simp_all
  have "drop q ?buf = take (e - q) (drop q ?buf) @ CHR 0x00 # drop (Suc e) ?buf"
    using w e id_take_nth_drop [of "e - q" "drop q ?buf"] by simp
  then have "drop q ?buf = text_of b (q, e) @ CHR 0x00 # drop (Suc e) ?buf" unfolding t text_of_def by simp
  moreover have "c \<noteq> CHR 0x00" if "c \<in> set (text_of b (q, e))" for c
    using that assms(3) by (auto simp: text_of_def dest: in_set_takeD in_set_dropD)
  ultimately show ?thesis unfolding cstr_def by (simp add: takeWhile_append2)
qed



section \<open>Writing commands\<close>

text \<open>
  A line for a command. The level says where it stands: 0 a line, 1 before \<^verbatim>\<open>&\<close>, 2 a pipeline, 3 a part of a pipeline; a command
  that may not stand there is put into parentheses.
\<close>

definition paren :: "bool \<Rightarrow> string \<Rightarrow> string" where
  "paren y s = (if y then ''( '' @ s @ '') '' else s)"

definition print_redir :: "string \<times> int \<times> int \<Rightarrow> string" where
  "print_redir r = (case r of (f, m, d) \<Rightarrow> (if d = 0 then ''< '' else ''> '') @ f @ '' '')"

fun unparse :: "nat \<Rightarrow> string cmd \<Rightarrow> string" where
  "unparse k (EXEC ws) = concat (map (\<lambda>w. w @ '' '') ws)"
| "unparse k (REDIR c f m d) = unparse 3 c @ print_redir (f, m, d)"
| "unparse k (PIPE l r) = paren (k > 2) (unparse 3 l @ ''| '' @ unparse 2 r)"
| "unparse k (BACK c) = paren (k > 1) (unparse 1 c @ ''& '')"
| "unparse k (LIST l r) = paren (k > 0) (unparse 1 l @ ''; '' @ unparse 0 r)"

text \<open>The commands that can be written: words that are one token, redirections the shell has, few enough arguments.\<close>

definition plain_word :: "string \<Rightarrow> bool" where
  "plain_word w \<longleftrightarrow> w \<noteq> [] \<and> (\<forall>c \<in> set w. wordchar c \<and> c \<noteq> CHR 0x00)"

definition redir_ok :: "int \<times> int \<Rightarrow> bool" where
  "redir_ok r \<longleftrightarrow> r = (0, 0) \<or> r = (0x201, 1)"

fun redirs_ok :: "'w cmd \<Rightarrow> bool" where
  "redirs_ok (EXEC ws) \<longleftrightarrow> True"
| "redirs_ok (REDIR c f m d) \<longleftrightarrow> redirs_ok c \<and> redir_ok (m, d)"
| "redirs_ok (PIPE l r) \<longleftrightarrow> redirs_ok l \<and> redirs_ok r"
| "redirs_ok (LIST l r) \<longleftrightarrow> redirs_ok l \<and> redirs_ok r"
| "redirs_ok (BACK c) \<longleftrightarrow> redirs_ok c"

definition writable :: "string cmd \<Rightarrow> bool" where
  "writable c \<longleftrightarrow> args_fit c \<and> redirs_ok c \<and> (\<forall>w \<in> set_cmd c. plain_word w)"

text \<open>The line from position \<open>p\<close> on; tokens are read from it.\<close>

definition tidy :: "string \<Rightarrow> bool" where
  "tidy s \<longleftrightarrow> s = [] \<or> \<not> white (hd s)"

lemma drop_later: "drop p b = s @ t \<Longrightarrow> drop (p + length s) b = t"
  by (metis add.commute append_eq_conv_conj drop_drop)

lemma skip_tidy: "tidy (drop p b) \<Longrightarrow> skip b p = p"
  by (auto simp: tidy_def skip_def takeWhile_eq_Nil_iff)

lemma skip_space: "drop p b = CHR '' '' # t \<Longrightarrow> tidy t \<Longrightarrow> skip b p = Suc p"
  by (auto simp: skip_def white_def tidy_def takeWhile_eq_Nil_iff)

lemma peek_tidy: "tidy (drop p b) \<Longrightarrow> peek b p toks = (ch b p \<noteq> CHR 0x00 \<and> ch b p \<in> set toks, p)"
  by (simp add: peek_def Let_def skip_tidy)

lemma token_symbol:
  assumes "drop p b = s # CHR '' '' # t" "tidy t" "s \<in> set ''|();&<>''"
  shows "gettoken b p = (s, p, Suc p, Suc (Suc p)) \<and> drop (Suc (Suc p)) b = t"
proof -
  have d: "drop (Suc p) b = CHR '' '' # t" "drop (Suc (Suc p)) b = t"
    using drop_later [of p b "[s]"] drop_later [of p b "[s, CHR '' '']" t] assms(1) by simp_all
  have "\<not> white s" using assms(3) by (auto simp: white_def)
  then have "skip b p = p" using assms(1) by (intro skip_tidy) (simp add: tidy_def)
  moreover have "ch b p = s" "ch b (Suc p) = CHR '' ''" using assms(1) d by (simp_all add: ch_drop)
  moreover have "skip b (Suc p) = Suc (Suc p)" using skip_space [OF d(1) assms(2)] .
  ultimately show ?thesis using assms(3) d(2) by (auto simp: gettoken_def Let_def)
qed

lemma token_plain:
  assumes "drop p b = w @ CHR '' '' # t" "tidy t" "plain_word w"
  shows "gettoken b p = (CHR ''a'', p, p + length w, Suc (p + length w)) \<and> drop (Suc (p + length w)) b = t \<and> text_of b (p, p + length w) = w"
proof -
  obtain x xs where w: "w = x # xs" using assms(3) by (cases w) (auto simp: plain_word_def)
  have x: "wordchar x" "x \<noteq> CHR 0x00" using assms(3) w by (auto simp: plain_word_def)
  then have "skip b p = p" using assms(1) w by (intro skip_tidy) (simp add: tidy_def wordchar_def)
  moreover have "ch b p = x" using assms(1) w by (simp add: ch_drop)
  moreover have "takeWhile wordchar (drop p b) = w"
    using assms(1,3) by (simp add: plain_word_def wordchar_def [of "CHR '' ''"] white_def)
  moreover have "drop (p + length w) b = CHR '' '' # t" using drop_later [OF assms(1)] .
  moreover have "skip b (p + length w) = Suc (p + length w)" using skip_space [OF calculation(4) assms(2)] .
  moreover have "drop (Suc (p + length w)) b = t" using drop_later [of p b "w @ '' ''" t] assms(1) by simp
  ultimately show ?thesis using x assms(1) by (auto simp: gettoken_def Let_def text_of_def wordchar_def symbol_def)
qed

fun wrap :: "'w cmd \<Rightarrow> ('w \<times> int \<times> int) list \<Rightarrow> 'w cmd" where
  "wrap c [] = c"
| "wrap c ((f, m, d) # rs) = wrap (REDIR c f m d) rs"

definition good_redir :: "string \<times> int \<times> int \<Rightarrow> bool" where
  "good_redir r \<longleftrightarrow> (case r of (f, m, d) \<Rightarrow> plain_word f \<and> redir_ok (m, d))"

abbreviation print_redirs :: "(string \<times> int \<times> int) list \<Rightarrow> string" where
  "print_redirs rs \<equiv> concat (map print_redir rs)"

abbreviation print_words :: "string list \<Rightarrow> string" where
  "print_words ws \<equiv> concat (map (\<lambda>w. w @ '' '') ws)"

abbreviation texts :: "string \<Rightarrow> ptr_cmd \<Rightarrow> string cmd" where
  "texts b \<equiv> map_cmd (text_of b)"

lemma hd_plain: "plain_word w \<Longrightarrow> w \<noteq> [] \<and> wordchar (hd w) \<and> hd w \<noteq> CHR 0x00"
  by (auto simp: plain_word_def)

lemma tidy_simps [simp]: "tidy []" "tidy (c # s) \<longleftrightarrow> \<not> white c"
  by (simp_all add: tidy_def)

lemma tidy_append: "s \<noteq> [] \<Longrightarrow> tidy (s @ t) = tidy s"
  by (simp add: tidy_def)

lemma tidy_words: "\<forall>w \<in> set ws. plain_word w \<Longrightarrow> tidy t \<Longrightarrow> tidy (print_words ws @ t)"
  by (cases ws) (auto dest!: hd_plain simp: tidy_def wordchar_def)

lemma print_redir_eq: "print_redir (f, m, d) = (if d = 0 then CHR ''<'' else CHR ''>'') # CHR '' '' # f @ '' ''"
  by (simp add: print_redir_def)

lemma tidy_redirs: "tidy t \<Longrightarrow> tidy (print_redirs rs @ t)"
  by (cases rs) (auto simp: print_redir_eq white_def)

lemma redirs_parse:
  assumes "drop p b = print_redirs rs @ t" "\<forall>r \<in> set rs. good_redir r" "tidy t" "t = [] \<or> hd t \<notin> set ''<>''"
  shows "\<exists>c' p'. parseredirs b c p = Inr (c', p') \<and> drop p' b = t \<and> texts b c' = wrap (texts b c) rs"
  using assms
proof (induction rs arbitrary: c p)
  case Nil
  then have "peek b p ''<>'' = (False, p)" using peek_tidy [of p b "''<>''"] by (auto simp: ch_drop split: list.split)
  then show ?case using Nil by (subst parseredirs.simps) simp
next
  case (Cons r rs)
  obtain f m d where r: "r = (f, m, d)" by (cases r)
  let ?s = "if d = 0 then CHR ''<'' else CHR ''>''" and ?t = "print_redirs rs @ t"
  have f: "plain_word f" "redir_ok (m, d)" using Cons.prems(2) r by (auto simp: good_redir_def)
  have d: "drop p b = ?s # CHR '' '' # f @ CHR '' '' # ?t" using Cons.prems(1) r by (simp add: print_redir_eq)
  have td: "tidy ?t" "tidy (f @ CHR '' '' # ?t)"
    using tidy_redirs [OF Cons.prems(3)] hd_plain [OF f(1)] by (auto simp: tidy_def wordchar_def)
  have "tidy (drop p b)" using d by (auto simp: white_def)
  then have pk: "peek b p ''<>'' = (True, p)" using peek_tidy [of p b "''<>''"] d by (auto simp: ch_drop)
  note g = token_symbol [OF d td(2)]
  note g' = token_plain [OF _ td(1) f(1), of "Suc (Suc p)" b]
  let ?e = "Suc (Suc p) + length f"
  obtain c' p' where "parseredirs b (redirected ?s (Suc (Suc p), ?e) c) (Suc ?e) = Inr (c', p')" "drop p' b = t"
      "texts b c' = wrap (texts b (redirected ?s (Suc (Suc p), ?e) c)) rs"
    using Cons.IH [of "Suc ?e" "redirected ?s (Suc (Suc p), ?e) c"] Cons.prems g g' by auto
  moreover have "texts b (redirected ?s (Suc (Suc p), ?e) c) = REDIR (texts b c) f m d"
    using g g' f(2) by (auto simp: redirected_def redir_ok_def)
  ultimately show ?case using pk g g' r by (subst parseredirs.simps) auto
qed

lemma texts_add_arg: "texts b (add_arg w c) = add_arg (text_of b w) (texts b c)"
  by (induction c) auto

lemma args_end:
  assumes "drop p b = t" "tidy t" "t = [] \<or> hd t \<in> set ''|)&;''"
  shows "parseargs b c n p = Inr (c, p)"
proof (cases t)
  case Nil
  then have "peek b p ''|)&;'' = (False, p)" "skip b p = p" "ch b p = CHR 0x00"
    using peek_tidy [of p b "''|)&;''"] skip_tidy [of p b] assms by (simp_all add: ch_drop)
  then show ?thesis by (subst parseargs.simps) (simp add: gettoken_def)
next
  case (Cons x t')
  then have "peek b p ''|)&;'' = (True, p)" using peek_tidy [of p b "''|)&;''"] assms by (auto simp: ch_drop)
  then show ?thesis by (subst parseargs.simps) simp
qed

lemma args_parse:
  assumes "drop p b = print_words ws @ print_redirs rs @ t" "\<forall>w \<in> set ws. plain_word w" "\<forall>r \<in> set rs. good_redir r"
    "tidy t" "t = [] \<or> hd t \<in> set ''|)&;''" "ws = [] \<Longrightarrow> rs = []" "n + length ws < MAXARGS"
  shows "\<exists>c' p'. parseargs b c n p = Inr (c', p') \<and> drop p' b = t \<and> texts b c' = wrap (foldl (\<lambda>c w. add_arg w c) (texts b c) ws) rs"
  using assms
proof (induction ws arbitrary: c n p)
  case Nil
  then show ?case using args_end [of p b t c n] by auto
next
  case (Cons w ws)
  let ?t = "print_words ws @ print_redirs rs @ t"
  have w: "plain_word w" using Cons.prems(2) by simp
  have td: "tidy ?t" using tidy_words [of ws] tidy_redirs Cons.prems by simp
  have d: "drop p b = w @ CHR '' '' # ?t" using Cons.prems(1) by simp
  have dp: "tidy (drop p b)" using d hd_plain [OF w] by (simp add: tidy_def wordchar_def)
  have "ch b p = hd w" using d hd_plain [OF w] by (cases w) (auto simp: ch_drop)
  then have pk: "peek b p ''|)&;'' = (False, p)"
    using peek_tidy [OF dp, of "''|)&;''"] hd_plain [OF w] by (auto simp: wordchar_def symbol_def)
  note g = token_plain [OF d td w]
  let ?c = "add_arg (p, p + length w) c" and ?p = "Suc (p + length w)"
  have tc: "texts b ?c = add_arg w (texts b c)" using g by (simp add: texts_add_arg)
  have "\<exists>c1 p1. parseredirs b ?c ?p = Inr (c1, p1) \<and>
      (\<exists>c' p'. parseargs b c1 (Suc n) p1 = Inr (c', p') \<and> drop p' b = t \<and>
        texts b c' = wrap (foldl (\<lambda>c w. add_arg w c) (texts b ?c) ws) rs)"
  proof (cases ws)
    case Nil
    obtain c1 p1 where "parseredirs b ?c ?p = Inr (c1, p1)" "drop p1 b = t" "texts b c1 = wrap (texts b ?c) rs"
      using redirs_parse [of ?p b rs t ?c] g Cons.prems Nil by auto
    then show ?thesis using args_end [of p1 b t c1 "Suc n"] Cons.prems Nil by auto
  next
    case (Cons w' ws')
    then have w': "plain_word w'" using Cons.prems(2) by simp
    have "?t = [] \<or> hd ?t \<notin> set ''<>''" using Cons hd_plain [OF w'] by (auto simp: wordchar_def symbol_def)
    then obtain c1 p1 where r: "parseredirs b ?c ?p = Inr (c1, p1)" "drop p1 b = ?t" "texts b c1 = texts b ?c"
      using redirs_parse [of ?p b "[]" ?t ?c] g td by auto
    then show ?thesis using Cons.IH [of p1 "Suc n" c1] Cons Cons.prems by auto
  qed
  then show ?case using pk g Cons.prems(7) tc by (subst parseargs.simps) auto
qed

section \<open>Reading back what was written\<close>

definition yields :: "(nat \<Rightarrow> 'a parse) \<Rightarrow> 'a \<Rightarrow> bool" where
  "yields f r \<longleftrightarrow> (\<exists>N. \<forall>n \<ge> N. f n = Some (Inr r))"

lemma yieldsI: "(\<And>n. N \<le> n \<Longrightarrow> f (Suc n) = Some (Inr r)) \<Longrightarrow> yields f r"
  unfolding yields_def by (rule exI [of _ "Suc N"]) (metis Suc_le_D Suc_le_mono)

lemma pbind_Some [simp]: "pbind (Some (Inr x)) f = f x"
  by (simp add: pbind_def)

lemma pipe_one:
  assumes "yields (\<lambda>n. parseexec n b p) (c, p1)" "peek b p1 ''|'' = (False, p2)"
  shows "yields (\<lambda>n. parsepipe n b p) (c, p2)"
proof -
  obtain N where N: "\<forall>n \<ge> N. parseexec n b p = Some (Inr (c, p1))" using assms(1) unfolding yields_def by blast
  show ?thesis by (rule yieldsI [of N]) (simp add: N assms(2))
qed

lemma pipe_more:
  assumes "yields (\<lambda>n. parseexec n b p) (c, p1)" "peek b p1 ''|'' = (True, p2)" "yields (\<lambda>n. parsepipe n b (after b p2)) (c', p3)"
  shows "yields (\<lambda>n. parsepipe n b p) (PIPE c c', p3)"
proof -
  obtain N where N: "\<forall>n \<ge> N. parseexec n b p = Some (Inr (c, p1))" using assms(1) unfolding yields_def by blast
  obtain M where M: "\<forall>n \<ge> M. parsepipe n b (after b p2) = Some (Inr (c', p3))" using assms(3) unfolding yields_def by blast
  show ?thesis by (rule yieldsI [of "max N M"]) (simp add: N M assms(2))
qed

lemma line_one:
  assumes "yields (\<lambda>n. parsepipe n b p) (c, p1)" "parseback b c p1 = (c', p2)" "peek b p2 '';'' = (False, p3)"
  shows "yields (\<lambda>n. parseline n b p) (c', p3)"
proof -
  obtain N where N: "\<forall>n \<ge> N. parsepipe n b p = Some (Inr (c, p1))" using assms(1) unfolding yields_def by blast
  show ?thesis by (rule yieldsI [of N]) (simp add: N assms(2,3))
qed

lemma line_more:
  assumes "yields (\<lambda>n. parsepipe n b p) (c, p1)" "parseback b c p1 = (c1, p2)" "peek b p2 '';'' = (True, p3)"
    "yields (\<lambda>n. parseline n b (after b p3)) (c2, p4)"
  shows "yields (\<lambda>n. parseline n b p) (LIST c1 c2, p4)"
proof -
  obtain N where N: "\<forall>n \<ge> N. parsepipe n b p = Some (Inr (c, p1))" using assms(1) unfolding yields_def by blast
  obtain M where M: "\<forall>n \<ge> M. parseline n b (after b p3) = Some (Inr (c2, p4))" using assms(4) unfolding yields_def by blast
  show ?thesis by (rule yieldsI [of "max N M"]) (simp add: N M assms(2,3))
qed

lemma exec_plain:
  "peek b p ''('' = (False, p1) \<Longrightarrow> parseredirs b (EXEC []) p1 = Inr (c1, p2) \<Longrightarrow> parseargs b c1 0 p2 = Inr r \<Longrightarrow> yields (\<lambda>n. parseexec n b p) r"
  by (rule yieldsI) simp

lemma exec_block:
  assumes "peek b p ''('' = (True, p1)" "peek b p1 ''('' = (True, p1)" "yields (\<lambda>n. parseline n b (after b p1)) (c, p2)"
    "peek b p2 '')'' = (True, p3)" "parseredirs b c (after b p3) = Inr r"
  shows "yields (\<lambda>n. parseexec n b p) r"
proof -
  obtain N where N: "\<forall>n \<ge> N. parseline n b (after b p1) = Some (Inr (c, p2))" using assms(3) unfolding yields_def by blast
  have "parseexec (Suc n) b p = Some (Inr r)" if "Suc N \<le> n" for n
    using that assms N by (cases n) simp_all
  then show ?thesis by (rule yieldsI)
qed

definition follows :: "string \<Rightarrow> string \<Rightarrow> bool" where
  "follows toks t \<longleftrightarrow> t = [] \<or> hd t \<in> set toks"

lemma follows_tidy: "follows toks t \<Longrightarrow> set toks \<subseteq> set ''|)&;'' \<Longrightarrow> tidy t"
  by (cases t) (auto simp: follows_def white_def)

text \<open>Looking at the next token of a tidy line, and taking an operator.\<close>

lemma peek_no: "drop p b = t \<Longrightarrow> tidy t \<Longrightarrow> t = [] \<or> hd t \<notin> set toks \<Longrightarrow> peek b p toks = (False, p)"
  using peek_tidy [of p b toks] by (auto simp: ch_drop split: list.split)

lemma peek_yes: "drop p b = s # t \<Longrightarrow> \<not> white s \<Longrightarrow> s \<in> set toks \<Longrightarrow> s \<noteq> CHR 0x00 \<Longrightarrow> peek b p toks = (True, p)"
  using peek_tidy [of p b toks] by (auto simp: ch_drop)

lemma after_symbol:
  assumes "drop p b = s # CHR '' '' # t" "tidy t" "s \<in> set ''|();&<>''"
  shows "drop (after b p) b = t"
  using token_symbol [OF assms] by (simp add: after_def)

lemma tidy_unparse: "writable c \<Longrightarrow> tidy t \<Longrightarrow> tidy (unparse k c @ t)"
proof (induction c arbitrary: k t)
  case (EXEC ws)
  then show ?case using tidy_words [of ws t] by (simp add: writable_def)
next
  case (REDIR c f m d)
  have "tidy (print_redir (f, m, d) @ t)" by (simp add: print_redir_eq white_def)
  then show ?case using REDIR by (simp add: writable_def)
qed (auto simp: writable_def paren_def white_def)

definition reads3 :: "string cmd \<Rightarrow> bool" where
  "reads3 c \<longleftrightarrow> (\<forall>b p rs t. drop p b = unparse 3 c @ print_redirs rs @ t \<longrightarrow> (\<forall>r \<in> set rs. good_redir r) \<longrightarrow> follows ''|)&;'' t \<longrightarrow>
     (\<exists>c' p'. yields (\<lambda>n. parseexec n b p) (c', p') \<and> drop p' b = t \<and> texts b c' = wrap c rs))"

definition reads2 :: "string cmd \<Rightarrow> bool" where
  "reads2 c \<longleftrightarrow> (\<forall>b p t. drop p b = unparse 2 c @ t \<longrightarrow> follows '')&;'' t \<longrightarrow>
     (\<exists>c' p'. yields (\<lambda>n. parsepipe n b p) (c', p') \<and> drop p' b = t \<and> texts b c' = c))"

definition reads1 :: "string cmd \<Rightarrow> bool" where
  "reads1 c \<longleftrightarrow> (\<forall>b p k t. drop p b = unparse 1 c @ concat (replicate k ''& '') @ t \<longrightarrow> follows '');'' t \<longrightarrow>
     (\<exists>c1 p1 c' p'. yields (\<lambda>n. parsepipe n b p) (c1, p1) \<and> parseback b c1 p1 = (c', p') \<and> drop p' b = t \<and> texts b c' = (BACK ^^ k) c))"

definition reads0 :: "string cmd \<Rightarrow> bool" where
  "reads0 c \<longleftrightarrow> (\<forall>b p t. drop p b = unparse 0 c @ t \<longrightarrow> follows '')'' t \<longrightarrow>
     (\<exists>c' p'. yields (\<lambda>n. parseline n b p) (c', p') \<and> drop p' b = t \<and> texts b c' = c))"

lemma reads3D:
  assumes "reads3 c" "drop p b = unparse 3 c @ print_redirs rs @ t" "\<forall>r \<in> set rs. good_redir r" "follows ''|)&;'' t"
  obtains c' p' where "yields (\<lambda>n. parseexec n b p) (c', p')" "drop p' b = t" "texts b c' = wrap c rs"
  using assms unfolding reads3_def by blast

lemma reads2D:
  assumes "reads2 c" "drop p b = unparse 2 c @ t" "follows '')&;'' t"
  obtains c' p' where "yields (\<lambda>n. parsepipe n b p) (c', p')" "drop p' b = t" "texts b c' = c"
  using assms unfolding reads2_def by blast

lemma reads1D:
  assumes "reads1 c" "drop p b = unparse 1 c @ concat (replicate k ''& '') @ t" "follows '');'' t"
  obtains c1 p1 c' p' where "yields (\<lambda>n. parsepipe n b p) (c1, p1)" "parseback b c1 p1 = (c', p')" "drop p' b = t" "texts b c' = (BACK ^^ k) c"
  using assms unfolding reads1_def by blast

lemma reads0D:
  assumes "reads0 c" "drop p b = unparse 0 c @ t" "follows '')'' t"
  obtains c' p' where "yields (\<lambda>n. parseline n b p) (c', p')" "drop p' b = t" "texts b c' = c"
  using assms unfolding reads0_def by blast

lemma reads_pipe:
  assumes "reads3 c" "unparse 2 c = unparse 3 c"
  shows "reads2 c"
  unfolding reads2_def
proof (intro allI impI)
  fix b p t
  assume d: "drop p b = unparse 2 c @ t" and f: "follows '')&;'' t"
  then have f': "follows ''|)&;'' t" by (auto simp: follows_def)
  obtain c' p' where r: "yields (\<lambda>n. parseexec n b p) (c', p')" "drop p' b = t" "texts b c' = wrap c []"
    by (rule reads3D [OF assms(1), of p b "[]" t]) (use d assms(2) f' in auto)
  have "peek b p' ''|'' = (False, p')" by (rule peek_no [OF r(2) follows_tidy [OF f']]) (use f in \<open>auto simp: follows_def\<close>)
  then show "\<exists>c' p'. yields (\<lambda>n. parsepipe n b p) (c', p') \<and> drop p' b = t \<and> texts b c' = c"
    using pipe_one [OF r(1)] r(2,3) by auto
qed

lemma backs_parse:
  assumes "drop p b = concat (replicate k ''& '') @ t" "follows '');'' t"
  shows "\<exists>c' p'. parseback b c p = (c', p') \<and> drop p' b = t \<and> texts b c' = (BACK ^^ k) (texts b c)"
  using assms(1)
proof (induction k arbitrary: c p)
  case 0
  then have "peek b p ''&'' = (False, p)"
    using assms(2) follows_tidy [OF assms(2)] by (intro peek_no [of p b t]) (auto simp: follows_def)
  then show ?case using 0 by (subst parseback.simps) simp
next
  case (Suc k)
  let ?t = "concat (replicate k ''& '') @ t"
  have d: "drop p b = CHR ''&'' # CHR '' '' # ?t" using Suc.prems by simp
  have "tidy ?t" using follows_tidy [OF assms(2)] by (cases k) (auto simp: white_def)
  then have a: "drop (after b p) b = ?t" by (rule after_symbol [OF d]) simp
  have "peek b p ''&'' = (True, p)" by (rule peek_yes [OF d]) (auto simp: white_def)
  then show ?case using Suc.IH [OF a, of "BACK c"] by (subst parseback.simps) (simp add: funpow_swap1)
qed

lemma reads_back:
  assumes "reads2 c" "unparse 1 c = unparse 2 c"
  shows "reads1 c"
  unfolding reads1_def
proof (intro allI impI)
  fix b p k t
  assume d: "drop p b = unparse 1 c @ concat (replicate k ''& '') @ t" and f: "follows '');'' t"
  have f': "follows '')&;'' (concat (replicate k ''& '') @ t)" using f by (cases k) (auto simp: follows_def)
  obtain c' p' where r: "yields (\<lambda>n. parsepipe n b p) (c', p')" "drop p' b = concat (replicate k ''& '') @ t" "texts b c' = c"
    by (rule reads2D [OF assms(1), of p b "concat (replicate k ''& '') @ t"]) (use d assms(2) f' in auto)
  show "\<exists>c1 p1 c' p'. yields (\<lambda>n. parsepipe n b p) (c1, p1) \<and> parseback b c1 p1 = (c', p') \<and> drop p' b = t \<and> texts b c' = (BACK ^^ k) c"
    using r(1) backs_parse [OF r(2) f, of c'] r(3) by blast
qed

lemma reads_line:
  assumes "reads1 c" "unparse 0 c = unparse 1 c"
  shows "reads0 c"
  unfolding reads0_def
proof (intro allI impI)
  fix b p t
  assume d: "drop p b = unparse 0 c @ t" and f: "follows '')'' t"
  obtain c1 p1 c' p' where r: "yields (\<lambda>n. parsepipe n b p) (c1, p1)" "parseback b c1 p1 = (c', p')" "drop p' b = t" "texts b c' = c"
    by (rule reads1D [OF assms(1), of p b 0 t]) (use d assms(2) f in \<open>auto simp: follows_def\<close>)
  have "peek b p' '';'' = (False, p')" by (rule peek_no [OF r(3)]) (use f in \<open>auto simp: follows_def tidy_def white_def\<close>)
  then show "\<exists>c' p'. yields (\<lambda>n. parseline n b p) (c', p') \<and> drop p' b = t \<and> texts b c' = c"
    using line_one [OF r(1,2)] r(3,4) by blast
qed

lemma reads_paren:
  assumes "reads0 c" "unparse 3 c = paren True (unparse 0 c)" "writable c"
  shows "reads3 c"
  unfolding reads3_def
proof (intro allI impI)
  fix b p rs t
  let ?t = "print_redirs rs @ t"
  assume d: "drop p b = unparse 3 c @ ?t" and g: "\<forall>r \<in> set rs. good_redir r" and f: "follows ''|)&;'' t"
  have tt: "tidy t" "tidy ?t" using follows_tidy [OF f] tidy_redirs by simp_all
  have d: "drop p b = CHR ''('' # CHR '' '' # unparse 0 c @ CHR '')'' # CHR '' '' # ?t" using d assms(2) by (simp add: paren_def)
  have pk: "peek b p ''('' = (True, p)" by (rule peek_yes [OF d]) (auto simp: white_def)
  have a: "drop (after b p) b = unparse 0 c @ CHR '')'' # CHR '' '' # ?t"
    by (rule after_symbol [OF d]) (auto intro!: tidy_unparse [OF assms(3)] simp: white_def)
  obtain c1 p1 where r: "yields (\<lambda>n. parseline n b (after b p)) (c1, p1)" "drop p1 b = CHR '')'' # CHR '' '' # ?t" "texts b c1 = c"
    by (rule reads0D [OF assms(1) a]) (auto simp: follows_def)
  have pk': "peek b p1 '')'' = (True, p1)" by (rule peek_yes [OF r(2)]) (auto simp: white_def)
  have "drop (after b p1) b = ?t" by (rule after_symbol [OF r(2) tt(2)]) simp
  then obtain c' p' where "parseredirs b c1 (after b p1) = Inr (c', p')" "drop p' b = t" "texts b c' = wrap c rs"
    using redirs_parse [of "after b p1" b rs t c1] g tt(1) f r(3) by (auto simp: follows_def)
  then show "\<exists>c' p'. yields (\<lambda>n. parseexec n b p) (c', p') \<and> drop p' b = t \<and> texts b c' = wrap c rs"
    using exec_block [OF pk pk r(1) pk'] by blast
qed

lemma foldl_add_arg: "foldl (\<lambda>c w. add_arg w c) (EXEC vs) ws = EXEC (vs @ ws)"
  by (induction ws arbitrary: vs) simp_all

lemma reads_exec:
  assumes "writable (EXEC ws)"
  shows "reads3 (EXEC ws)"
  unfolding reads3_def
proof (intro allI impI)
  fix b p rs t
  assume d: "drop p b = unparse 3 (EXEC ws) @ print_redirs rs @ t" and g: "\<forall>r \<in> set rs. good_redir r" and f: "follows ''|)&;'' t"
  have w: "\<forall>w \<in> set ws. plain_word w" "length ws < MAXARGS" using assms by (auto simp: writable_def)
  have tt: "tidy t" "tidy (print_redirs rs @ t)" using follows_tidy [OF f] tidy_redirs by simp_all
  have td: "tidy (print_words ws @ print_redirs rs @ t)" using tidy_words [OF w(1)] tt by simp
  have h: "drop p b = [] \<or> hd (drop p b) \<noteq> CHR ''(''"
  proof (cases ws)
    case Nil
    then show ?thesis using d f by (cases rs) (auto simp: follows_def print_redir_eq split: if_splits)
  next
    case (Cons v vs)
    then have "wordchar (hd v)" "v \<noteq> []" using w(1) hd_plain [of v] by auto
    then show ?thesis using d Cons by (auto simp: wordchar_def symbol_def)
  qed
  have pk: "peek b p ''('' = (False, p)" by (rule peek_no [OF refl]) (use d td h in auto)
  have "\<exists>c1 p1 c' p'. parseredirs b (EXEC []) p = Inr (c1, p1) \<and> parseargs b c1 0 p1 = Inr (c', p') \<and> drop p' b = t \<and> texts b c' = wrap (EXEC ws) rs"
  proof (cases ws)
    case Nil
    obtain c1 p1 where "parseredirs b (EXEC []) p = Inr (c1, p1)" "drop p1 b = t" "texts b c1 = wrap (EXEC []) rs"
      using redirs_parse [of p b rs t "EXEC []"] d g tt f Nil by (auto simp: follows_def)
    then show ?thesis using args_end [of p1 b t c1 0] tt f Nil by (auto simp: follows_def)
  next
    case (Cons v vs)
    then have v: "wordchar (hd v)" "v \<noteq> []" using w(1) hd_plain [of v] by auto
    have "tidy (drop p b)" "drop p b = [] \<or> hd (drop p b) \<notin> set ''<>''"
      using d td Cons v by (auto simp: wordchar_def symbol_def)
    then obtain c1 p1 where r: "parseredirs b (EXEC []) p = Inr (c1, p1)" "drop p1 b = drop p b" "texts b c1 = EXEC []"
      using redirs_parse [of p b "[]" "drop p b" "EXEC []"] by auto
    have "drop p1 b = print_words ws @ print_redirs rs @ t" using r(2) d by simp
    then obtain c' p' where "parseargs b c1 0 p1 = Inr (c', p')" "drop p' b = t" "texts b c' = wrap (foldl (\<lambda>c w. add_arg w c) (texts b c1) ws) rs"
      using args_parse [of p1 b ws rs t 0 c1] w g tt f Cons by (auto simp: follows_def)
    then show ?thesis using r(1,3) foldl_add_arg [of "[]" ws] by auto
  qed
  then show "\<exists>c' p'. yields (\<lambda>n. parseexec n b p) (c', p') \<and> drop p' b = t \<and> texts b c' = wrap (EXEC ws) rs"
    using exec_plain [OF pk] by blast
qed

lemma reads_redir:
  assumes "reads3 c" "writable (REDIR c f m d)"
  shows "reads3 (REDIR c f m d)"
  unfolding reads3_def
proof (intro allI impI)
  fix b p rs t
  assume a: "drop p b = unparse 3 (REDIR c f m d) @ print_redirs rs @ t" "\<forall>r \<in> set rs. good_redir r" "follows ''|)&;'' t"
  show "\<exists>c' p'. yields (\<lambda>n. parseexec n b p) (c', p') \<and> drop p' b = t \<and> texts b c' = wrap (REDIR c f m d) rs"
    by (rule reads3D [OF assms(1), of p b "(f, m, d) # rs" t]) (use a assms(2) in \<open>auto simp: writable_def good_redir_def\<close>)
qed

lemma reads_pipeline:
  assumes "reads3 l" "reads2 r" "writable r"
  shows "reads2 (PIPE l r)"
  unfolding reads2_def
proof (intro allI impI)
  fix b p t
  assume d: "drop p b = unparse 2 (PIPE l r) @ t" and f: "follows '')&;'' t"
  obtain c1 p1 where 1: "yields (\<lambda>n. parseexec n b p) (c1, p1)" "drop p1 b = CHR ''|'' # CHR '' '' # unparse 2 r @ t" "texts b c1 = wrap l []"
    by (rule reads3D [OF assms(1), of p b "[]" "''| '' @ unparse 2 r @ t"]) (use d in \<open>auto simp: paren_def follows_def\<close>)
  have pk: "peek b p1 ''|'' = (True, p1)" by (rule peek_yes [OF 1(2)]) (auto simp: white_def)
  have "tidy (unparse 2 r @ t)" by (rule tidy_unparse [OF assms(3) follows_tidy [OF f]]) auto
  then have a: "drop (after b p1) b = unparse 2 r @ t" by (rule after_symbol [OF 1(2)]) simp
  obtain c2 p2 where "yields (\<lambda>n. parsepipe n b (after b p1)) (c2, p2)" "drop p2 b = t" "texts b c2 = r"
    by (rule reads2D [OF assms(2) a f])
  then show "\<exists>c' p'. yields (\<lambda>n. parsepipe n b p) (c', p') \<and> drop p' b = t \<and> texts b c' = PIPE l r"
    using pipe_more [OF 1(1) pk] 1(3) by fastforce
qed

lemma reads_background:
  assumes "reads1 c"
  shows "reads1 (BACK c)"
  unfolding reads1_def
proof (intro allI impI)
  fix b p k t
  assume d: "drop p b = unparse 1 (BACK c) @ concat (replicate k ''& '') @ t" and f: "follows '');'' t"
  have "drop p b = unparse 1 c @ concat (replicate (Suc k) ''& '') @ t" using d by (simp add: paren_def)
  then obtain c1 p1 c' p' where "yields (\<lambda>n. parsepipe n b p) (c1, p1)" "parseback b c1 p1 = (c', p')" "drop p' b = t"
      "texts b c' = (BACK ^^ Suc k) c"
    by (rule reads1D [OF assms _ f])
  moreover have "(BACK ^^ Suc k) c = (BACK ^^ k) (BACK c)" by (simp only: funpow_Suc_right comp_apply)
  ultimately show "\<exists>c1 p1 c' p'. yields (\<lambda>n. parsepipe n b p) (c1, p1) \<and> parseback b c1 p1 = (c', p') \<and> drop p' b = t \<and> texts b c' = (BACK ^^ k) (BACK c)"
    by auto
qed

lemma reads_list:
  assumes "reads1 l" "reads0 r" "writable r"
  shows "reads0 (LIST l r)"
  unfolding reads0_def
proof (intro allI impI)
  fix b p t
  assume d: "drop p b = unparse 0 (LIST l r) @ t" and f: "follows '')'' t"
  obtain c1 p1 c' p' where 1: "yields (\<lambda>n. parsepipe n b p) (c1, p1)" "parseback b c1 p1 = (c', p')"
      "drop p' b = CHR '';'' # CHR '' '' # unparse 0 r @ t" "texts b c' = l"
    by (rule reads1D [OF assms(1), of p b 0 "''; '' @ unparse 0 r @ t"]) (use d in \<open>auto simp: paren_def follows_def\<close>)
  have pk: "peek b p' '';'' = (True, p')" by (rule peek_yes [OF 1(3)]) (auto simp: white_def)
  have "tidy (unparse 0 r @ t)" by (rule tidy_unparse [OF assms(3) follows_tidy [OF f]]) auto
  then have a: "drop (after b p') b = unparse 0 r @ t" by (rule after_symbol [OF 1(3)]) simp
  obtain c2 p2 where "yields (\<lambda>n. parseline n b (after b p')) (c2, p2)" "drop p2 b = t" "texts b c2 = r"
    by (rule reads0D [OF assms(2) a f])
  then show "\<exists>c' p'. yields (\<lambda>n. parseline n b p) (c', p') \<and> drop p' b = t \<and> texts b c' = LIST l r"
    using line_more [OF 1(1,2) pk] 1(4) by fastforce
qed

lemma reads_all: "writable c \<Longrightarrow> reads3 c \<and> reads2 c \<and> reads1 c \<and> reads0 c"
proof (induction c)
  case (EXEC ws)
  have "reads3 (EXEC ws)" by (rule reads_exec [OF EXEC])
  then show ?case by (simp add: reads_pipe reads_back reads_line)
next
  case (REDIR c f m d)
  have "reads3 c" using REDIR by (simp add: writable_def)
  then have "reads3 (REDIR c f m d)" using REDIR.prems by (rule reads_redir)
  then show ?case by (simp add: reads_pipe reads_back reads_line)
next
  case (PIPE l r)
  have "writable r" "reads3 l" "reads2 r" using PIPE by (auto simp: writable_def)
  then have 2: "reads2 (PIPE l r)" by (simp add: reads_pipeline)
  then have 0: "reads1 (PIPE l r)" "reads0 (PIPE l r)" by (simp_all add: reads_back reads_line paren_def)
  show ?case using 2 0 reads_paren [OF 0(2) _ PIPE.prems] by (simp add: paren_def)
next
  case (LIST l r)
  have "writable r" "reads1 l" "reads0 r" using LIST by (auto simp: writable_def)
  then have 0: "reads0 (LIST l r)" by (simp add: reads_list)
  then have 3: "reads3 (LIST l r)" using reads_paren [OF 0 _ LIST.prems] by (simp add: paren_def)
  then show ?case using 0 by (simp add: reads_pipe reads_back paren_def)
next
  case (BACK c)
  have "reads1 c" using BACK by (simp add: writable_def)
  then have 1: "reads1 (BACK c)" by (rule reads_background)
  then have 0: "reads0 (BACK c)" by (simp add: reads_line paren_def)
  then have 3: "reads3 (BACK c)" using reads_paren [OF 0 _ BACK.prems] by (simp add: paren_def)
  then show ?case using 0 1 by (simp add: reads_pipe paren_def)
qed

text \<open>A written line has no zero byte.\<close>

lemma unparse_no_zero: "writable c \<Longrightarrow> CHR 0x00 \<notin> set (unparse k c)"
  by (induction c arbitrary: k) (auto simp: writable_def plain_word_def paren_def print_redir_eq)

lemma texts_cstr:
  assumes "wf_cmd b c" "CHR 0x00 \<notin> set b"
  shows "map_cmd (\<lambda>(q, e). cstr (nulterminate c (b @ [CHR 0x00])) q) c = texts b c"
  by (rule cmd.map_cong0) (use cstr_word [of c b] assms in \<open>auto simp: wf_cmd_def\<close>)

lemma parse_written:
  assumes "writable c"
  shows "\<exists>t buf. parsecmd (unparse 0 c) = Some (Inr (t, buf)) \<and> map_cmd (\<lambda>(q, e). cstr buf q) t = c"
proof -
  let ?b = "unparse 0 c"
  obtain t p where r: "yields (\<lambda>n. parseline n ?b 0) (t, p)" "drop p ?b = []" "texts ?b t = c"
    by (rule reads0D [of c 0 ?b "[]"]) (use reads_all [OF assms] in \<open>auto simp: follows_def\<close>)
  obtain N where "\<forall>n \<ge> N. parseline n ?b 0 = Some (Inr (t, p))" using r(1) unfolding yields_def by blast
  then have f: "parseline (parse_fuel ?b) ?b 0 = Some (Inr (t, p))"
    using parseline_fuel [of ?b "max N (parse_fuel ?b)"] by simp
  have "p \<le> length ?b" using staysD [of ?b "parseline (parse_fuel ?b) ?b" 0 t p] parse_le_all [of ?b "parse_fuel ?b"] f by simp
  then have p: "p = length ?b" using r(2) by simp
  have "peek ?b p [] = (False, p)" by (rule peek_no [OF r(2)]) simp_all
  then have "parsecmd ?b = Some (Inr (t, nulterminate t (?b @ [CHR 0x00])))" using f p by (simp add: parsecmd_def)
  moreover have "wf_cmd ?b t" using parsed(1) [OF f] by simp
  ultimately show ?thesis using texts_cstr [of ?b t] unparse_no_zero [OF assms] r(3) by auto
qed

text \<open>
  C25. Reading and writing commands: every command, however its pipelines, lists, background jobs, redirections and parentheses are nested,
  with words that are single tokens and at most nine arguments, can be written as a line on which \<^verbatim>\<open>parsecmd\<close> succeeds and
  returns a tree of this shape whose pointers, after \<^verbatim>\<open>nulterminate\<close>, point to the words of the command.
\<close>

theorem parse_unparse:
  assumes "writable c"
  shows "\<exists>t buf. parsecmd (unparse 0 c) = Some (Inr (t, buf)) \<and> map_cmd (\<lambda>(q, e). cstr buf q) t = c"
  using assms by (rule parse_written)

theorem parse_unparse_witness:
  "\<exists>t buf. parsecmd ''( ls ; cat < f ) | wc > out & '' = Some (Inr (t, buf)) \<and>
     map_cmd (\<lambda>(q, e). cstr buf q) t =
     BACK (PIPE (LIST (EXEC [''ls'']) (REDIR (EXEC [''cat'']) ''f'' 0 0)) (REDIR (EXEC [''wc'']) ''out'' 0x201 1))"
proof -
  let ?c = "BACK (PIPE (LIST (EXEC [''ls'']) (REDIR (EXEC [''cat'']) ''f'' 0 0)) (REDIR (EXEC [''wc'']) ''out'' 0x201 1))"
  have "writable ?c" by (simp add: writable_def MAXARGS_def redir_ok_def plain_word_def wordchar_def white_def symbol_def)
  then show ?thesis using parse_unparse [of ?c] by (simp add: print_redir_eq paren_def)
qed

end
