(* ===== verification/Sh.thy ===== *)
theory Sh
  imports Sh_Props
begin

text \<open>
  The shell, \<^verbatim>\<open>src/sh.c\<close>: reading a line, \<^verbatim>\<open>cd\<close>, running a command, and the descriptors that a pipeline sets up. A command that
  runs has the strings its pointers point to as words. \<^verbatim>\<open>fork\<close> is a call that returns in both processes: a run with
  the reply 0 is the run of the child.
\<close>

section \<open>Running commands\<close>

definition sh_panic :: "string \<Rightarrow> 'a uprog" where
  "sh_panic s = ubind (uprintf 2 (''%s'' @ eol) [PStr (Some s)]) (\<lambda>_. exit_prog)"

definition fork1 :: "int uprog" where
  "fork1 = ubind (usys CFork) (\<lambda>pid. if pid = -1 then sh_panic ''fork'' else ureturn pid)"

text \<open>\<^verbatim>\<open>pipe(p)\<close>: the reply is the two descriptors it stores, or an error.\<close>

definition upipe :: "(int \<times> int) option uprog" where
  "upipe = ubind (ucall CPipe) (\<lambda>r. case r of
     RPair a b \<Rightarrow> ureturn (Some (a, b)) | RInt n \<Rightarrow> if n < 0 then ureturn None else (\<lambda>rs. ([], None)) | _ \<Rightarrow> (\<lambda>rs. ([], None)))"

fun calls :: "scall list \<Rightarrow> unit uprog" where
  "calls [] = ureturn ()"
| "calls (c # cs) = ubind (ucall c) (\<lambda>_. calls cs)"

fun runcmd :: "string cmd \<Rightarrow> 'a uprog" where
  "runcmd (EXEC []) = exit_prog"
| "runcmd (EXEC (w # ws)) =
     ubind (ucall (CExec w (w # ws))) (\<lambda>_.
     ubind (uprintf 2 (''exec %s failed'' @ eol) [PStr (Some w)]) (\<lambda>_. exit_prog))"
| "runcmd (REDIR c f m d) =
     ubind (ucall (CClose d)) (\<lambda>_.
     ubind (usys (COpen f m)) (\<lambda>r.
       if r < 0 then ubind (uprintf 2 (''open %s failed'' @ eol) [PStr (Some f)]) (\<lambda>_. exit_prog)
       else runcmd c))"
| "runcmd (LIST l r) =
     ubind fork1 (\<lambda>pid. if pid = 0 then runcmd l else ubind (ucall CWait) (\<lambda>_. runcmd r))"
| "runcmd (PIPE l r) =
     ubind upipe (\<lambda>p. case p of
       None \<Rightarrow> sh_panic ''pipe''
     | Some (p0, p1) \<Rightarrow>
         ubind fork1 (\<lambda>pid.
           if pid = 0 then ubind (calls [CClose 1, CDup p1, CClose p0, CClose p1]) (\<lambda>_. runcmd l)
           else ubind fork1 (\<lambda>pid.
             if pid = 0 then ubind (calls [CClose 0, CDup p0, CClose p0, CClose p1]) (\<lambda>_. runcmd r)
             else ubind (calls [CClose p0, CClose p1, CWait, CWait]) (\<lambda>_. exit_prog))))"
| "runcmd (BACK c) = ubind fork1 (\<lambda>pid. if pid = 0 then runcmd c else exit_prog)"

section \<open>The command loop\<close>

text \<open>\<^verbatim>\<open>gets\<close> of \<^verbatim>\<open>ulib.c\<close>, with room for \<open>k\<close> more characters before the terminating zero.\<close>

fun gets :: "nat \<Rightarrow> string uprog" where
  "gets 0 = ureturn []"
| "gets (Suc k) = ubind (uread 0 1) (\<lambda>(n, b).
     if n < 1 then ureturn []
     else if hd b = CHR 0x0A \<or> hd b = CHR 0x0D then ureturn [hd b]
     else ubind (gets k) (\<lambda>s. ureturn (hd b # s)))"

text \<open>The line as a C string; \<open>None\<close> at the end of the input.\<close>

definition getcmd :: "nat \<Rightarrow> string option uprog" where
  "getcmd nbuf =
     ubind (uprintf 2 ''$ '' []) (\<lambda>_.
     ubind (gets (nbuf - 1)) (\<lambda>s.
       let buf = takeWhile (\<lambda>c. c \<noteq> CHR 0x00) s in ureturn (if buf = [] then None else Some buf)))"

text \<open>\<^verbatim>\<open>runcmd(parsecmd(buf))\<close>, in the child.\<close>

definition run_line :: "string \<Rightarrow> 'a uprog" where
  "run_line b =
     (case parsecmd b of
        None \<Rightarrow> (\<lambda>rs. ([], None))
      | Some (Inl (Message m)) \<Rightarrow> sh_panic m
      | Some (Inl (Leftovers s)) \<Rightarrow> ubind (uprintf 2 (''leftovers: %s'' @ eol) [PStr (Some s)]) (\<lambda>_. sh_panic ''syntax'')
      | Some (Inr (c, buf)) \<Rightarrow> runcmd (map_cmd (\<lambda>(q, e). cstr buf q) c))"

definition sh_console :: "unit \<Rightarrow> (unit + unit) uprog" where
  "sh_console _ = ubind (usys (COpen ''console'' O_RDWR_u)) (\<lambda>fd.
     if fd \<ge> 0 then
       if fd \<ge> 3 then ubind (ucall (CClose fd)) (\<lambda>_. ureturn (Inr ())) else ureturn (Inl ())
     else ureturn (Inr ()))"

definition sh_round :: "unit \<Rightarrow> (unit + unit) uprog" where
  "sh_round _ = ubind (getcmd 100) (\<lambda>l. case l of
     None \<Rightarrow> ureturn (Inr ())
   | Some buf \<Rightarrow>
       if take 3 buf = ''cd '' then
         let path = drop 3 (butlast buf) in
         ubind (usys (CChdir path)) (\<lambda>r.
           if r < 0 then ubind (uprintf 2 (''cannot cd %s'' @ eol) [PStr (Some path)]) (\<lambda>_. ureturn (Inl ()))
           else ureturn (Inl ()))
       else
         ubind fork1 (\<lambda>pid. if pid = 0 then run_line buf else ubind (ucall CWait) (\<lambda>_. ureturn (Inl ()))))"

definition sh_main :: "unit uprog" where
  "sh_main = ubind (uwhile sh_console ()) (\<lambda>_. ubind (uwhile sh_round ()) (\<lambda>_. exit_prog))"

section \<open>The descriptors of a pipeline\<close>

text \<open>
  The effect of the calls on a table of open descriptors, as the kernel has it: a new descriptor is the lowest one that is free
  (\<^verbatim>\<open>fdalloc\<close> of \<^verbatim>\<open>src/sysfile.c\<close>), \<^verbatim>\<open>pipe\<close> takes the read end first.
\<close>

datatype 'o end_point = Old 'o | ReadEnd | WriteEnd | Opened string int

type_synonym 'o fds = "'o end_point option list"

definition free_fd :: "'o fds \<Rightarrow> nat" where
  "free_fd t = length (takeWhile (\<lambda>x. x \<noteq> None) t)"

definition put_fd :: "'o end_point \<Rightarrow> 'o fds \<Rightarrow> 'o fds" where
  "put_fd x t = t[free_fd t := Some x]"

fun fd_call :: "scall \<Rightarrow> 'o fds \<Rightarrow> 'o fds" where
  "fd_call (CClose d) t = t[nat d := None]"
| "fd_call (CDup d) t = (case t ! nat d of None \<Rightarrow> t | Some x \<Rightarrow> put_fd x t)"
| "fd_call (COpen f m) t = put_fd (Opened f m) t"
| "fd_call CPipe t = put_fd WriteEnd (put_fd ReadEnd t)"
| "fd_call _ t = t"

abbreviation fd_calls :: "scall list \<Rightarrow> 'o fds \<Rightarrow> 'o fds" where
  "fd_calls cs t \<equiv> fold fd_call cs t"

text \<open>\<^verbatim>\<open>runcmd\<close> never returns.\<close>

lemma sh_panic_stops [simp]: "snd (sh_panic s rs) = None"
  by (simp add: sh_panic_def ubind_def exit_prog_def split: prod.split option.split)

lemma ubind_stops: "(\<And>x rs. snd (f x rs) = None) \<Longrightarrow> snd (ubind m f rs) = None"
  by (auto simp: ubind_def split: prod.split option.split) (metis snd_conv)

lemma exit_stops [simp]: "snd (exit_prog rs) = None"
  by (simp add: exit_prog_def)

lemma runcmd_stops: "snd (runcmd c rs) = None"
proof (induction c arbitrary: rs rule: runcmd.induct)
  case (5 l r)
  then show ?case by (auto intro!: ubind_stops split: option.split)
qed (auto intro!: ubind_stops)

lemma run_line_stops: "snd (run_line b rs) = None"
  unfolding run_line_def
  by (auto intro!: ubind_stops simp: runcmd_stops split: option.split sum.split syntax_error.split prod.split)

lemma mild_stops: "(\<And>rs. snd (m rs) = None) \<Longrightarrow> mild m"
  unfolding mild_def by (metis option.discI snd_conv)

lemma mild_sh: "mild fork1" "mild (gets k)" "mild (run_line b)"
proof -
  have "mild (sh_panic s)" for s by (rule mild_stops) simp
  then show "mild fork1" unfolding fork1_def by (intro mild_bind) auto
  show "mild (gets k)" by (induction k) (auto intro!: mild_bind split: prod.split)
  show "mild (run_line b)" by (rule mild_stops) (rule run_line_stops)
qed

text \<open>Every round of the two loops of the shell makes a call.\<close>

lemma busy_sh: "busy sh_console" "busy sh_round"
proof -
  have "eats (sh_console s)" for s
    unfolding sh_console_def by (rule eats_bind1) (auto intro!: mild_bind)
  then show "busy sh_console" by (rule busy_eats)
  have "uprintf 2 ''$ '' [] = ubind (ucall (CWrite 2 ''$'')) (\<lambda>_. uputs 2 '' '')" by (simp add: uprintf_def)
  moreover have "eats (ubind (ucall (CWrite 2 ''$'')) (\<lambda>_. uputs 2 '' ''))" by (rule eats_bind1) (simp_all only: mild_simps mild_uputs)
  ultimately have "eats (uprintf 2 ''$ '' [])" by (simp only:)
  then have "eats (getcmd n)" for n
    unfolding getcmd_def by (rule eats_bind1) (auto intro!: mild_bind simp: mild_sh Let_def)
  then have "eats (sh_round s)" for s
    unfolding sh_round_def by (rule eats_bind1) (auto intro!: mild_bind simp: mild_sh Let_def split: option.split)
  then show "busy sh_round" by (rule busy_eats)
qed

text \<open>A line that was written for a command runs that command.\<close>

lemma run_line_unparse:
  assumes "writable c"
  shows "run_line (unparse 0 c) = runcmd c"
proof -
  obtain t buf where "parsecmd (unparse 0 c) = Some (Inr (t, buf))" "map_cmd (\<lambda>(q, e). cstr buf q) t = c"
    using parse_written [OF assms] by blast
  then show ?thesis by (simp add: run_line_def)
qed

lemma free_fd_low: "t ! 0 = None \<Longrightarrow> t \<noteq> [] \<Longrightarrow> free_fd t = 0" "t ! 0 = Some x \<Longrightarrow> t ! 1 = None \<Longrightarrow> 1 < length t \<Longrightarrow> free_fd t = 1"
  by (auto simp: free_fd_def neq_Nil_conv less_Suc_eq_0_disj dest!: less_imp_Suc_add) (cases t; cases "tl t"; simp)+

lemma free_fd_None: "free_fd t < length t \<Longrightarrow> t ! free_fd t = None"
  unfolding free_fd_def using nth_length_takeWhile [of "\<lambda>x. x \<noteq> None" t] by simp

lemma free_fd_ge: "t ! 0 = Some x \<Longrightarrow> t ! 1 = Some y \<Longrightarrow> 1 < length t \<Longrightarrow> 1 < free_fd t"
  by (cases t; cases "tl t") (auto simp: free_fd_def)

abbreviation calls_of :: "unit uprog \<Rightarrow> reply list \<Rightarrow> scall list" where
  "calls_of m rs \<equiv> fst (m rs)"

text \<open>The descriptors after \<^verbatim>\<open>pipe\<close>, and after \<^verbatim>\<open>close\<close> and \<^verbatim>\<open>dup\<close> have put an end of the pipe in the place of descriptor \<open>d\<close>.\<close>

lemma pipe_ends:
  assumes "t ! 0 = Some x" "t ! 1 = Some y" "1 < length t" "b = free_fd (put_fd ReadEnd t)" "b < length t"
  shows "1 < free_fd t" "free_fd t < length t" "t ! free_fd t = None" "1 < b" "free_fd t \<noteq> b" "t ! b = None"
    "fd_call CPipe t = t[free_fd t := Some ReadEnd, b := Some WriteEnd]"
proof -
  let ?a = "free_fd t"
  show a: "1 < ?a" by (rule free_fd_ge [OF assms(1-3)])
  have "?a \<le> length t" unfolding free_fd_def by (rule length_takeWhile_le)
  moreover have "?a \<noteq> length t" using assms(4,5) by (auto simp: put_fd_def list_update_beyond)
  ultimately show l: "?a < length t" by simp
  show n: "t ! ?a = None" by (rule free_fd_None [OF l])
  let ?u = "t[?a := Some ReadEnd]"
  have b: "b = free_fd ?u" using assms(4) by (simp add: put_fd_def)
  have "?u ! b = None" using free_fd_None [of ?u] b assms(5) by simp
  then show "?a \<noteq> b" "t ! b = None" using l assms(5) by (auto simp: nth_list_update split: if_splits)
  show "1 < b" unfolding b using a assms by (intro free_fd_ge [of ?u x y]) (auto simp: nth_list_update)
  show "fd_call CPipe t = t[?a := Some ReadEnd, b := Some WriteEnd]" using b by (simp add: put_fd_def)
qed

lemma plumb:
  assumes "t ! 0 = Some x" "t ! 1 = Some y" "1 < length t" "a = free_fd t" "b = free_fd (put_fd ReadEnd t)" "b < length t"
  shows "fd_calls [CPipe, CFork, CClose 1, CDup (int b), CClose (int a), CClose (int b)] t = t[1 := Some WriteEnd]"
    "fd_calls [CPipe, CFork, CFork, CClose 0, CDup (int a), CClose (int a), CClose (int b)] t = t[0 := Some ReadEnd]"
    "fd_calls [CPipe, CFork, CFork, CClose (int a), CClose (int b)] t = t"
proof -
  note e = pipe_ends [OF assms(1-3,5,6), folded assms(4)]
  let ?p = "t[a := Some ReadEnd, b := Some WriteEnd]"
  have l: "free_fd (?p[1 := None]) = 1" using e assms by (intro free_fd_low(2) [of _ x]) (auto simp: nth_list_update)
  have "?p \<noteq> []" using assms(3) by auto
  then have r: "free_fd (?p[0 := None]) = 0" by (intro free_fd_low(1)) auto
  show "fd_calls [CPipe, CFork, CClose 1, CDup (int b), CClose (int a), CClose (int b)] t = t[1 := Some WriteEnd]"
    using e assms l by (intro nth_equalityI) (auto simp: put_fd_def nth_upd simp del: fd_call.simps(4))
  show "fd_calls [CPipe, CFork, CFork, CClose 0, CDup (int a), CClose (int a), CClose (int b)] t = t[0 := Some ReadEnd]"
    using e assms r by (intro nth_equalityI) (auto simp: put_fd_def nth_upd simp del: fd_call.simps(4))
  show "fd_calls [CPipe, CFork, CFork, CClose (int a), CClose (int b)] t = t"
    using e assms by (intro nth_equalityI) (auto simp: nth_list_update simp del: fd_call.simps(4))
qed

text \<open>
  C28. A pipeline, from the line to the descriptors: the shell reads a line that was written for \<open>PIPE l r\<close>, and if the kernel gives the two ends of the pipe
  the lowest free descriptors, the child that runs \<open>l\<close> has the write end as its standard output, the child that runs \<open>r\<close> has the read end
  as its standard input, neither has any other descriptor of the pipe, and the process that starts them closes both ends
  and waits for two children.
\<close>

theorem pipeline_descriptors:
  assumes "writable (PIPE l r)" "t ! 0 = Some x" "t ! 1 = Some y" "1 < length t" "a = free_fd t" "b = free_fd (put_fd ReadEnd t)" "b < length t"
    "pid > 0" "pid' > 0"
  shows "(\<exists>cs. calls_of (run_line (unparse 0 (PIPE l r))) ([RPair (int a) (int b), RInt 0] @ [r1, r2, r3, r4] @ rs) = cs @ calls_of (runcmd l) rs \<and>
      fd_calls cs t = t[1 := Some WriteEnd]) \<and>
    (\<exists>cs. calls_of (run_line (unparse 0 (PIPE l r))) ([RPair (int a) (int b), RInt pid, RInt 0] @ [r1, r2, r3, r4] @ rs) = cs @ calls_of (runcmd r) rs \<and>
      fd_calls cs t = t[0 := Some ReadEnd]) \<and>
    (\<exists>cs. calls_of (run_line (unparse 0 (PIPE l r))) ([RPair (int a) (int b), RInt pid, RInt pid'] @ [r1, r2, r3, r4] @ rs) = cs @ [CWait, CWait, CExit] \<and>
      fd_calls cs t = t)"
proof (intro conjI)
  note p = plumb [OF assms(2-7)]
  note run = run_line_unparse [OF assms(1)]
  let ?l = "[CPipe, CFork, CClose 1, CDup (int b), CClose (int a), CClose (int b)]"
  have "calls_of (runcmd (PIPE l r)) ([RPair (int a) (int b), RInt 0] @ [r1, r2, r3, r4] @ rs) = ?l @ calls_of (runcmd l) rs"
    by (auto simp: upipe_def fork1_def usys_def ucall_def ubind_def ureturn_def split: prod.split)
  then show "\<exists>cs. calls_of (run_line (unparse 0 (PIPE l r))) ([RPair (int a) (int b), RInt 0] @ [r1, r2, r3, r4] @ rs) = cs @ calls_of (runcmd l) rs \<and>
      fd_calls cs t = t[1 := Some WriteEnd]"
    using p(1) unfolding run by blast
  let ?r = "[CPipe, CFork, CFork, CClose 0, CDup (int a), CClose (int a), CClose (int b)]"
  have "calls_of (runcmd (PIPE l r)) ([RPair (int a) (int b), RInt pid, RInt 0] @ [r1, r2, r3, r4] @ rs) = ?r @ calls_of (runcmd r) rs"
    using assms(8) by (auto simp: upipe_def fork1_def usys_def ucall_def ubind_def ureturn_def split: prod.split)
  then show "\<exists>cs. calls_of (run_line (unparse 0 (PIPE l r))) ([RPair (int a) (int b), RInt pid, RInt 0] @ [r1, r2, r3, r4] @ rs) = cs @ calls_of (runcmd r) rs \<and>
      fd_calls cs t = t[0 := Some ReadEnd]"
    using p(2) unfolding run by blast
  let ?w = "[CPipe, CFork, CFork, CClose (int a), CClose (int b)]"
  have "calls_of (runcmd (PIPE l r)) ([RPair (int a) (int b), RInt pid, RInt pid'] @ [r1, r2, r3, r4] @ rs) = ?w @ [CWait, CWait, CExit]"
    using assms(8,9) by (auto simp: upipe_def fork1_def usys_def ucall_def ubind_def ureturn_def exit_prog_def split: prod.split)
  then show "\<exists>cs. calls_of (run_line (unparse 0 (PIPE l r))) ([RPair (int a) (int b), RInt pid, RInt pid'] @ [r1, r2, r3, r4] @ rs) = cs @ [CWait, CWait, CExit] \<and>
      fd_calls cs t = t"
    using p(3) unfolding run by blast
qed

theorem pipeline_descriptors_witness:
  "\<exists>cs. calls_of (run_line ''ls | wc '') ([RPair 3 4, RInt 0, RInt 0, RInt 1, RInt 0, RInt 0]) = cs @ [CExec ''ls'' [''ls'']] \<and>
     fd_calls cs [Some (Old 0), Some (Old 1), Some (Old 2), None, None, None :: nat end_point option] =
     [Some (Old 0), Some WriteEnd, Some (Old 2), None, None, None]"
proof -
  let ?t = "[Some (Old 0), Some (Old 1), Some (Old 2), None, None, None :: nat end_point option]"
  have w: "writable (PIPE (EXEC [''ls'']) (EXEC [''wc'']))"
    by (simp add: writable_def MAXARGS_def plain_word_def wordchar_def white_def symbol_def)
  have "free_fd ?t = 3" "free_fd (put_fd ReadEnd ?t) = 4" by (simp_all add: free_fd_def put_fd_def)
  then show ?thesis
    using pipeline_descriptors [OF w, of ?t "Old 0" "Old 1" 3 4 1 1 "RInt 0" "RInt 1" "RInt 0" "RInt 0" "[]"]
    by (simp add: paren_def ubind_def ucall_def)
qed

end
