(* ===== verification/Devices.thy ===== *)
theory Devices
  imports Trap Interact
begin

text \<open>
  The drivers of the interrupt controllers, of the clock and of the serial port: \<^verbatim>\<open>src/lapic.c\<close>, \<^verbatim>\<open>src/ioapic.c\<close>, \<^verbatim>\<open>src/picirq.c\<close>
  and \<^verbatim>\<open>uartinit\<close> of \<^verbatim>\<open>src/uart.c\<close>. A driver is a program that writes and reads device registers; what a register returns
  is a reply. \<^verbatim>\<open>microdelay\<close>, which is empty, is left out.
\<close>

section \<open>Ports and registers\<close>

datatype dio =
    Outb u32 u8 | Inb u32 | LapicW nat u32 | LapicR nat | IoapicSel u32 | IoapicData u32 | IoapicGet
  | Store16 u32 "16 word" | Printed string

type_synonym 'a dprog = "(dio, u32, 'a) prog"

definition inb :: "u32 \<Rightarrow> u8 dprog" where
  "inb p = ubind (ucall (Inb p)) (\<lambda>v. ureturn (ucast v))"

fun all_of :: "dio list \<Rightarrow> unit dprog" where
  "all_of [] = ureturn ()"
| "all_of (c # cs) = ubind (emit c) (\<lambda>_. all_of cs)"

section \<open>The local APIC\<close>

text \<open>Register indices of \<^verbatim>\<open>lapic\<close>; the byte offsets are divided by 4.\<close>

definition LAPIC_ID :: nat where "LAPIC_ID = 0x20 div 4"
definition VER :: nat where "VER = 0x30 div 4"
definition TPR :: nat where "TPR = 0x80 div 4"
definition EOI :: nat where "EOI = 0xB0 div 4"
definition SVR :: nat where "SVR = 0xF0 div 4"
definition ESR :: nat where "ESR = 0x280 div 4"
definition ICRLO :: nat where "ICRLO = 0x300 div 4"
definition ICRHI :: nat where "ICRHI = 0x310 div 4"
definition TIMER :: nat where "TIMER = 0x320 div 4"
definition PCINT :: nat where "PCINT = 0x340 div 4"
definition LINT0 :: nat where "LINT0 = 0x350 div 4"
definition LINT1 :: nat where "LINT1 = 0x360 div 4"
definition ERROR :: nat where "ERROR = 0x370 div 4"
definition TICR :: nat where "TICR = 0x380 div 4"
definition TDCR :: nat where "TDCR = 0x3E0 div 4"

definition IRQ_ERROR :: u32 where "IRQ_ERROR = 19"

definition lapicw :: "nat \<Rightarrow> u32 \<Rightarrow> unit dprog" where
  "lapicw i v = ubind (emit (LapicW i v)) (\<lambda>_. ubind (ucall (LapicR LAPIC_ID)) (\<lambda>_. ureturn ()))"

fun lapicws :: "(nat \<times> u32) list \<Rightarrow> unit dprog" where
  "lapicws [] = ureturn ()"
| "lapicws ((i, v) # ws) = ubind (lapicw i v) (\<lambda>_. lapicws ws)"

definition lapic_settled :: "unit \<Rightarrow> (unit + unit) dprog" where
  "lapic_settled _ = ubind (ucall (LapicR ICRLO)) (\<lambda>v. ureturn (if v AND 0x1000 \<noteq> 0 then Inl () else Inr ()))"

text \<open>The argument says whether \<^verbatim>\<open>lapic\<close> is set.\<close>

definition lapicinit :: "bool \<Rightarrow> unit dprog" where
  "lapicinit present =
     (if \<not> present then ureturn ()
      else
        ubind (lapicws [(SVR, 0x100 OR (T_IRQ0 + IRQ_SPURIOUS)), (TDCR, 0xB), (TIMER, 0x20000 OR (T_IRQ0 + IRQ_TIMER)),
          (TICR, 10000000), (LINT0, 0x10000), (LINT1, 0x10000)]) (\<lambda>_.
        ubind (ucall (LapicR VER)) (\<lambda>v.
        ubind (if drop_bit 16 v AND 0xFF \<ge> 4 then lapicw PCINT 0x10000 else ureturn ()) (\<lambda>_.
        ubind (lapicws [(ERROR, T_IRQ0 + IRQ_ERROR), (ESR, 0), (ESR, 0), (EOI, 0), (ICRHI, 0), (ICRLO, 0x80000 OR 0x500 OR 0x8000)]) (\<lambda>_.
        ubind (uwhile lapic_settled ()) (\<lambda>_.
        lapicw TPR 0))))))"

definition lapicid :: "bool \<Rightarrow> u32 dprog" where
  "lapicid present = (if \<not> present then ureturn 0 else ubind (ucall (LapicR LAPIC_ID)) (\<lambda>v. ureturn (drop_bit 24 v)))"

definition lapiceoi :: "bool \<Rightarrow> unit dprog" where
  "lapiceoi present = (if present then lapicw EOI 0 else ureturn ())"

definition lapicstartap :: "u8 \<Rightarrow> u32 \<Rightarrow> unit dprog" where
  "lapicstartap apicid addr =
     (let wrv = P2V (0x400 OR 0x67); sipi = [(ICRHI, push_bit 24 (ucast apicid)), (ICRLO, 0x600 OR drop_bit 12 addr)] in
      ubind (all_of [Outb 0x70 0xF, Outb 0x71 0x0A, Store16 wrv 0, Store16 (wrv + 2) (ucast (drop_bit 4 addr))]) (\<lambda>_.
      lapicws ([(ICRHI, push_bit 24 (ucast apicid)), (ICRLO, 0x500 OR 0x8000 OR 0x4000), (ICRLO, 0x500 OR 0x8000)] @ sipi @ sipi)))"

section \<open>The clock\<close>

record rtcdate =
  second :: u32
  minute :: u32
  hour :: u32
  day :: u32
  month :: u32
  year :: u32

definition cmos_read :: "u8 \<Rightarrow> u32 dprog" where
  "cmos_read reg = ubind (emit (Outb 0x70 reg)) (\<lambda>_. ubind (inb 0x71) (\<lambda>v. ureturn (ucast v)))"

definition fill_rtcdate :: "rtcdate dprog" where
  "fill_rtcdate =
     ubind (cmos_read 0x00) (\<lambda>s. ubind (cmos_read 0x02) (\<lambda>m. ubind (cmos_read 0x04) (\<lambda>h.
     ubind (cmos_read 0x07) (\<lambda>d. ubind (cmos_read 0x08) (\<lambda>mo. ubind (cmos_read 0x09) (\<lambda>y.
       ureturn \<lparr>second = s, minute = m, hour = h, day = d, month = mo, year = y\<rparr>))))))"

definition cmos_round :: "unit \<Rightarrow> (unit + rtcdate) dprog" where
  "cmos_round _ =
     ubind fill_rtcdate (\<lambda>t1.
     ubind (cmos_read 0x0a) (\<lambda>sa.
       if sa AND 0x80 \<noteq> 0 then ureturn (Inl ())
       else ubind fill_rtcdate (\<lambda>t2. ureturn (if t1 = t2 then Inr t1 else Inl ()))))"

definition CONV :: "u32 \<Rightarrow> u32" where
  "CONV x = drop_bit 4 x * 10 + (x AND 0xf)"

definition cmostime :: "rtcdate dprog" where
  "cmostime =
     ubind (cmos_read 0x0b) (\<lambda>stb.
     ubind (uwhile cmos_round ()) (\<lambda>t.
       let t = (if stb AND 4 = 0 then \<lparr>second = CONV (second t), minute = CONV (minute t), hour = CONV (hour t),
                    day = CONV (day t), month = CONV (month t), year = CONV (year t)\<rparr> else t)
       in ureturn (t\<lparr>year := year t + 2000\<rparr>)))"

section \<open>The I/O APIC, the old controllers and the serial port\<close>

definition ioapicread :: "u32 \<Rightarrow> u32 dprog" where
  "ioapicread r = ubind (emit (IoapicSel r)) (\<lambda>_. ucall IoapicGet)"

definition ioapicwrite :: "u32 \<Rightarrow> u32 \<Rightarrow> unit dprog" where
  "ioapicwrite r d = ubind (emit (IoapicSel r)) (\<lambda>_. emit (IoapicData d))"

fun ioapic_mask :: "nat \<Rightarrow> nat \<Rightarrow> unit dprog" where
  "ioapic_mask i 0 = ureturn ()"
| "ioapic_mask i (Suc n) =
     ubind (ioapicwrite (0x10 + 2 * of_nat i) (0x10000 OR (T_IRQ0 + of_nat i))) (\<lambda>_.
     ubind (ioapicwrite (0x10 + 2 * of_nat i + 1) 0) (\<lambda>_. ioapic_mask (Suc i) n))"

definition ioapicinit :: "u32 \<Rightarrow> unit dprog" where
  "ioapicinit ioapicid =
     ubind (ioapicread 1) (\<lambda>v.
     ubind (ioapicread 0) (\<lambda>w.
     ubind (if drop_bit 24 w \<noteq> ioapicid then emit (Printed (''ioapicinit: id isn't equal to ioapicid; not a MP'' @ [CHR 0x0A])) else ureturn ()) (\<lambda>_.
     ioapic_mask 0 (Suc (unat (drop_bit 16 v AND 0xFF))))))"

definition ioapicenable :: "u32 \<Rightarrow> u32 \<Rightarrow> unit dprog" where
  "ioapicenable irq cpunum =
     ubind (ioapicwrite (0x10 + 2 * irq) (T_IRQ0 + irq)) (\<lambda>_. ioapicwrite (0x10 + 2 * irq + 1) (push_bit 24 cpunum))"

definition picinit :: "unit dprog" where
  "picinit = all_of [Outb 0x21 0xFF, Outb 0xA1 0xFF]"

text \<open>\<^verbatim>\<open>uartputc\<close> with its polls of the status register, at most \<open>n\<close>; the result of \<^verbatim>\<open>uartinit\<close> is the new value of \<^verbatim>\<open>uart\<close>.\<close>

fun uart_wait :: "nat \<Rightarrow> unit dprog" where
  "uart_wait 0 = ureturn ()"
| "uart_wait (Suc n) = ubind (inb 0x3fd) (\<lambda>v. if v AND 0x20 \<noteq> 0 then ureturn () else uart_wait n)"

definition uart_send :: "char \<Rightarrow> unit dprog" where
  "uart_send c = ubind (uart_wait 128) (\<lambda>_. emit (Outb 0x3f8 (of_char c)))"

fun uart_sends :: "string \<Rightarrow> unit dprog" where
  "uart_sends [] = ureturn ()"
| "uart_sends (c # cs) = ubind (uart_send c) (\<lambda>_. uart_sends cs)"

definition uartinit :: "bool dprog" where
  "uartinit =
     ubind (all_of [Outb 0x3fa 0, Outb 0x3fb 0x80, Outb 0x3f8 12, Outb 0x3f9 0, Outb 0x3fb 0x03, Outb 0x3fc 0, Outb 0x3f9 0x01]) (\<lambda>_.
     ubind (inb 0x3fd) (\<lambda>v.
       if v = 0xFF then ureturn False
       else ubind (inb 0x3fa) (\<lambda>_. ubind (inb 0x3f8) (\<lambda>_. ubind (ioapicenable IRQ_COM1 0) (\<lambda>_.
            ubind (uart_sends (''xv6...'' @ [CHR 0x0A])) (\<lambda>_. ureturn True))))))"

section \<open>What the drivers do\<close>

lemma busy_devices: "busy lapic_settled" "busy cmos_round"
proof -
  show "busy lapic_settled" by (rule busy_eats) (simp add: lapic_settled_def eats_bind1)
  have c: "eats (cmos_read r)" for r by (simp add: cmos_read_def inb_def eats_bind1 eats_bind2)
  have f: "eats fill_rtcdate" unfolding fill_rtcdate_def by (rule eats_bind1) (auto simp: c intro!: mild_bind)
  show "busy cmos_round"
    by (rule busy_eats, unfold cmos_round_def, rule eats_bind1) (auto simp: c f intro!: mild_bind)
qed

text \<open>Reading the clock, with registers that hold bytes.\<close>

definition byte :: "u32 \<Rightarrow> bool" where
  "byte v \<longleftrightarrow> v < 256"

lemma byte_cast: "byte v \<Longrightarrow> ucast (ucast v :: u8) = v"
  unfolding byte_def by transfer (simp add: take_bit_eq_mod)

text \<open>
  The registers of the clock chip by their index, a log of what they returned, and the registers a sequence of port accesses reads: a
  read of port 0x71 returns the register that was last selected at port 0x70.
\<close>

definition clock_log :: "rtcdate \<Rightarrow> (u8 \<times> u32) list" where
  "clock_log t = [(0x00, second t), (0x02, minute t), (0x04, hour t), (0x07, day t), (0x08, month t), (0x09, year t)]"

abbreviation status_a :: "u32 \<Rightarrow> (u8 \<times> u32) list" where "status_a v \<equiv> [(0x0A, v)]"
abbreviation status_b :: "u32 \<Rightarrow> (u8 \<times> u32) list" where "status_b v \<equiv> [(0x0B, v)]"

fun registers_read :: "u8 \<Rightarrow> dio list \<Rightarrow> u8 list" where
  "registers_read r [] = []"
| "registers_read r (Outb p v # cs) = registers_read (if p = 0x70 then v else r) cs"
| "registers_read r (Inb p # cs) = (if p = 0x71 then [r] else []) @ registers_read r cs"
| "registers_read r (_ # cs) = registers_read r cs"

text \<open>A program reads the registers of a log, gets their values as replies and returns \<open>x\<close>.\<close>

definition reads :: "'a dprog \<Rightarrow> (u8 \<times> u32) list \<Rightarrow> 'a \<Rightarrow> bool" where
  "reads p l x \<longleftrightarrow> (\<forall>rs. \<exists>cs. p (map snd l @ rs) = (cs, Some (x, rs)) \<and> (\<forall>r ds. registers_read r (cs @ ds) = map fst l @ registers_read (last (r # map fst l)) ds))"

lemma reads_return: "reads (ureturn x) [] x"
  by (simp add: reads_def ureturn_def)

lemma reads_bind:
  assumes "reads p l x" "reads (f x) l' y"
  shows "reads (ubind p f) (l @ l') y"
  unfolding reads_def
proof
  fix rs
  obtain cs where cs: "p (map snd l @ map snd l' @ rs) = (cs, Some (x, map snd l' @ rs))"
      "\<And>r ds. registers_read r (cs @ ds) = map fst l @ registers_read (last (r # map fst l)) ds"
    using assms(1) unfolding reads_def by meson
  obtain ds where ds: "f x (map snd l' @ rs) = (ds, Some (y, rs))"
      "\<And>r es. registers_read r (ds @ es) = map fst l' @ registers_read (last (r # map fst l')) es"
    using assms(2) unfolding reads_def by meson
  have "last (last (r # map fst l) # map fst l') = last (r # map fst (l @ l'))" for r by (cases l') auto
  then show "\<exists>cs. ubind p f (map snd (l @ l') @ rs) = (cs, Some (y, rs)) \<and>
      (\<forall>r ds. registers_read r (cs @ ds) = map fst (l @ l') @ registers_read (last (r # map fst (l @ l'))) ds)"
    using cs ds by (intro exI [of _ "cs @ ds"]) (simp add: ubind_def)
qed

lemma reads_end: "reads p l x \<Longrightarrow> y = f x \<Longrightarrow> reads (ubind p (\<lambda>x. ureturn (f x))) l y"
  using reads_bind [of p l x "\<lambda>x. ureturn (f x)" "[]" y] reads_return [of y] by simp

lemma reads_cmos: "byte v \<Longrightarrow> reads (cmos_read r) [(r, v)] v"
  by (simp add: reads_def cmos_read_def inb_def ubind_def emit_def ucall_def ureturn_def byte_cast)

lemma reads_fill:
  assumes "\<forall>v \<in> set (map snd (clock_log t)). byte v"
  shows "reads fill_rtcdate (clock_log t) t"
proof -
  have r: "reads (cmos_read r) [(r, v)] v" if "v \<in> {second t, minute t, hour t, day t, month t, year t}" for r v
    using assms that by (intro reads_cmos) (auto simp: clock_log_def)
  have "reads fill_rtcdate ([(0x00, second t)] @ [(0x02, minute t)] @ [(0x04, hour t)] @ [(0x07, day t)] @ [(0x08, month t)] @ [(0x09, year t)]) t"
    unfolding fill_rtcdate_def
    by (rule reads_bind [OF r], simp)+ (rule reads_end [OF r], simp_all)
  then show ?thesis by (simp add: clock_log_def)
qed

text \<open>A round in which the clock is being updated, and one in which the time changes.\<close>

definition unsettled :: "(u8 \<times> u32) list \<Rightarrow> bool" where
  "unsettled l \<longleftrightarrow> (\<exists>t sa t'. (\<forall>v \<in> set (map snd (clock_log t @ status_a sa @ clock_log t')). byte v) \<and>
     (l = clock_log t @ status_a sa \<and> sa AND 0x80 \<noteq> 0 \<or> l = clock_log t @ status_a sa @ clock_log t' \<and> sa AND 0x80 = 0 \<and> t \<noteq> t'))"

lemma reads_round:
  assumes "reads fill_rtcdate (clock_log t) t" "reads (cmos_read 0x0A) (status_a sa) sa" "sa AND 0x80 = 0" "reads fill_rtcdate (clock_log t') t'"
  shows "reads (cmos_round u) (clock_log t @ status_a sa @ clock_log t') (if t = t' then Inr t else Inl ())"
  unfolding cmos_round_def
proof (rule reads_bind [OF assms(1)], rule reads_bind [OF assms(2)])
  show "reads (if sa AND 0x80 \<noteq> 0 then ureturn (Inl ()) else ubind fill_rtcdate (\<lambda>t2. ureturn (if t = t2 then Inr t else Inl ())))
      (clock_log t') (if t = t' then Inr t else Inl ())"
    using reads_end [OF assms(4), of "if t = t' then Inr t else Inl ()" "\<lambda>t2. if t = t2 then Inr t else Inl ()"] assms(3) by simp
qed

lemma round_again:
  assumes "unsettled l"
  shows "reads (cmos_round u) l (Inl ())"
proof -
  obtain t sa t' where b: "\<forall>v \<in> set (map snd (clock_log t @ status_a sa @ clock_log t')). byte v"
    and l: "l = clock_log t @ status_a sa \<and> sa AND 0x80 \<noteq> 0 \<or> l = clock_log t @ status_a sa @ clock_log t' \<and> sa AND 0x80 = 0 \<and> t \<noteq> t'"
    using assms unfolding unsettled_def by blast
  have r: "reads fill_rtcdate (clock_log t) t" "reads (cmos_read 0x0A) (status_a sa) sa" "reads fill_rtcdate (clock_log t') t'"
    using b by (auto intro!: reads_fill reads_cmos)
  show ?thesis
  proof (cases "sa AND 0x80 = 0")
    case True
    then have "t \<noteq> t'" "l = clock_log t @ status_a sa @ clock_log t'" using l by auto
    then show ?thesis using reads_round [OF r(1,2) True r(3)] by simp
  next
    case False
    have "reads (ubind (cmos_read 0x0A) (\<lambda>sa. if sa AND 0x80 \<noteq> 0 then ureturn (Inl ()) else f sa)) (status_a sa @ []) (Inl () :: unit + rtcdate)" for f
      using False reads_return by (intro reads_bind [OF r(2)]) simp
    then have "reads (cmos_round u) (clock_log t @ status_a sa) (Inl ())"
      unfolding cmos_round_def by (intro reads_bind [OF r(1)]) simp
    then show ?thesis using False l by auto
  qed
qed

lemma round_done:
  assumes "\<forall>v \<in> set (map snd (clock_log t)). byte v" "byte sa" "sa AND 0x80 = 0"
  shows "reads (cmos_round u) (clock_log t @ status_a sa @ clock_log t) (Inr t)"
  using reads_round [OF reads_fill [OF assms(1)] reads_cmos [OF assms(2)] assms(3) reads_fill [OF assms(1)]] by simp

lemma reads_while:
  assumes "busy b"
  shows "reads (b s) l (Inr y) \<Longrightarrow> reads (uwhile b s) l y"
    "reads (b s) l (Inl s') \<Longrightarrow> reads (uwhile b s') l' y \<Longrightarrow> reads (uwhile b s) (l @ l') y"
  using reads_bind [of "b s" l "Inr y" _ "[]" y] reads_bind [of "b s" l "Inl s'" _ l' y] reads_return [of y]
  by (auto simp: uwhile_unfold [OF assms, of s])

text \<open>Binary-coded decimals.\<close>

definition bcd :: "nat \<Rightarrow> u32" where
  "bcd n = of_nat (16 * (n div 10) + n mod 10)"

lemma bcd_all: "\<forall>n \<in> set [0..<100]. CONV (bcd n) = of_nat n \<and> byte (bcd n)"
  by code_simp

lemma bcd_CONV: "n < 100 \<Longrightarrow> CONV (bcd n) = of_nat n \<and> byte (bcd n)"
  using bcd_all by simp

definition dated :: "(nat \<Rightarrow> u32) \<Rightarrow> nat list \<Rightarrow> rtcdate" where
  "dated f d = \<lparr>second = f (d ! 0), minute = f (d ! 1), hour = f (d ! 2), day = f (d ! 3), month = f (d ! 4), year = f (d ! 5)\<rparr>"

text \<open>
  C32. \<^verbatim>\<open>cmostime\<close> returns the time of the clock. It reads status register B, and then in rounds the six registers of the time, the update
  flag in status register A and the time again. Whatever the rounds read while the clock is being updated or moves on
  between two readings, the first two equal readings without an update are decoded from binary-coded decimals, and the year counted from 2000.
\<close>

theorem cmostime_reads_clock:
  assumes "list_all unsettled us" "length d = 6" "list_all (\<lambda>n. n < 100) d" "byte stb" "stb AND 4 = 0" "byte sa" "sa AND 0x80 = 0"
    and "l = status_b stb @ concat us @ clock_log (dated bcd d) @ status_a sa @ clock_log (dated bcd d)"
  shows "\<exists>cs. cmostime (map snd l @ rs) = (cs, Some ((dated of_nat d)\<lparr>year := of_nat (d ! 5) + 2000\<rparr>, rs)) \<and> registers_read r cs = map fst l"
proof -
  let ?t = "dated bcd d"
  let ?l = "clock_log ?t @ status_a sa @ clock_log ?t"
  have d: "d ! i < 100" if "i < 6" for i using assms(2,3) that by (simp add: list_all_length)
  have b: "\<forall>v \<in> set (map snd (clock_log ?t)). byte v" using bcd_CONV d by (simp add: clock_log_def dated_def)
  have "reads (uwhile cmos_round ()) (concat us @ ?l) ?t"
    using assms(1)
  proof (induction us)
    case Nil
    then show ?case using reads_while(1) [OF busy_devices(2) round_done [OF b assms(6,7)]] by simp
  next
    case (Cons u us)
    then show ?case using reads_while(2) [OF busy_devices(2) round_again [of u]] by simp
  qed
  from reads_bind [OF this reads_return]
  have w: "reads (ubind (uwhile cmos_round ()) (\<lambda>t. ureturn (f t))) (concat us @ ?l) (f ?t)" for f :: "rtcdate \<Rightarrow> rtcdate" by simp
  have "reads cmostime (status_b stb @ concat us @ ?l) ((dated of_nat d)\<lparr>year := of_nat (d ! 5) + 2000\<rparr>)"
    unfolding cmostime_def Let_def
    by (rule reads_bind [OF reads_cmos [OF assms(4)]])
      (use w [of "\<lambda>t. \<lparr>second = CONV (second t), minute = CONV (minute t), hour = CONV (hour t),
                    day = CONV (day t), month = CONV (month t), year = CONV (year t) + 2000\<rparr>"] bcd_CONV d assms(5) in \<open>simp add: dated_def\<close>)
  then obtain cs where cs: "cmostime (map snd l @ rs) = (cs, Some ((dated of_nat d)\<lparr>year := of_nat (d ! 5) + 2000\<rparr>, rs))"
      "\<And>r ds. registers_read r (cs @ ds) = map fst l @ registers_read (last (r # map fst l)) ds"
    unfolding reads_def assms(8) by meson
  then show ?thesis using cs(2) [of r "[]"] by auto
qed

theorem cmostime_reads_clock_witness:
  "\<exists>cs. cmostime (map snd (status_b 2 @ (clock_log (dated bcd [59, 59, 23, 31, 12, 23]) @ status_a 0x80) @
      clock_log (dated bcd [1, 0, 0, 1, 1, 24]) @ status_a 0x26 @ clock_log (dated bcd [1, 0, 0, 1, 1, 24]))) =
      (cs, Some (dated of_nat [1, 0, 0, 1, 1, 2024], [])) \<and>
    registers_read 0 cs = [0x0B, 0, 2, 4, 7, 8, 9, 0x0A, 0, 2, 4, 7, 8, 9, 0x0A, 0, 2, 4, 7, 8, 9]"
proof -
  let ?u = "clock_log (dated bcd [59, 59, 23, 31, 12, 23]) @ status_a 0x80"
  have "\<forall>v \<in> set (map snd ?u). byte v" by code_simp
  then have "unsettled ?u"
    unfolding unsettled_def by (intro exI [of _ "dated bcd [59, 59, 23, 31, 12, 23]"] exI [of _ "0x80"]) auto
  moreover have "byte 2" "byte 0x26" by code_simp+
  ultimately show ?thesis
    using cmostime_reads_clock [of "[?u]" "[1, 0, 0, 1, 1, 24]" 2 "0x26" _ "[]" 0]
    by (simp add: dated_def clock_log_def)
qed

text \<open>The register file of the I/O APIC: a write to the data register goes to the register that was selected.\<close>

fun ioapic_run :: "dio list \<Rightarrow> u32 \<times> (u32 \<Rightarrow> u32) \<Rightarrow> u32 \<times> (u32 \<Rightarrow> u32)" where
  "ioapic_run [] s = s"
| "ioapic_run (IoapicSel r # cs) s = ioapic_run cs (r, snd s)"
| "ioapic_run (IoapicData d # cs) s = ioapic_run cs (fst s, (snd s)(fst s := d))"
| "ioapic_run (_ # cs) s = ioapic_run cs s"

lemma ioapic_run_append: "ioapic_run (xs @ ys) s = ioapic_run ys (ioapic_run xs s)"
  by (induction xs s rule: ioapic_run.induct) simp_all

abbreviation entry_low :: "nat \<Rightarrow> u32" where "entry_low i \<equiv> 0x10 + 2 * of_nat i"
abbreviation entry_high :: "nat \<Rightarrow> u32" where "entry_high i \<equiv> 0x10 + 2 * of_nat i + 1"

lemma unat_entry: "i < 256 \<Longrightarrow> unat (entry_low i) = 16 + 2 * i" "i < 256 \<Longrightarrow> unat (entry_high i) = 17 + 2 * i"
proof -
  assume i: "i < 256"
  have e: "entry_low i = of_nat (16 + 2 * i)" "entry_high i = of_nat (17 + 2 * i)" by simp_all
  have u: "unat (of_nat n :: u32) = n" if "n < 1000" for n using that by (simp only: unat_of_nat) simp
  show "unat (entry_low i) = 16 + 2 * i" unfolding e(1) by (rule u) (use i in simp)
  show "unat (entry_high i) = 17 + 2 * i" unfolding e(2) by (rule u) (use i in simp)
qed

lemma entry_apart:
  assumes "i < 256" "j < 256"
  shows "entry_low i = entry_low j \<longleftrightarrow> i = j" "entry_high i = entry_high j \<longleftrightarrow> i = j" "entry_low i \<noteq> entry_high j" "entry_high j \<noteq> entry_low i"
proof -
  show l: "entry_low i \<noteq> entry_high j"
  proof
    assume "entry_low i = entry_high j"
    then have "16 + 2 * i = 17 + 2 * j" using unat_entry(1) [OF assms(1)] unat_entry(2) [OF assms(2)] by (simp only:)
    then show False by presburger
  qed
  show "entry_high j \<noteq> entry_low i" using l by metis
  show "entry_low i = entry_low j \<longleftrightarrow> i = j"
  proof
    assume "entry_low i = entry_low j"
    then have "unat (entry_low i) = unat (entry_low j)" by (simp only:)
    then show "i = j" unfolding unat_entry(1) [OF assms(1)] unat_entry(1) [OF assms(2)] by simp
  qed simp
  show "entry_high i = entry_high j \<longleftrightarrow> i = j"
  proof
    assume "entry_high i = entry_high j"
    then have "unat (entry_high i) = unat (entry_high j)" by (simp only:)
    then show "i = j" unfolding unat_entry(2) [OF assms(1)] unat_entry(2) [OF assms(2)] by simp
  qed simp
qed

lemma ioapic_mask_effect:
  assumes "i + n \<le> 256" "j < 256"
  shows "\<exists>cs. ioapic_mask i n rs = (cs, Some ((), rs)) \<and>
    snd (ioapic_run cs s) (entry_low j) = (if i \<le> j \<and> j < i + n then 0x10000 OR (T_IRQ0 + of_nat j) else snd s (entry_low j))"
  using assms(1)
proof (induction n arbitrary: i s)
  case 0
  then show ?case by (auto simp: ureturn_def)
next
  case (Suc n)
  let ?w = "[IoapicSel (entry_low i), IoapicData (0x10000 OR (T_IRQ0 + of_nat i)), IoapicSel (entry_high i), IoapicData 0]"
  obtain cs where cs: "ioapic_mask (Suc i) n rs = (cs, Some ((), rs))"
      "snd (ioapic_run cs (ioapic_run ?w s)) (entry_low j) =
        (if Suc i \<le> j \<and> j < Suc i + n then 0x10000 OR (T_IRQ0 + of_nat j) else snd (ioapic_run ?w s) (entry_low j))"
    using Suc.IH [of "Suc i" "ioapic_run ?w s"] Suc.prems by auto
  have i: "i < 256" using Suc.prems by simp
  have "snd (ioapic_run ?w s) (entry_low j) = (if i = j then 0x10000 OR (T_IRQ0 + of_nat j) else snd s (entry_low j))"
    using entry_apart [OF i assms(2)] entry_apart [OF assms(2) i] by auto
  moreover have "ioapic_mask i (Suc n) rs = (?w @ cs, Some ((), rs))"
    using cs(1) by (simp add: ioapicwrite_def ubind_def emit_def)
  ultimately show ?case using cs(2) by (intro exI [of _ "?w @ cs"]) (auto simp: ioapic_run_append)
qed

lemma masked_bit: "(0x10000 OR x :: u32) AND 0x10000 \<noteq> 0"
proof
  assume "(0x10000 OR x :: u32) AND 0x10000 = 0"
  then have "bit ((0x10000 OR x :: u32) AND 0x10000) 16 = False" by simp
  then show False by (simp add: bit_and_iff bit_or_iff)
qed

lemma low_byte: "unat (x AND 0xFF :: u32) < 256"
proof -
  have "x AND 0xFF \<le> 0xFF" by (rule word_and_le1)
  then show ?thesis by (simp add: word_le_nat_alt)
qed

text \<open>
  C31. After \<^verbatim>\<open>ioapicinit\<close> and \<^verbatim>\<open>ioapicenable\<close> exactly one interrupt of the I/O APIC gets through: that of \<open>irq\<close>, with its vector, routed to the CPU;
  the entries of all other interrupts the controller has are masked.
\<close>

theorem ioapic_routes:
  assumes "unat irq \<le> unat (drop_bit 16 v AND 0xFF)"
  shows "\<exists>cs ds. ioapicinit ioapicid (v # w # rs) = (cs, Some ((), rs)) \<and> ioapicenable irq cpunum rs = (ds, Some ((), rs)) \<and>
    (let m = snd (ioapic_run (cs @ ds) s) in
      m (entry_low (unat irq)) = T_IRQ0 + irq \<and> m (entry_high (unat irq)) = push_bit 24 cpunum \<and>
      (\<forall>i \<le> unat (drop_bit 16 v AND 0xFF). i \<noteq> unat irq \<longrightarrow> m (entry_low i) AND 0x10000 \<noteq> 0))"
proof -
  let ?n = "unat (drop_bit 16 v AND 0xFF)" and ?q = "unat irq"
  have n: "?n < 256" by (rule low_byte)
  obtain mc where mc: "ioapic_mask 0 (Suc ?n) rs = (mc, Some ((), rs))"
    using ioapic_mask_effect [of 0 "Suc ?n" 0] n by (metis Suc_leI add_0 zero_less_numeral)
  have m: "snd (ioapic_run mc u) (entry_low j) AND 0x10000 \<noteq> 0" if "j \<le> ?n" for j u
    using ioapic_mask_effect [of 0 "Suc ?n" j rs u] n mc that masked_bit by auto
  let ?p = "if drop_bit 24 w \<noteq> ioapicid then [Printed (''ioapicinit: id isn't equal to ioapicid; not a MP'' @ [CHR 0x0A])] else []"
  let ?cs = "[IoapicSel 1, IoapicGet, IoapicSel 0, IoapicGet] @ ?p @ mc"
  let ?ds = "[IoapicSel (entry_low ?q), IoapicData (T_IRQ0 + irq), IoapicSel (entry_high ?q), IoapicData (push_bit 24 cpunum)]"
  have q: "?q < 256" using assms n by simp
  have "ioapicinit ioapicid (v # w # rs) = (?cs, Some ((), rs))"
    by (simp add: ioapicinit_def ioapicread_def ubind_def emit_def ucall_def ureturn_def mc del: ioapic_mask.simps)
  moreover have "ioapicenable irq cpunum rs = (?ds, Some ((), rs))"
    by (simp add: ioapicenable_def ioapicwrite_def ubind_def emit_def)
  moreover have "let m = snd (ioapic_run (?cs @ ?ds) s) in
      m (entry_low ?q) = T_IRQ0 + irq \<and> m (entry_high ?q) = push_bit 24 cpunum \<and>
      (\<forall>i \<le> ?n. i \<noteq> ?q \<longrightarrow> m (entry_low i) AND 0x10000 \<noteq> 0)"
    using entry_apart [OF q q] entry_apart(1,3) [OF _ q] m n by (simp add: ioapic_run_append Let_def)
  ultimately show ?thesis by blast
qed

theorem ioapic_routes_witness:
  "\<exists>cs ds. ioapicinit 0 [0x170011, 0] = (cs, Some ((), [])) \<and> ioapicenable IRQ_COM1 0 [] = (ds, Some ((), [])) \<and>
    snd (ioapic_run (cs @ ds) (0, \<lambda>_. 0)) 0x18 = 0x24"
  using ioapic_routes [of IRQ_COM1 "0x170011" 0 0 "[]" 0 "(0, \<lambda>_. 0)"] by (auto simp: IRQ_COM1_def T_IRQ0_def Let_def)

end
