(* ===== verification/Mp.thy ===== *)
theory Mp
  imports Kalloc
begin

text \<open>
  Finding the processors, \<^verbatim>\<open>src/mp.c\<close> with the structures of \<^verbatim>\<open>src/mp.h\<close>: the search for the floating pointer structure in
  memory, the checks of the configuration table, and the walk over its entries. The walk may run forever; it does so exactly
  on the entries it does not know.
\<close>

definition NCPU :: nat where "NCPU = 8"

definition sum_bytes :: "mem \<Rightarrow> u32 \<Rightarrow> nat \<Rightarrow> u8" where
  "sum_bytes m p len = sum_list (map (\<lambda>i. m (p + of_nat i)) [0..<len])"

text \<open>\<^verbatim>\<open>memcmp(p, "...", n) == 0\<close>.\<close>

definition mem_is :: "mem \<Rightarrow> u32 \<Rightarrow> string \<Rightarrow> bool" where
  "mem_is m p s \<longleftrightarrow> map (\<lambda>i. m (p + of_nat i)) [0..<length s] = map of_char s"

definition load16 :: "mem \<Rightarrow> u32 \<Rightarrow> u32" where
  "load16 m p = ucast (m p) OR push_bit 8 (ucast (m (p + 1)))"

definition mpsearch1 :: "mem \<Rightarrow> u32 \<Rightarrow> nat \<Rightarrow> u32 option" where
  "mpsearch1 m a len =
     find (\<lambda>p. mem_is m p ''_MP_'' \<and> sum_bytes m p 16 = 0) (map (\<lambda>k. P2V a + 16 * of_nat k) [0..<(len + 15) div 16])"

definition mpsearch :: "mem \<Rightarrow> u32 option" where
  "mpsearch m =
     (let bda = P2V 0x400; p = push_bit 4 (load16 m (bda + 0x0E));
          first = (if p \<noteq> 0 then mpsearch1 m p 1024 else mpsearch1 m (load16 m (bda + 0x13) * 1024 - 1024) 1024)
      in case first of Some x \<Rightarrow> Some x | None \<Rightarrow> mpsearch1 m 0xF0000 0x10000)"

text \<open>The floating pointer structure and the table.\<close>

definition mpconfig :: "mem \<Rightarrow> (u32 \<times> u32) option" where
  "mpconfig m =
     (case mpsearch m of
        None \<Rightarrow> None
      | Some mp \<Rightarrow>
          if load32 m (mp + 4) = 0 then None
          else let conf = P2V (load32 m (mp + 4)) in
            if \<not> mem_is m conf ''PCMP'' then None
            else if m (conf + 6) \<noteq> 1 \<and> m (conf + 6) \<noteq> 4 then None
            else if sum_bytes m conf (unat (load16 m (conf + 4))) \<noteq> 0 then None
            else Some (mp, conf))"

record mpst =
  cpu_ids :: "u8 list"
  ioapic_no :: u8
  ismp :: bool

definition add_cpu :: "u8 \<Rightarrow> mpst \<Rightarrow> mpst" where
  "add_cpu i s = (if length (cpu_ids s) < NCPU then s\<lparr>cpu_ids := cpu_ids s @ [i]\<rparr> else s)"

text \<open>
  The loop over the entries from \<open>p\<close> to \<open>e\<close>. The \<^verbatim>\<open>break\<close> of the default case leaves the \<^verbatim>\<open>switch\<close>, not the loop, and \<^verbatim>\<open>p\<close> stays where it is.
\<close>

partial_function (option) mp_scan :: "mem \<Rightarrow> u32 \<Rightarrow> u32 \<Rightarrow> mpst \<Rightarrow> mpst option" where
  "mp_scan m p e s =
     (if p < e then
        if m p = 0 then mp_scan m (p + 20) e (add_cpu (m (p + 1)) s)
        else if m p = 2 then mp_scan m (p + 8) e (s\<lparr>ioapic_no := m (p + 1)\<rparr>)
        else if m p = 1 \<or> m p = 3 \<or> m p = 4 then mp_scan m (p + 8) e s
        else mp_scan m p e (s\<lparr>ismp := False\<rparr>)
      else Some s)"

text \<open>
  The result: the message of \<^verbatim>\<open>panic\<close>, or what was found, the address of the local APIC and whether the interrupt mode register is
  written. \<open>None\<close>: the loop does not end.
\<close>

definition mpinit :: "mem \<Rightarrow> (string + mpst \<times> u32 \<times> bool) option" where
  "mpinit m =
     (case mpconfig m of
        None \<Rightarrow> Some (Inl ''Expect to run on an SMP'')
      | Some (mp, conf) \<Rightarrow>
          (case mp_scan m (conf + 44) (conf + load16 m (conf + 4)) \<lparr>cpu_ids = [], ioapic_no = 0, ismp = True\<rparr> of
             None \<Rightarrow> None
           | Some s \<Rightarrow>
               if \<not> ismp s then Some (Inl ''Didn't find a suitable machine'')
               else Some (Inr (s, load32 m (conf + 36), m (mp + 12) \<noteq> 0))))"

section \<open>The walk over the table\<close>

datatype mp_entry = Processor u8 | Io_apic u8 | Skipped u8

text \<open>The entries at \<open>p\<close>, their size, and what the walk does with them.\<close>

fun entry_size :: "mp_entry \<Rightarrow> nat" where
  "entry_size (Processor i) = 20"
| "entry_size (Io_apic i) = 8"
| "entry_size (Skipped t) = 8"

definition entry_at :: "mem \<Rightarrow> u32 \<Rightarrow> mp_entry \<Rightarrow> bool" where
  "entry_at m p x \<longleftrightarrow> (case x of Processor i \<Rightarrow> m p = 0 \<and> m (p + 1) = i | Io_apic i \<Rightarrow> m p = 2 \<and> m (p + 1) = i
     | Skipped t \<Rightarrow> m p = t \<and> t \<in> {1, 3, 4})"

fun entries_at :: "mem \<Rightarrow> u32 \<Rightarrow> mp_entry list \<Rightarrow> bool" where
  "entries_at m p [] \<longleftrightarrow> True"
| "entries_at m p (x # xs) \<longleftrightarrow> entry_at m p x \<and> entries_at m (p + of_nat (entry_size x)) xs"

fun apply_entry :: "mp_entry \<Rightarrow> mpst \<Rightarrow> mpst" where
  "apply_entry (Processor i) s = add_cpu i s"
| "apply_entry (Io_apic i) s = s\<lparr>ioapic_no := i\<rparr>"
| "apply_entry (Skipped t) s = s"

abbreviation table_size :: "mp_entry list \<Rightarrow> nat" where
  "table_size xs \<equiv> sum_list (map entry_size xs)"

lemma mp_scan_entry:
  assumes "entry_at m p x" "p < e"
  shows "mp_scan m p e s = mp_scan m (p + of_nat (entry_size x)) e (apply_entry x s)"
  using assms by (cases x) (auto simp: entry_at_def mp_scan.simps [of m p])

lemma mp_scan_entries:
  assumes "entries_at m p xs" "unat p + table_size xs \<le> unat e"
  shows "mp_scan m p e s = mp_scan m (p + of_nat (table_size xs)) e (fold apply_entry xs s)"
  using assms
proof (induction xs arbitrary: p s)
  case (Cons x xs)
  have z: "0 < entry_size x" by (cases x) simp_all
  have e: "unat e < 2 ^ 32" using unsigned_less [of e] by simp
  have u: "unat (p + of_nat (entry_size x)) = unat p + entry_size x"
    using Cons.prems(2) e by (simp add: unat_word_ariths unat_of_nat)
  have "p < e" using Cons.prems(2) z by (simp add: word_less_nat_alt)
  then have "mp_scan m p e s = mp_scan m (p + of_nat (entry_size x)) e (apply_entry x s)"
    using Cons.prems(1) by (intro mp_scan_entry) simp
  also have "\<dots> = mp_scan m (p + of_nat (entry_size x) + of_nat (table_size xs)) e (fold apply_entry xs (apply_entry x s))"
    using Cons.prems u by (intro Cons.IH) simp_all
  finally show ?case by (simp add: add.assoc)
qed simp

text \<open>An entry of another type is never passed.\<close>

lemma mp_scan_stuck: "mp_scan m p e s = Some t \<Longrightarrow> p < e \<Longrightarrow> m p \<in> {0, 1, 2, 3, 4}"
proof -
  assume "mp_scan m p e s = Some t"
  then have "p < e \<longrightarrow> m p \<in> {0, 1, 2, 3, 4}"
  proof (rule mp_scan.raw_induct [where P = "\<lambda>m p e s t. p < e \<longrightarrow> m p \<in> {0, 1, 2, 3, 4}", rotated])
    fix scan m p e s t
    assume ih: "\<And>m p e s t. scan m p e s = Some t \<Longrightarrow> p < e \<longrightarrow> m p \<in> {0, 1, 2, 3, 4}"
      and b: "(if p < e then
        if m p = 0 then scan m (p + 20) e (add_cpu (m (p + 1)) s)
        else if m p = 2 then scan m (p + 8) e (s\<lparr>ioapic_no := m (p + 1)\<rparr>)
        else if m p = 1 \<or> m p = 3 \<or> m p = 4 then scan m (p + 8) e s
        else scan m p e (s\<lparr>ismp := False\<rparr>)
      else Some s) = Some t"
    show "p < e \<longrightarrow> m p \<in> {0, 1, 2, 3, 4}" using b ih [of m p e "s\<lparr>ismp := False\<rparr>" t] by (auto split: if_splits)
  qed
  then show "p < e \<Longrightarrow> m p \<in> {0, 1, 2, 3, 4}" by simp
qed

lemma cpu_ids_fold:
  "cpu_ids (fold apply_entry xs s) = take (max NCPU (length (cpu_ids s))) (cpu_ids s @ [i. Processor i \<leftarrow> xs])"
  "ismp (fold apply_entry xs s) = ismp s"
proof (induction xs arbitrary: s)
  case (Cons x xs)
  {
    case 1
    then show ?case using Cons(1) by (cases x) (auto simp: add_cpu_def max_def take_Cons')
  next
    case 2
    then show ?case using Cons(2) by (cases x) (auto simp: add_cpu_def)
  }
qed simp_all

text \<open>
  C29. The walk over the configuration table ends if every entry of the table has one of the five types the code knows, and then it has found the first
  eight processors in the order of the table; if it meets an entry of another type before the end of the table it never ends, so that the
  message for unsuitable machines is never printed.
\<close>

theorem mp_scan_ends:
  assumes "entries_at m p xs" "unat p + table_size xs \<le> unat e" "q = p + of_nat (table_size xs)"
  shows "(q = e \<longrightarrow> (\<exists>s. mp_scan m p e \<lparr>cpu_ids = [], ioapic_no = 0, ismp = True\<rparr> = Some s \<and> ismp s \<and> cpu_ids s = take 8 [i. Processor i \<leftarrow> xs])) \<and>
    (q < e \<longrightarrow> m q \<notin> {0, 1, 2, 3, 4} \<longrightarrow> mp_scan m p e s = None)"
proof (intro conjI impI)
  assume "q = e"
  then show "\<exists>s. mp_scan m p e \<lparr>cpu_ids = [], ioapic_no = 0, ismp = True\<rparr> = Some s \<and> ismp s \<and> cpu_ids s = take 8 [i. Processor i \<leftarrow> xs]"
    using mp_scan_entries [OF assms(1,2)] assms(3) mp_scan.simps [of m e e]
      cpu_ids_fold [of xs "\<lparr>cpu_ids = [], ioapic_no = 0, ismp = True\<rparr>"] by (simp add: NCPU_def)
next
  assume "q < e" "m q \<notin> {0, 1, 2, 3, 4}"
  then show "mp_scan m p e s = None"
    using mp_scan_entries [OF assms(1,2), of s] assms(3) mp_scan_stuck [of m q e "fold apply_entry xs s"]
    by (cases "mp_scan m q e (fold apply_entry xs s)") simp_all
qed

text \<open>A table with a processor, and one with an entry of type 5 after it.\<close>

theorem mp_scan_ends_witness:
  "(\<exists>s. mp_scan ((\<lambda>_. 0)(0x1001 := 7)) 0x1000 0x1014 \<lparr>cpu_ids = [], ioapic_no = 0, ismp = True\<rparr> = Some s \<and> cpu_ids s = [7]) \<and>
   mp_scan ((\<lambda>_. 0)(0x1001 := 7, 0x1014 := 5)) 0x1000 0x101C \<lparr>cpu_ids = [], ioapic_no = 0, ismp = True\<rparr> = None"
proof
  let ?z = "\<lparr>cpu_ids = [], ioapic_no = 0, ismp = True\<rparr>"
  let ?m = "(\<lambda>_. 0)(0x1001 := 7) :: mem" and ?n = "(\<lambda>_. 0)(0x1001 := 7, 0x1014 := 5) :: mem"
  have e: "entries_at ?m 0x1000 [Processor 7]" "entries_at ?n 0x1000 [Processor 7]" by (simp_all add: entry_at_def)
  have u: "unat (0x1000 :: u32) + table_size [Processor 7] \<le> unat (0x1014 :: u32)" "unat (0x1000 :: u32) + table_size [Processor 7] \<le> unat (0x101C :: u32)"
      "(0x1014 :: u32) = 0x1000 + of_nat (table_size [Processor 7])" by simp_all
  show "\<exists>s. mp_scan ?m 0x1000 0x1014 ?z = Some s \<and> cpu_ids s = [7]"
    using mp_scan_ends [OF e(1) u(1,3), THEN conjunct1] by auto
  have "?n 0x1014 \<notin> {0, 1, 2, 3, 4}" by simp
  then show "mp_scan ?n 0x1000 0x101C ?z = None"
    using mp_scan_ends [OF e(2) u(2,3), THEN conjunct2, of ?z] by (simp only: word_less_nat_alt) simp
qed

end
