(* ===== verification/Boot.thy ===== *)
theory Boot
  imports Mp Interact
begin

text \<open>
  The boot loader, \<^verbatim>\<open>src/bootmain.c\<close>: a program that talks to the ports of the IDE disk and fills memory. What \<^verbatim>\<open>inb\<close> and \<^verbatim>\<open>insl\<close> return
  are replies: a byte of the status register, or the 512 bytes of a sector.
\<close>

section \<open>The loader\<close>

datatype bio = BOut u32 u8 | BIn u32 | BData

datatype breply = BByte u8 | BSector "u8 list"

type_synonym 'a bprog = "(bio, breply, 'a) prog"

definition poll_round :: "unit \<Rightarrow> (unit + unit) bprog" where
  "poll_round _ = ubind (ucall (BIn 0x1F7)) (\<lambda>r. case r of
     BByte v \<Rightarrow> ureturn (if v AND 0xC0 \<noteq> 0x40 then Inl () else Inr ()) | BSector d \<Rightarrow> (\<lambda>rs. ([], None)))"

definition waitdisk :: "unit bprog" where
  "waitdisk = uwhile poll_round ()"

definition insl_sector :: "mem \<Rightarrow> u32 \<Rightarrow> mem bprog" where
  "insl_sector m dst = ubind (ucall BData) (\<lambda>r. case r of
     BSector d \<Rightarrow> if length d = 512 then ureturn (store_list m dst d) else (\<lambda>rs. ([], None)) | BByte v \<Rightarrow> (\<lambda>rs. ([], None)))"

definition readsect :: "mem \<Rightarrow> u32 \<Rightarrow> u32 \<Rightarrow> mem bprog" where
  "readsect m dst offset =
     ubind waitdisk (\<lambda>_.
     ubind (emit (BOut 0x1F2 1)) (\<lambda>_.
     ubind (emit (BOut 0x1F3 (ucast offset))) (\<lambda>_.
     ubind (emit (BOut 0x1F4 (ucast (drop_bit 8 offset)))) (\<lambda>_.
     ubind (emit (BOut 0x1F5 (ucast (drop_bit 16 offset)))) (\<lambda>_.
     ubind (emit (BOut 0x1F6 (ucast (drop_bit 24 offset) OR 0xE0))) (\<lambda>_.
     ubind (emit (BOut 0x1F7 0x20)) (\<lambda>_.
     ubind waitdisk (\<lambda>_. insl_sector m dst))))))))"

definition readseg_round :: "u32 \<Rightarrow> u32 \<times> u32 \<times> mem \<Rightarrow> (u32 \<times> u32 \<times> mem + mem) bprog" where
  "readseg_round epa s = (case s of (pa, offset, m) \<Rightarrow>
     if pa < epa then ubind (readsect m pa offset) (\<lambda>m. ureturn (Inl (pa + 512, offset + 1, m)))
     else ureturn (Inr m))"

definition readseg :: "mem \<Rightarrow> u32 \<Rightarrow> u32 \<Rightarrow> u32 \<Rightarrow> mem bprog" where
  "readseg m pa count offset =
     (let epa = pa + count; pa = pa - offset mod 512; offset = offset div 512 + 1
      in uwhile (readseg_round epa) (pa, offset, m))"

fun load_segments :: "nat \<Rightarrow> u32 \<Rightarrow> mem \<Rightarrow> mem bprog" where
  "load_segments 0 ph m = ureturn m"
| "load_segments (Suc n) ph m =
     (let pa = load32 m (ph + 12); filesz = load32 m (ph + 16) in
      ubind (readseg m pa filesz (load32 m (ph + 4))) (\<lambda>m.
      let filesz = load32 m (ph + 16); memsz = load32 m (ph + 20);
          m = (if memsz > filesz then stosb m (pa + filesz) 0 (unat (memsz - filesz)) else m)
      in load_segments n (ph + 32) m))"

text \<open>The memory and the entry point the loader jumps to; \<open>None\<close> if it returns because the image is not an ELF file.\<close>

definition bootmain :: "mem \<Rightarrow> (mem \<times> u32) option bprog" where
  "bootmain m =
     ubind (readseg m 0x10000 4096 0) (\<lambda>m.
       if load32 m 0x10000 \<noteq> 0x464C457F then ureturn None
       else
         ubind (load_segments (unat (load16 m (0x10000 + 44))) (0x10000 + load32 m (0x10000 + 28)) m) (\<lambda>m.
         ureturn (Some (m, load32 m (0x10000 + 24)))))"

section \<open>What is asked of the disk\<close>

text \<open>The sectors a sequence of port accesses asks for, given the registers from \<^verbatim>\<open>0x1F3\<close> to \<^verbatim>\<open>0x1F6\<close>.\<close>

fun sectors :: "bio list \<Rightarrow> (u32 \<Rightarrow> u8) \<Rightarrow> u32 list" where
  "sectors [] r = []"
| "sectors (BOut p v # cs) r =
     (if p = 0x1F7 \<and> v = 0x20 then
        (ucast (r 0x1F3) OR push_bit 8 (ucast (r 0x1F4)) OR push_bit 16 (ucast (r 0x1F5)) OR push_bit 24 (ucast (r 0x1F6 AND 0x0F))) # sectors cs r
      else sectors cs (r(p := v)))"
| "sectors (_ # cs) r = sectors cs r"

lemma low_nibble: "(x OR 0xE0 :: u8) AND 0x0F = take_bit 4 x"
proof -
  have "(x OR 0xE0 :: u8) AND 0x0F = x AND 0x0F" by (simp add: bit.conj_disj_distrib2)
  moreover have "(0x0F :: u8) = mask 4" by (simp add: mask_eq_exp_minus_1)
  ultimately show ?thesis by (simp only: take_bit_eq_mask)
qed

lemma lba_round_trip:
  assumes "offset < 0x10000000"
  shows "ucast (ucast offset :: u8) OR push_bit 8 (ucast (ucast (drop_bit 8 offset) :: u8)) OR push_bit 16 (ucast (ucast (drop_bit 16 offset) :: u8)) OR
    push_bit 24 (ucast ((ucast (drop_bit 24 offset) OR 0xE0 :: u8) AND 0x0F)) = (offset :: u32)" (is "?l = _")
proof (rule bit_word_eqI)
  fix n
  assume "n < LENGTH(32)"
  then have n: "n < 32" by simp
  have "unat (offset mod 0x10000000) = unat offset" using assms by (simp add: unat_mod word_less_nat_alt)
  then have "offset mod 0x10000000 = offset" unfolding word_unat_eq_iff .
  then have "take_bit 28 offset = offset" by (simp add: take_bit_eq_mod)
  then have h: "bit offset n \<Longrightarrow> n < 28" by (metis bit_take_bit_iff)
  consider "n < 8" | "8 \<le> n" "n < 16" | "16 \<le> n" "n < 24" | "24 \<le> n" by linarith
  then show "bit ?l n = bit offset n"
    unfolding low_nibble
    by cases (use n h in \<open>auto simp: bit_or_iff bit_push_bit_iff bit_ucast_iff bit_take_bit_iff bit_drop_bit_eq\<close>)
qed

lemma busy_boot: "busy poll_round" "busy (readseg_round epa)"
proof -
  have w: "eats (poll_round u)" for u
    unfolding poll_round_def by (rule eats_bind1) (auto split: breply.split)
  then show "busy poll_round" by (rule busy_eats)
  have "mild waitdisk" unfolding waitdisk_def by (rule mild_uwhile) (simp add: w)
  moreover have "eats (insl_sector m dst)" for m dst
    unfolding insl_sector_def by (rule eats_bind1) (auto split: breply.split)
  ultimately have r: "eats (readsect m dst off)" for m dst off
    unfolding readsect_def by (intro eats_bind2) simp_all
  show "busy (readseg_round epa)"
    unfolding busy_def readseg_round_def using r unfolding eats_def by (auto simp: ubind_Some split: prod.splits if_splits)
qed

definition wait_ok :: "u8 list \<Rightarrow> bool" where
  "wait_ok w \<longleftrightarrow> w \<noteq> [] \<and> last w AND 0xC0 = 0x40 \<and> list_all (\<lambda>v. v AND 0xC0 \<noteq> 0x40) (butlast w)"

lemma wait_done: "wait_ok w \<Longrightarrow> waitdisk (map BByte w @ rs) = (replicate (length w) (BIn 0x1F7), Some ((), rs))"
proof (induction w)
  case (Cons v w)
  show ?case
  proof (cases "w = []")
    case True
    then have "poll_round () (BByte v # rs) = ([BIn 0x1F7], Some (Inr (), rs))"
      using Cons.prems by (simp add: poll_round_def wait_ok_def ubind_def ucall_def ureturn_def)
    then show ?thesis using True uwhile_stop [OF busy_boot(1)] by (simp add: waitdisk_def)
  next
    case False
    then have "poll_round () (BByte v # map BByte w @ rs) = ([BIn 0x1F7], Some (Inl (), map BByte w @ rs))" "wait_ok w"
      using Cons.prems by (simp_all add: poll_round_def wait_ok_def ubind_def ucall_def ureturn_def)
    then show ?thesis using Cons.IH uwhile_step [OF busy_boot(1)] by (simp add: waitdisk_def)
  qed
qed (simp add: wait_ok_def)

text \<open>What the disk replies while one sector is read: the status until it is ready, twice, and the data.\<close>

definition served :: "u8 list \<times> u8 list \<times> u8 list \<Rightarrow> breply list" where
  "served x = (case x of (w, w', d) \<Rightarrow> map BByte w @ map BByte w' @ [BSector d])"

definition serve_ok :: "u8 list \<times> u8 list \<times> u8 list \<Rightarrow> bool" where
  "serve_ok x \<longleftrightarrow> (case x of (w, w', d) \<Rightarrow> wait_ok w \<and> wait_ok w' \<and> length d = 512)"

definition sector_data :: "u8 list \<times> u8 list \<times> u8 list \<Rightarrow> u8 list" where
  "sector_data x = snd (snd x)"

lemma sectors_wait [simp]: "sectors (replicate n (BIn p) @ cs) r = sectors cs r"
  by (induction n) simp_all

lemma readsect_served:
  assumes "serve_ok (w, w', d)" "offset < 0x10000000"
  shows "\<exists>cs. readsect m dst offset (served (w, w', d) @ rs) = (cs, Some (store_list m dst d, rs)) \<and>
    (\<forall>ds r. \<exists>r'. sectors (cs @ ds) r = offset # sectors ds r')"
proof -
  let ?o = "[BOut 0x1F2 1, BOut 0x1F3 (ucast offset), BOut 0x1F4 (ucast (drop_bit 8 offset)), BOut 0x1F5 (ucast (drop_bit 16 offset)),
     BOut 0x1F6 (ucast (drop_bit 24 offset) OR 0xE0), BOut 0x1F7 0x20]"
  let ?cs = "replicate (length w) (BIn 0x1F7) @ ?o @ replicate (length w') (BIn 0x1F7) @ [BData]"
  have w: "wait_ok w" "wait_ok w'" "length d = 512" using assms(1) by (simp_all add: serve_ok_def)
  have "readsect m dst offset (served (w, w', d) @ rs) = (?cs, Some (store_list m dst d, rs))"
    by (simp add: readsect_def served_def ubind_def wait_done w emit_def insl_sector_def ucall_def ureturn_def)
  moreover have "\<exists>r'. sectors (?cs @ ds) r = offset # sectors ds r'" for ds r
    using lba_round_trip [OF assms(2)] by (simp, blast)
  ultimately show ?thesis by blast
qed

section \<open>What lands in memory\<close>

lemma store_list_append: "store_list m p (xs @ ys) = store_list (store_list m p xs) (p + of_nat (length xs)) ys"
  by (induction xs arbitrary: m p) (simp_all add: add.assoc)

lemma store_list_at: "length xs \<le> 2 ^ 32 \<Longrightarrow> store_list m p xs a = (if dist p a < length xs then xs ! dist p a else m a)"
proof (induction xs arbitrary: m p)
  case (Cons x xs)
  show ?case
  proof (cases "a = p")
    case True
    then show ?thesis using Cons by (simp add: dist_Suc_self)
  next
    case False
    then show ?thesis using Cons by (simp add: dist_Suc)
  qed
qed simp

lemma concat_sectors:
  "list_all (\<lambda>x. length x = 512) xs \<Longrightarrow> d < 512 * length xs \<Longrightarrow> concat xs ! d = xs ! (d div 512) ! (d mod 512)"
proof (induction xs arbitrary: d)
  case (Cons x xs)
  show ?case
  proof (cases "d < 512")
    case False
    then have "d div 512 = Suc ((d - 512) div 512)" "d mod 512 = (d - 512) mod 512" by (simp_all add: le_div_geq le_mod_geq)
    then show ?thesis using Cons False by (simp add: nth_append)
  qed (use Cons.prems in \<open>simp add: nth_append\<close>)
qed simp

lemma length_sectors: "list_all (\<lambda>x. length x = 512) xs \<Longrightarrow> length (concat xs) = 512 * length xs"
  by (induction xs) simp_all

lemma readseg_loop:
  assumes "list_all serve_ok xs" "unat pa + 512 * length xs < 2 ^ 32" "unat epa \<le> unat pa + 512 * length xs"
    "\<And>j. j < length xs \<Longrightarrow> unat pa + 512 * j < unat epa" "unat off + length xs \<le> 0x10000000"
  shows "\<exists>cs. uwhile (readseg_round epa) (pa, off, m) (concat (map served xs) @ rs) =
      (cs, Some (store_list m pa (concat (map sector_data xs)), rs)) \<and>
    (\<forall>ds r. \<exists>r'. sectors (cs @ ds) r = map of_nat [unat off..<unat off + length xs] @ sectors ds r')"
  using assms
proof (induction xs arbitrary: pa off m)
  case Nil
  then have "readseg_round epa (pa, off, m) rs = ([], Some (Inr m, rs))"
    by (simp add: readseg_round_def ureturn_def word_less_nat_alt)
  then show ?case using uwhile_stop [OF busy_boot(2)] by fastforce
next
  case (Cons x xs)
  obtain w w' d where x: "x = (w, w', d)" by (cases x)
  have d: "length d = 512" using Cons.prems(1) x by (simp add: serve_ok_def)
  have lt: "pa < epa" using Cons.prems(4) [of 0] by (simp add: word_less_nat_alt)
  have o: "off < 0x10000000" using Cons.prems(5) by (simp add: word_less_nat_alt)
  have p: "unat (pa + 512) = unat pa + 512" using Cons.prems(2) by (simp add: unat_word_ariths)
  have off1: "unat (off + 1) = unat off + 1" using Cons.prems(5) by (simp add: unat_word_ariths)
  obtain cs where cs: "readsect m pa off (served x @ concat (map served xs) @ rs) = (cs, Some (store_list m pa d, concat (map served xs) @ rs))"
      "\<forall>ds r. \<exists>r'. sectors (cs @ ds) r = off # sectors ds r'"
    using readsect_served [of w w' d off m pa "concat (map served xs) @ rs"] Cons.prems(1) x o by auto
  have "readseg_round epa (pa, off, m) (served x @ concat (map served xs) @ rs) =
      (cs, Some (Inl (pa + 512, off + 1, store_list m pa d), concat (map served xs) @ rs))"
    using cs(1) lt by (simp add: readseg_round_def ubind_def ureturn_def)
  note step = uwhile_step [OF busy_boot(2) this]
  have j: "unat (pa + 512) + 512 * j < unat epa" if "j < length xs" for j using Cons.prems(4) [of "Suc j"] that p by simp
  have "\<exists>cs'. uwhile (readseg_round epa) (pa + 512, off + 1, store_list m pa d) (concat (map served xs) @ rs) =
      (cs', Some (store_list (store_list m pa d) (pa + 512) (concat (map sector_data xs)), rs)) \<and>
      (\<forall>ds r. \<exists>r'. sectors (cs' @ ds) r = map of_nat [unat (off + 1)..<unat (off + 1) + length xs] @ sectors ds r')"
    by (rule Cons.IH) (use Cons.prems(1,2,3,5) p off1 j in auto)
  then obtain cs' where cs': "uwhile (readseg_round epa) (pa + 512, off + 1, store_list m pa d) (concat (map served xs) @ rs) =
      (cs', Some (store_list (store_list m pa d) (pa + 512) (concat (map sector_data xs)), rs))"
      "\<forall>ds r. \<exists>r'. sectors (cs' @ ds) r = map of_nat [Suc (unat off)..<Suc (unat off) + length xs] @ sectors ds r'"
    unfolding off1 by auto
  have "\<exists>r'. sectors ((cs @ cs') @ ds) r = map of_nat [unat off..<unat off + length (x # xs)] @ sectors ds r'" for ds r
  proof -
    obtain r1 where "sectors (cs @ cs' @ ds) r = off # sectors (cs' @ ds) r1" using cs(2) by blast
    moreover obtain r2 where "sectors (cs' @ ds) r1 = map of_nat [Suc (unat off)..<Suc (unat off) + length xs] @ sectors ds r2" using cs'(2) by blast
    moreover have "map of_nat [unat off..<unat off + length (x # xs)] = off # map of_nat [Suc (unat off)..<Suc (unat off) + length xs]"
      by (simp add: upt_conv_Cons del: upt_Suc)
    ultimately show ?thesis by (metis append_Cons append.assoc)
  qed
  moreover have "store_list m pa (concat (map sector_data (x # xs))) = store_list (store_list m pa d) (pa + 512) (concat (map sector_data xs))"
    using x d by (simp add: store_list_append sector_data_def)
  ultimately show ?case using step cs'(1) by (intro exI [of _ "cs @ cs'"]) simp
qed

text \<open>
  C30. The boot loader loads what it is asked for: if the disk answers every request for a sector with the data of that sector, however long it stays busy,
  then \<^verbatim>\<open>readseg(pa, count, offset)\<close> asks for exactly the sectors that hold the \<^verbatim>\<open>count\<close> bytes of the kernel image from \<^verbatim>\<open>offset\<close> on, the image starting
  at sector 1, and leaves these bytes at \<^verbatim>\<open>pa\<close>.
\<close>

theorem readseg_loads:
  assumes "list_all serve_ok xs" "map sector_data xs = map disk [s..<s + k]" "s = unat offset div 512 + 1" "k = (unat offset mod 512 + unat count + 511) div 512"
    "unat offset mod 512 \<le> unat pa" "unat pa + unat count + 512 < 2 ^ 32" "s + k \<le> 0x10000000"
  shows "\<exists>cs m'. readseg m pa count offset (concat (map served xs) @ rs) = (cs, Some (m', rs)) \<and> sectors cs r = map of_nat [s..<s + k] \<and>
    (\<forall>i < unat count. m' (pa + of_nat i) = disk (1 + (unat offset + i) div 512) ! ((unat offset + i) mod 512))"
proof -
  let ?o = "unat offset mod 512" and ?p = "pa - offset mod 512" and ?c = "unat count"
  have l: "length xs = k" using arg_cong [OF assms(2), of length] by simp
  have k: "512 * k \<le> ?o + ?c + 511" "?o + ?c \<le> 512 * k"
    using div_mult_mod_eq [of "?o + ?c + 511" 512] mod_less_divisor [of 512 "?o + ?c + 511"] assms(4) by linarith+
  have om: "unat (offset mod 512) = ?o" by (simp add: unat_mod)
  have p: "unat ?p = unat pa - ?o" using assms(5) om by (simp add: unat_sub word_le_nat_alt)
  have e: "unat (pa + count) = unat pa + ?c" using assms(6) by (simp add: unat_word_ariths)
  have s: "unat (offset div 512 + 1) = s" using assms(3,7) by (simp add: unat_word_ariths unat_div)
  have d: "list_all (\<lambda>x. length x = 512) (map sector_data xs)"
    using assms(1) by (auto simp: list_all_iff serve_ok_def sector_data_def)
  let ?m = "store_list m ?p (concat (map sector_data xs))"
  have "\<exists>cs. uwhile (readseg_round (pa + count)) (?p, offset div 512 + 1, m) (concat (map served xs) @ rs) = (cs, Some (?m, rs)) \<and>
    (\<forall>ds r. \<exists>r'. sectors (cs @ ds) r = map of_nat [unat (offset div 512 + 1)..<unat (offset div 512 + 1) + length xs] @ sectors ds r')"
    by (rule readseg_loop [OF assms(1)]) (use p e s l k assms(5,6,7) in auto)
  then obtain cs where cs: "readseg m pa count offset (concat (map served xs) @ rs) = (cs, Some (?m, rs))"
      "\<forall>ds r. \<exists>r'. sectors (cs @ ds) r = map of_nat [s..<s + k] @ sectors ds r'"
    unfolding readseg_def Let_def s l by blast
  have "sectors cs r = map of_nat [s..<s + k]" using spec [OF cs(2), of "[]"] by simp
  moreover have "?m (pa + of_nat i) = disk (1 + (unat offset + i) div 512) ! ((unat offset + i) mod 512)" if i: "i < ?c" for i
  proof -
    have "pa + of_nat i - ?p = of_nat i + offset mod 512" by simp
    then have a: "dist ?p (pa + of_nat i) = ?o + i"
      unfolding dist_def using i assms(6) om by (simp add: unat_word_ariths unat_of_nat)
    have lt: "?o + i < 512 * k" using i k by simp
    have "?m (pa + of_nat i) = concat (map sector_data xs) ! (?o + i)"
      using store_list_at [of "concat (map sector_data xs)" m ?p "pa + of_nat i"] length_sectors [OF d] a lt l k assms(5,6) by simp
    also have "\<dots> = map disk [s..<s + k] ! ((?o + i) div 512) ! ((?o + i) mod 512)"
      using concat_sectors [OF d, of "?o + i"] lt l unfolding assms(2) by simp
    also have "\<dots> = disk (s + (?o + i) div 512) ! ((?o + i) mod 512)"
      using lt by (simp add: less_mult_imp_div_less mult.commute)
    also have "s + (?o + i) div 512 = 1 + (unat offset + i) div 512"
      using assms(3) div_mult_self2 [of 512 "?o + i" "unat offset div 512"] by (simp add: add.assoc)
    also have "(?o + i) mod 512 = (unat offset + i) mod 512" by (rule mod_add_left_eq)
    finally show ?thesis .
  qed
  ultimately show ?thesis using cs(1) by blast
qed

text \<open>A disk whose sectors are filled with their number, and its replies to a request for four bytes across two sectors.\<close>

definition flat :: "nat \<Rightarrow> u8 list" where
  "flat n = replicate 512 (of_nat n)"

lemma length_flat: "length (flat n) = 512" "i < 512 \<Longrightarrow> flat n ! i = of_nat n"
  by (simp_all only: flat_def length_replicate nth_replicate)

definition two_sectors :: "(u8 list \<times> u8 list \<times> u8 list) list" where
  "two_sectors = [([0x40], [0x40], flat 1), ([0x80, 0x40], [0x50], flat 2)]"

theorem readseg_loads_witness:
  "\<exists>cs m'. readseg (\<lambda>_. 0) 0x10000 4 510 (concat (map served two_sectors) @ []) = (cs, Some (m', [])) \<and>
     sectors cs (\<lambda>_. 0) = map of_nat [1..<3] \<and> m' 0x10000 = 1 \<and> m' 0x10002 = 2"
proof -
  have ok: "list_all serve_ok two_sectors" by (simp add: serve_ok_def wait_ok_def two_sectors_def length_flat)
  have ds: "map sector_data two_sectors = map flat [1..<1 + 2]" by (simp add: sector_data_def two_sectors_def upt_rec numeral_2_eq_2)
  have "\<exists>cs m'. readseg (\<lambda>_. 0) 0x10000 4 510 (concat (map served two_sectors) @ []) = (cs, Some (m', [])) \<and>
      sectors cs (\<lambda>_. 0) = map of_nat [1..<1 + 2] \<and>
      (\<forall>i < unat (4 :: u32). m' (0x10000 + of_nat i) = flat (1 + (unat (510 :: u32) + i) div 512) ! ((unat (510 :: u32) + i) mod 512))"
    by (rule readseg_loads [OF ok ds]) simp_all
  then obtain cs m' where r: "readseg (\<lambda>_. 0) 0x10000 4 510 (concat (map served two_sectors) @ []) = (cs, Some (m', []))"
      "sectors cs (\<lambda>_. 0) = map of_nat [1..<1 + 2]"
      "\<forall>i < unat (4 :: u32). m' (0x10000 + of_nat i) = flat (1 + (unat (510 :: u32) + i) div 512) ! ((unat (510 :: u32) + i) mod 512)"
    by blast
  have "m' 0x10000 = 1" "m' 0x10002 = 2" using spec [OF r(3), of 0] spec [OF r(3), of 2] by (simp_all add: length_flat)
  moreover have "(1 :: nat) + 2 = 3" by simp
  ultimately show ?thesis using r(1,2) by metis
qed

end
