(* ===== verification/Spec2Isabelle.thy ===== *)
theory Spec2Isabelle
  imports Spinlock_SMP Sched_Props Proc_Props Log_Ops Pipe_Props Grep Sh Devices Boot
begin

text \<open>
  A model of the operating system in \<^verbatim>\<open>src/\<close>: xv6 for the x86 with a scheduler of three classes (earliest deadline first, round
  robin, first come first served with aging), and the user programs on top of it. The definitions follow the C code
  function by function; the theorems say what the code does and which invariants it keeps.

  \<^bold>\<open>The program.\<close> User programs call the kernel through \<^verbatim>\<open>trap\<close> (\<^verbatim>\<open>src/trap.c\<close>), which dispatches interrupts and, through \<^verbatim>\<open>syscall\<close>
  (\<^verbatim>\<open>src/syscall.c\<close>), the system calls of \<^verbatim>\<open>src/sysproc.c\<close> and \<^verbatim>\<open>src/sysfile.c\<close>. Those act on processes (\<^verbatim>\<open>src/proc.c\<close>), on open files
  (\<^verbatim>\<open>src/file.c\<close>), and through them on pipes (\<^verbatim>\<open>src/pipe.c\<close>), on the console (\<^verbatim>\<open>src/console.c\<close>) and on the file system
  (\<^verbatim>\<open>src/fs.c\<close>), which changes the disk in transactions (\<^verbatim>\<open>src/log.c\<close>) over a cache of blocks (\<^verbatim>\<open>src/bio.c\<close>). Below all of it are spinlocks
  (\<^verbatim>\<open>src/spinlock.c\<close>), sleep locks (\<^verbatim>\<open>src/sleeplock.c\<close>), the page allocator (\<^verbatim>\<open>src/kalloc.c\<close>) and page tables
  (\<^verbatim>\<open>src/vm.c\<close>). \<^verbatim>\<open>scheduler\<close> in \<^verbatim>\<open>src/proc.c\<close> runs on every CPU and chooses the next process.

  \<^bold>\<open>State and outcomes.\<close> The state of the kernel is a record that grows from theory to theory, each component adding the fields of its C
  globals: \<^verbatim>\<open>kst\<close> (the CPUs and locks, \<open>Spinlock\<close>), \<^verbatim>\<open>ckst\<close> (console output, \<open>Cprintf\<close>), \<^verbatim>\<open>mkst\<close> (memory, \<open>Kalloc\<close>), \<^verbatim>\<open>vkst\<close> (\<open>Vm\<close>), \<^verbatim>\<open>pkst\<close> (the
  process table, \<open>Proc\<close>), \<^verbatim>\<open>skst\<close> (sleep locks), \<^verbatim>\<open>bkst\<close> (buffers and the disk, \<open>Bio\<close>), \<^verbatim>\<open>lkst\<close> (the log), \<^verbatim>\<open>fkst\<close> (inodes, \<open>Fs\<close>), \<^verbatim>\<open>wkst\<close> (pipes), \<^verbatim>\<open>okst\<close>
  (open files), \<^verbatim>\<open>xkst\<close> and \<^verbatim>\<open>ikst\<close> (console input). An operation of a component works on every extension of its record, so
  the later components call it as it is. The type \<open>res\<close> of \<open>Xv6_Prelude\<close> is the outcome of kernel code on one CPU: it returned, it
  called \<^verbatim>\<open>panic\<close>, it spins on a lock that another CPU holds, or it gave up the CPU in \<^verbatim>\<open>swtch\<close>. A function that may give up the
  CPU is split there: the saved context of a process names the point where it goes on, and the definition with the suffix
  \<open>resume\<close> is the rest. The first argument \<open>a\<close> of most operations is the APIC id of the CPU they run on.

  \<^bold>\<open>Theories of the kernel model.\<close>
  \<^item> \<open>Xv6_Prelude\<close>: C integers as words, constants of \<^verbatim>\<open>src/param.h\<close>, outcomes, generic lemmas on lists and counting.
  \<^item> \<open>Spinlock\<close>, \<open>Spinlock_SMP\<close>: \<^verbatim>\<open>src/spinlock.c\<close>, \<^verbatim>\<open>mycpu\<close>, \<^verbatim>\<open>cpuid\<close>, \<^verbatim>\<open>myproc\<close>; several CPUs as a step relation.
  \<^item> \<open>Printf\<close>, \<open>Cprintf\<close>, \<open>Cstring\<close>: \<^verbatim>\<open>printint\<close>, \<^verbatim>\<open>cprintf\<close>, \<^verbatim>\<open>printf\<close>, \<^verbatim>\<open>atoi\<close>, \<^verbatim>\<open>src/utils.c\<close>, \<^verbatim>\<open>src/string.c\<close>, \<^verbatim>\<open>src/ulib.c\<close>.
  \<^item> \<open>Kalloc\<close>, \<open>Vm\<close>: \<^verbatim>\<open>src/kalloc.c\<close> with the free list threaded through the pages, \<^verbatim>\<open>src/vm.c\<close> over page tables in memory.
  \<^item> \<open>Proc\<close>, \<open>Proc_Life\<close>, \<open>Scheduler\<close>: \<^verbatim>\<open>src/proc.c\<close>, with \<^verbatim>\<open>src/proc.h\<close>.
  \<^item> \<open>Sleeplock\<close>, \<open>Bio\<close>, \<open>Log\<close>, \<open>Fs\<close>: \<^verbatim>\<open>src/sleeplock.c\<close>, \<^verbatim>\<open>src/bio.c\<close> over the disk of \<^verbatim>\<open>src/memide.c\<close>, \<^verbatim>\<open>src/log.c\<close>, \<^verbatim>\<open>src/fs.c\<close>.
  \<^item> \<open>Pipe\<close>, \<open>File\<close>, \<open>Syscall_Args\<close>, \<open>Sysfile\<close>, \<open>Exec\<close>, \<open>Syscall\<close>: \<^verbatim>\<open>src/pipe.c\<close>, \<^verbatim>\<open>src/file.c\<close>, \<^verbatim>\<open>src/syscall.c\<close>, \<^verbatim>\<open>src/sysfile.c\<close>,
    \<^verbatim>\<open>src/exec.c\<close>, \<^verbatim>\<open>src/sysproc.c\<close>.
  \<^item> \<open>Console\<close>, \<open>Kbd\<close>, \<open>Trap\<close>: \<^verbatim>\<open>src/console.c\<close> with the character paths of \<^verbatim>\<open>src/uart.c\<close>, \<^verbatim>\<open>src/kbd.c\<close>, \<^verbatim>\<open>src/trap.c\<close>.

  \<^item> \<open>Devices\<close>, \<open>Mp\<close>: \<^verbatim>\<open>src/lapic.c\<close> with the clock, \<^verbatim>\<open>src/ioapic.c\<close>, \<^verbatim>\<open>src/picirq.c\<close> and \<^verbatim>\<open>uartinit\<close>; the processor tables, \<^verbatim>\<open>src/mp.c\<close>.

  \<^bold>\<open>Theories of the other programs.\<close> \<open>Interact\<close> has the programs that talk to something outside: a function from the replies to the calls
  that are made, with sequencing and loops. The calls of a user program go to the kernel, those of a driver of \<open>Devices\<close> and of the boot loader to device
  registers and ports.
  \<^item> \<open>Boot\<close>: the boot loader \<^verbatim>\<open>src/bootmain.c\<close>.
  \<^item> \<open>User\<close>, \<open>Grep\<close>: \<^verbatim>\<open>src/cat.c\<close>, \<^verbatim>\<open>src/wc.c\<close>, \<^verbatim>\<open>src/echo.c\<close>, \<^verbatim>\<open>src/kill.c\<close>, \<^verbatim>\<open>src/ln.c\<close>, \<^verbatim>\<open>src/rm.c\<close>, \<^verbatim>\<open>src/mkdir.c\<close>, \<^verbatim>\<open>src/zombie.c\<close>, \<^verbatim>\<open>src/init.c\<close>,
    \<^verbatim>\<open>src/forktest.c\<close>, \<^verbatim>\<open>src/stressfs.c\<close>; \<^verbatim>\<open>src/grep.c\<close>.
  \<^item> \<open>Sh_Parse\<close>, \<open>Sh\<close>: \<^verbatim>\<open>src/sh.c\<close>, the parser over positions in the line and the commands it runs.

  \<^bold>\<open>What is proved.\<close>
  \<^item> \<open>Proc_Inv\<close>, \<open>Proc_Switch\<close>, \<open>Proc_Ops\<close> give every operation on the process table as an equation and show that it keeps the invariant: the
    counters of the three classes agree with the table, process ids are distinct, classes and levels are consistent.
    \<open>Kernel_Frame\<close>, \<open>Kernel_Inv\<close>, \<open>Kernel_Safe\<close> and \<open>Kernel_Trap\<close> carry this invariant through every function of the kernel up to \<^verbatim>\<open>trap\<close>.
    \<open>Sched_Props\<close> and \<open>Proc_Props\<close> state the results: a scheduling round runs the process the policy names, round robin does not
    starve and gives three ticks from the moment a process is run, no wake-up is lost while other CPUs call \<^verbatim>\<open>wakeup\<close>, what the
    clock, aging, \<^verbatim>\<open>kill\<close> and \<^verbatim>\<open>allocproc\<close> do, and the errors of the code: the clock that panics on a sleeper, the second \<^verbatim>\<open>yield\<close> of a
    preempted process, the lock and the counters of \<^verbatim>\<open>change_sched_level\<close>, \<^verbatim>\<open>kill\<close> of a free slot.
  \<^item> \<open>Spinlock_SMP\<close> cuts \<^verbatim>\<open>acquire\<close> and \<^verbatim>\<open>release\<close> at their accesses to the lock, shows that the pieces make up the functions, and proves mutual
    exclusion for every interleaving of the pieces; \<open>Kalloc\<close> that no page is lost or handed out twice.
  \<^item> \<open>Cache\<close> proves the laws of the locale \<open>block_cache\<close> for \<^verbatim>\<open>bread\<close>, \<^verbatim>\<open>bwrite\<close> and \<^verbatim>\<open>brelse\<close>, with \<open>Codec\<close> for the layout of words in blocks.
    \<open>Log_Crash\<close> works over the locale: a crash at any write of a commit and the recovery after it leave all blocks old or all new,
    and recovery itself may be interrupted. \<open>Log_Ops\<close> has the operations the file system calls: \<^verbatim>\<open>log_write\<close> keeps the transaction one that
    commits atomically, \<^verbatim>\<open>end_op\<close> commits it and leaves an empty header on disk, and in every run of operations that keep to their
    share, \<^verbatim>\<open>begin_op\<close> keeps recorded and reserved blocks within \<^verbatim>\<open>LOGSIZE\<close>, one more than a log of that size has room for.
  \<^item> \<open>Ring\<close> and \<open>Pipe_Props\<close> show that a pipe is a queue, through the locale \<open>byte_queue\<close>, also when its counters wrap around.
  \<^item> \<open>Grep\<close> shows that the matcher decides the language of the pattern and which lines are written; \<open>User\<close> what \<^verbatim>\<open>cat\<close> and \<^verbatim>\<open>wc\<close> do.
  \<^item> \<open>Sh_Props\<close> shows that the parser ends, stays in the line, returns well-formed commands, and reads back every command that is
    written as a line; \<open>Sh\<close> follows a pipeline from its line to the descriptors of its processes.
  \<^item> \<open>Boot\<close> shows which sectors \<^verbatim>\<open>readseg\<close> reads and that the bytes of the kernel image arrive; \<open>Mp\<close> that the walk over the processor table
    ends on known entries and never on others; \<open>Devices\<close> which registers of the clock are read and what is returned, and which interrupts the
    I/O APIC lets through.
  \<^item> \<open>Printf\<close> and \<open>Cstring\<close> have round trips and bounds of number formatting and of the string functions, and where \<^verbatim>\<open>printf\<close> and \<^verbatim>\<open>cprintf\<close> agree.
  \<^item> \<open>Sample\<close> holds the concrete states on which the theorems are applied.

  \<^bold>\<open>Bounds and fuel.\<close> Loops over tables recurse over the table. The loops that follow memory or the disk have a measure; \<^verbatim>\<open>rr_loop\<close> may
  run forever and returns \<open>None\<close> then, and a round is proved to return; \<^verbatim>\<open>mp_scan\<close> is of the same kind. The loops of the programs over \<open>Interact\<close> have as much fuel as
  there are replies to come, and the lemmas on \<open>busy\<close>
  show that no loop needs more. The shell parser has four units for every character, and \<open>parse_terminates\<close> shows that they are
  enough. Machine integers keep their width where the code wraps around: words for sizes, addresses, ring counters and
  block numbers, integers where the code only counts.

  \<^bold>\<open>Parameters.\<close> Devices are arguments: the values that ports return, the APIC id of a CPU, the table of interrupt vectors that a script
  generates. Spinlocks are held for no time by other CPUs in the theorems that say so (\<open>quiet\<close>, \<open>calm\<close>); \<open>Spinlock_SMP\<close> and the theorem on
  lost wake-ups of \<open>Proc_Props\<close> are about contention. The disk completes a write as a whole.

  \<^bold>\<open>Not modelled.\<close> The IDE driver \<^verbatim>\<open>src/ide.c\<close>, whose interface is that of \<^verbatim>\<open>src/memide.c\<close>; the start-up order \<^verbatim>\<open>src/main.c\<close> and the assembly files;
  \<^verbatim>\<open>src/umalloc.c\<close>; \<^verbatim>\<open>src/mkfs.c\<close>, which runs on the host; \<^verbatim>\<open>src/ls.c\<close> and the test programs \<^verbatim>\<open>src/usertests.c\<close>, \<^verbatim>\<open>src/rrtest.c\<close>, \<^verbatim>\<open>src/schedtest.c\<close>,
  \<^verbatim>\<open>src/scheduleTest.c\<close>, \<^verbatim>\<open>src/test_sched.c\<close>, which only make system calls and print. \<^verbatim>\<open>getcallerpcs\<close> (a stack walk for debugging), \<^verbatim>\<open>seginit\<close> and \<^verbatim>\<open>idtinit\<close>
  (descriptor registers) are left out of components that are modelled otherwise. The kernel theories take the effect of the drivers of \<open>Devices\<close> as
  given: the APIC id of a CPU is an argument, and an interrupt arrives as a call of \<^verbatim>\<open>trap\<close>.
\<close>

end
